(* ===== verification/Birak_Prelude.thy ===== *)
theory Birak_Prelude
  imports Main "HOL-Library.Char_ord" "HOL-Library.List_Lexorder" "HOL-Library.Product_Lexorder"
    "HOL-Library.Option_ord" "HOL-Library.Sublist"
begin

text \<open>
  Shared vocabulary of the development: the Go primitives the sources of Birak use (64-bit
  integers, byte strings and the functions of \<^verbatim>\<open>strings\<close> and \<^verbatim>\<open>strconv\<close> on them, three-way
  comparison), the fallible result type, the SQL fragments the store's queries are built from
  (\<open>ORDER BY\<close> with \<open>LIMIT\<close>, keyed upsert and delete), and the lemmas on them that every
  component uses. A Go string is a \<^typ>\<open>string\<close>, one \<^typ>\<open>char\<close> per byte, ordered bytewise as
  Go's \<open><\<close> and SQLite's BINARY collation order it.
\<close>

named_theorems go_simps \<open>rewrite rules for the Go primitives\<close>
named_theorems table_simps \<open>rewrite rules for keyed tables\<close>

section \<open>Results\<close>

text \<open>A Go function returning \<open>(value, error)\<close> returns \<open>Inl\<close> the error or \<open>Inr\<close> the value.\<close>

type_synonym ('e, 'a) result = "'e + 'a"

definition result_bind :: "('e, 'a) result \<Rightarrow> ('a \<Rightarrow> ('e, 'b) result) \<Rightarrow> ('e, 'b) result" where
  "result_bind r f = (case r of Inl e \<Rightarrow> Inl e | Inr a \<Rightarrow> f a)"

definition is_ok :: "('e, 'a) result \<Rightarrow> bool" where
  "is_ok r = (case r of Inl _ \<Rightarrow> False | Inr _ \<Rightarrow> True)"

section \<open>Machine integers\<close>

text \<open>An \<open>int64\<close> is an \<^typ>\<open>int\<close>; where the source computes, \<open>wrap64\<close> reduces the result to
  two's complement.\<close>

abbreviation (input) MaxInt64 :: int where
  "MaxInt64 \<equiv> 9223372036854775807"

abbreviation (input) MinInt64 :: int where
  "MinInt64 \<equiv> -9223372036854775808"

definition in_int64 :: "int \<Rightarrow> bool" where
  "in_int64 x \<longleftrightarrow> MinInt64 \<le> x \<and> x \<le> MaxInt64"

definition wrap64 :: "int \<Rightarrow> int" where
  "wrap64 x = (x + 9223372036854775808) mod 18446744073709551616 - 9223372036854775808"

section \<open>Three-way comparison\<close>

text \<open>\<open>cmp.Compare\<close> and \<open>strings.Compare\<close>.\<close>

definition cmp_compare :: "'a::linorder \<Rightarrow> 'a \<Rightarrow> int" where
  "cmp_compare a b = (if a < b then -1 else if b < a then 1 else 0)"

section \<open>Strings\<close>

definition HasPrefix :: "string \<Rightarrow> string \<Rightarrow> bool" where
  "HasPrefix s p = prefix p s"

definition HasSuffix :: "string \<Rightarrow> string \<Rightarrow> bool" where
  "HasSuffix s p = suffix p s"

definition TrimPrefix :: "string \<Rightarrow> string \<Rightarrow> string" where
  "TrimPrefix s p = (if HasPrefix s p then drop (length p) s else s)"

definition TrimSuffix :: "string \<Rightarrow> string \<Rightarrow> string" where
  "TrimSuffix s p = (if HasSuffix s p then take (length s - length p) s else s)"

text \<open>\<open>strings.CutPrefix\<close>: \<open>None\<close> when the prefix is absent.\<close>

definition CutPrefix :: "string \<Rightarrow> string \<Rightarrow> string option" where
  "CutPrefix s p = (if HasPrefix s p then Some (drop (length p) s) else None)"

text \<open>\<open>strings.Split\<close> and \<open>strings.Cut\<close> with a one-byte separator; \<open>Cut\<close> is \<open>None\<close> when the
  separator does not occur.\<close>

fun Split :: "string \<Rightarrow> char \<Rightarrow> string list" where
  "Split [] c = [[]]"
| "Split (x # xs) c =
     (if x = c then [] # Split xs c
      else (case Split xs c of [] \<Rightarrow> [[x]] | p # ps \<Rightarrow> (x # p) # ps))"

definition Cut :: "string \<Rightarrow> char \<Rightarrow> (string \<times> string) option" where
  "Cut s c = (if c \<in> set s then Some (takeWhile (\<lambda>x. x \<noteq> c) s, tl (dropWhile (\<lambda>x. x \<noteq> c) s))
              else None)"

fun Join :: "string list \<Rightarrow> string \<Rightarrow> string" where
  "Join [] sep = []"
| "Join [p] sep = p"
| "Join (p # q # ps) sep = p @ sep @ Join (q # ps) sep"

text \<open>The UTF-8 encodings of the code points \<open>unicode.IsSpace\<close> accepts, and \<open>strings.TrimSpace\<close>.\<close>

definition go_spaces :: "string list" where
  "go_spaces = [[CHR 0x09], [CHR 0x0A], [CHR 0x0B], [CHR 0x0C], [CHR 0x0D], [CHR 0x20],
     [CHR 0xC2, CHR 0x85], [CHR 0xC2, CHR 0xA0], [CHR 0xE1, CHR 0x9A, CHR 0x80],
     [CHR 0xE2, CHR 0x80, CHR 0x80], [CHR 0xE2, CHR 0x80, CHR 0x81],
     [CHR 0xE2, CHR 0x80, CHR 0x82], [CHR 0xE2, CHR 0x80, CHR 0x83],
     [CHR 0xE2, CHR 0x80, CHR 0x84], [CHR 0xE2, CHR 0x80, CHR 0x85],
     [CHR 0xE2, CHR 0x80, CHR 0x86], [CHR 0xE2, CHR 0x80, CHR 0x87],
     [CHR 0xE2, CHR 0x80, CHR 0x88], [CHR 0xE2, CHR 0x80, CHR 0x89],
     [CHR 0xE2, CHR 0x80, CHR 0x8A], [CHR 0xE2, CHR 0x80, CHR 0xA8],
     [CHR 0xE2, CHR 0x80, CHR 0xA9], [CHR 0xE2, CHR 0x80, CHR 0xAF],
     [CHR 0xE2, CHR 0x81, CHR 0x9F], [CHR 0xE3, CHR 0x80, CHR 0x80]]"

fun strip_front :: "nat \<Rightarrow> string list \<Rightarrow> string \<Rightarrow> string" where
  "strip_front 0 sps s = s"
| "strip_front (Suc n) sps s =
     (case find (\<lambda>sp. prefix sp s) sps of
        None \<Rightarrow> s
      | Some sp \<Rightarrow> strip_front n sps (drop (length sp) s))"

definition TrimSpace :: "string \<Rightarrow> string" where
  "TrimSpace s =
     (let l = strip_front (length s) go_spaces s
      in rev (strip_front (length l) (map rev go_spaces) (rev l)))"

definition TrimChar :: "char \<Rightarrow> string \<Rightarrow> string" where
  "TrimChar c s = rev (dropWhile (\<lambda>x. x = c) (rev (dropWhile (\<lambda>x. x = c) s)))"

definition TrimRightChar :: "char \<Rightarrow> string \<Rightarrow> string" where
  "TrimRightChar c s = rev (dropWhile (\<lambda>x. x = c) (rev s))"

text \<open>Letter case: the bytes A to Z. Every use in the sources compares the result with an ASCII
  constant or a hexadecimal digest.\<close>

definition lower_char :: "char \<Rightarrow> char" where
  "lower_char c = (let n = (of_char c :: nat) in if 65 \<le> n \<and> n \<le> 90 then char_of (n + 32) else c)"

definition ToLower :: "string \<Rightarrow> string" where
  "ToLower s = map lower_char s"

text \<open>\<open>strings.EqualFold\<close> against an ASCII string: beside the letters' cases, the Kelvin sign
  (E2 84 AA) folds to k and the long s (C5 BF) to s.\<close>

fun fold_ascii :: "string \<Rightarrow> string" where
  "fold_ascii (a # b # c # s) =
     (if [a, b, c] = [CHR 0xE2, CHR 0x84, CHR 0xAA] then CHR ''k'' # fold_ascii s
      else if [a, b] = [CHR 0xC5, CHR 0xBF] then CHR ''s'' # fold_ascii (c # s)
      else lower_char a # fold_ascii (b # c # s))"
| "fold_ascii [a, b] =
     (if [a, b] = [CHR 0xC5, CHR 0xBF] then ''s'' else [lower_char a, lower_char b])"
| "fold_ascii [a] = [lower_char a]"
| "fold_ascii [] = []"

definition EqualFold :: "string \<Rightarrow> string \<Rightarrow> bool" where
  "EqualFold s t \<longleftrightarrow> fold_ascii s = fold_ascii t"

text \<open>\<open>utf8.ValidString\<close>, as a run over the bytes: the first argument holds the ranges the
  continuation bytes of the current code point must lie in.\<close>

definition utf8_lead :: "nat \<Rightarrow> (nat \<times> nat) list option" where
  "utf8_lead a =
     (if a < 0x80 then Some []
      else if 0xC2 \<le> a \<and> a \<le> 0xDF then Some [(0x80, 0xBF)]
      else if a = 0xE0 then Some [(0xA0, 0xBF), (0x80, 0xBF)]
      else if a = 0xED then Some [(0x80, 0x9F), (0x80, 0xBF)]
      else if 0xE1 \<le> a \<and> a \<le> 0xEF then Some [(0x80, 0xBF), (0x80, 0xBF)]
      else if a = 0xF0 then Some [(0x90, 0xBF), (0x80, 0xBF), (0x80, 0xBF)]
      else if 0xF1 \<le> a \<and> a \<le> 0xF3 then Some [(0x80, 0xBF), (0x80, 0xBF), (0x80, 0xBF)]
      else if a = 0xF4 then Some [(0x80, 0x8F), (0x80, 0xBF), (0x80, 0xBF)]
      else None)"

fun utf8_run :: "(nat \<times> nat) list \<Rightarrow> string \<Rightarrow> bool" where
  "utf8_run [] [] = True"
| "utf8_run (r # rs) [] = False"
| "utf8_run [] (a # s) = (case utf8_lead (of_char a) of None \<Rightarrow> False | Some rs \<Rightarrow> utf8_run rs s)"
| "utf8_run (r # rs) (a # s) = (fst r \<le> (of_char a :: nat) \<and> (of_char a :: nat) \<le> snd r \<and> utf8_run rs s)"

definition utf8_valid :: "string \<Rightarrow> bool" where
  "utf8_valid s = utf8_run [] s"

section \<open>Decimal numbers\<close>

definition is_digit :: "char \<Rightarrow> bool" where
  "is_digit c \<longleftrightarrow> 48 \<le> (of_char c :: nat) \<and> (of_char c :: nat) \<le> 57"

definition digit_val :: "char \<Rightarrow> nat" where
  "digit_val c = of_char c - 48"

definition dec_value :: "string \<Rightarrow> nat" where
  "dec_value s = foldl (\<lambda>n c. 10 * n + digit_val c) 0 s"

fun FormatNat :: "nat \<Rightarrow> string" where
  "FormatNat n = (if n < 10 then [char_of (48 + n)] else FormatNat (n div 10) @ [char_of (48 + n mod 10)])"

declare FormatNat.simps [simp del]

definition FormatInt :: "int \<Rightarrow> string" where
  "FormatInt i = (if i < 0 then CHR ''-'' # FormatNat (nat (- i)) else FormatNat (nat i))"

text \<open>\<open>strconv.ParseInt(s, 10, 64)\<close>; \<open>None\<close> stands for a syntax or range error.\<close>

definition ParseUdec :: "string \<Rightarrow> int option" where
  "ParseUdec s = (if s \<noteq> [] \<and> list_all is_digit s then Some (int (dec_value s)) else None)"

definition ParseInt :: "string \<Rightarrow> int option" where
  "ParseInt s =
     (case s of
        [] \<Rightarrow> None
      | c # r \<Rightarrow>
          (let v = (if c = CHR ''-'' then map_option uminus (ParseUdec r)
                    else if c = CHR ''+'' then ParseUdec r
                    else ParseUdec s)
           in (case v of None \<Rightarrow> None | Some n \<Rightarrow> if in_int64 n then Some n else None)))"

definition is_lower_hex :: "char \<Rightarrow> bool" where
  "is_lower_hex c \<longleftrightarrow> is_digit c \<or> (97 \<le> (of_char c :: nat) \<and> (of_char c :: nat) \<le> 102)"

text \<open>Lower-case hexadecimal, as \<open>encoding/hex\<close> writes it.\<close>

definition hex_digit :: "nat \<Rightarrow> char" where
  "hex_digit n = (if n < 10 then char_of (48 + n) else char_of (87 + n))"

definition hex_lower :: "string \<Rightarrow> string" where
  "hex_lower s = concat (map (\<lambda>c. [hex_digit (of_char c div 16), hex_digit (of_char c mod 16)]) s)"

text \<open>Percent-encoding digits, as \<open>net/url\<close> writes and reads them.\<close>

definition upper_hex :: "nat \<Rightarrow> char" where
  "upper_hex n = (if n < 10 then char_of (48 + n) else char_of (55 + n))"

definition unhex :: "char \<Rightarrow> nat option" where
  "unhex c =
     (let n = (of_char c :: nat)
      in if 48 \<le> n \<and> n \<le> 57 then Some (n - 48)
         else if 97 \<le> n \<and> n \<le> 102 then Some (n - 87)
         else if 65 \<le> n \<and> n \<le> 70 then Some (n - 55) else None)"

text \<open>\<open>time.Time.Sub\<close> on times in nanoseconds: the difference saturates at the bounds of \<open>int64\<close>.\<close>

definition time_Sub :: "int \<Rightarrow> int \<Rightarrow> int" where
  "time_Sub t u = max MinInt64 (min MaxInt64 (t - u))"

section \<open>SQL\<close>

text \<open>\<open>ORDER BY key ASC LIMIT n\<close>: SQLite reads a negative limit as no limit.\<close>

definition sql_limit :: "int \<Rightarrow> 'a list \<Rightarrow> 'a list" where
  "sql_limit n xs = (if n < 0 then xs else take (nat n) xs)"

definition order_limit :: "('a \<Rightarrow> 'k::linorder) \<Rightarrow> int \<Rightarrow> 'a list \<Rightarrow> 'a list" where
  "order_limit key n xs = sql_limit n (sort_key key xs)"

text \<open>\<open>LIKE\<close>: a percent sign matches any run of bytes, an underscore any byte, and ASCII letters
  match in either case.\<close>

fun sql_like :: "string \<Rightarrow> string \<Rightarrow> bool" where
  "sql_like [] s = (s = [])"
| "sql_like (p # ps) [] = (p = CHR ''%'' \<and> sql_like ps [])"
| "sql_like (p # ps) (x # xs) =
     (if p = CHR ''%'' then sql_like ps (x # xs) \<or> sql_like (p # ps) xs
      else (p = CHR ''_'' \<or> lower_char p = lower_char x) \<and> sql_like ps xs)"

text \<open>A table is the list of its rows; its primary key is a function of the row. \<open>row_of\<close> reads
  the row with a key, \<open>upsert\<close> is \<open>INSERT ... ON CONFLICT(key) DO UPDATE\<close>, \<open>delete_key\<close> is
  \<open>DELETE ... WHERE key = ?\<close>.\<close>

definition row_of :: "('r \<Rightarrow> 'k) \<Rightarrow> 'r list \<Rightarrow> 'k \<Rightarrow> 'r option" where
  "row_of key t k = find (\<lambda>r. key r = k) t"

fun upsert :: "('r \<Rightarrow> 'k) \<Rightarrow> 'r \<Rightarrow> 'r list \<Rightarrow> 'r list" where
  "upsert key r [] = [r]"
| "upsert key r (x # xs) = (if key x = key r then r # xs else x # upsert key r xs)"

definition delete_key :: "('r \<Rightarrow> 'k) \<Rightarrow> 'k \<Rightarrow> 'r list \<Rightarrow> 'r list" where
  "delete_key key k t = filter (\<lambda>r. key r \<noteq> k) t"

definition keyed :: "('r \<Rightarrow> 'k) \<Rightarrow> 'r list \<Rightarrow> bool" where
  "keyed key t \<longleftrightarrow> distinct (map key t)"


text \<open>Reading a table page by page: each page starts after the key of the last row read.\<close>

fun scan_pages :: "nat \<Rightarrow> ('k \<Rightarrow> 'r list) \<Rightarrow> ('r \<Rightarrow> 'k) \<Rightarrow> 'k \<Rightarrow> 'r list" where
  "scan_pages 0 page key after = []"
| "scan_pages (Suc n) page key after =
     (let rs = page after in if rs = [] then [] else rs @ scan_pages n page key (key (last rs)))"

definition rows_or_nil :: "('e, 'r list) result \<Rightarrow> 'r list" where
  "rows_or_nil r = (case r of Inl _ \<Rightarrow> [] | Inr rs \<Rightarrow> rs)"

section \<open>JSON\<close>

text \<open>\<open>json.Marshal\<close> of a string that is valid UTF-8: quotation mark, backslash and control
  characters are escaped, as are the HTML characters and the line separators U+2028, U+2029.\<close>

definition json_char :: "char \<Rightarrow> string" where
  "json_char c =
     (let n = (of_char c :: nat)
      in if c = CHR 0x22 then [CHR 0x5C, CHR 0x22]
         else if c = CHR 0x5C then [CHR 0x5C, CHR 0x5C]
         else if n = 8 then [CHR 0x5C, CHR ''b'']
         else if n = 12 then [CHR 0x5C, CHR ''f'']
         else if n = 10 then [CHR 0x5C, CHR ''n'']
         else if n = 13 then [CHR 0x5C, CHR ''r'']
         else if n = 9 then [CHR 0x5C, CHR ''t'']
         else if n < 32 \<or> c = CHR ''<'' \<or> c = CHR ''>'' \<or> c = CHR ''&''
         then CHR 0x5C # ''u00'' @ [hex_digit (n div 16), hex_digit (n mod 16)]
         else [c])"

fun json_escape :: "string \<Rightarrow> string" where
  "json_escape [] = []"
| "json_escape (c # s) =
     (case s of
        a # b # r \<Rightarrow>
          if c = CHR 0xE2 \<and> a = CHR 0x80 \<and> (b = CHR 0xA8 \<or> b = CHR 0xA9)
          then (CHR 0x5C # ''u202'' @ (if b = CHR 0xA8 then ''8'' else ''9'')) @ json_escape r
          else json_char c @ json_escape s
      | _ \<Rightarrow> json_char c @ json_escape s)"

definition json_string :: "string \<Rightarrow> string" where
  "json_string s = CHR 0x22 # json_escape s @ [CHR 0x22]"

section \<open>Lemmas on the Go primitives\<close>

lemma wrap64_id [go_simps]: "in_int64 x \<Longrightarrow> wrap64 x = x"
  by (simp add: wrap64_def in_int64_def)

lemma in_int64_wrap64: "in_int64 (wrap64 x)"
  using pos_mod_bound [of 18446744073709551616 "x + 9223372036854775808"]
    pos_mod_sign [of 18446744073709551616 "x + 9223372036854775808"]
  by (simp add: wrap64_def in_int64_def del: pos_mod_bound pos_mod_sign)

lemma cmp_compare_zero [simp]: "cmp_compare a b = 0 \<longleftrightarrow> a = b"
  by (auto simp: cmp_compare_def)

lemma cmp_compare_pos [simp]: "0 < cmp_compare a b \<longleftrightarrow> b < a"
  by (auto simp: cmp_compare_def)

lemma cmp_compare_neg [simp]: "cmp_compare a b < 0 \<longleftrightarrow> a < b"
  by (auto simp: cmp_compare_def)

lemma cmp_compare_le [simp]: "cmp_compare a b \<le> 0 \<longleftrightarrow> a \<le> b"
  by (auto simp: cmp_compare_def)

lemma cmp_compare_swap: "cmp_compare b a = - cmp_compare a b"
  by (auto simp: cmp_compare_def)

lemma cmp_compare_pair:
  "cmp_compare (a, b) (c, d) = (if cmp_compare a c \<noteq> 0 then cmp_compare a c else cmp_compare b d)"
  by (auto simp: cmp_compare_def less_prod_def)

lemma cmp_compare_mono:
  assumes "\<And>x y. f x < f y \<longleftrightarrow> x < y"
  shows "cmp_compare (f x) (f y) = cmp_compare x y"
  using assms by (simp add: cmp_compare_def)

lemma is_ok_simps [simp]: "is_ok (Inr a)" "\<not> is_ok (Inl e)"
  by (simp_all add: is_ok_def)

lemma unhex_upper_hex: "n < 16 \<Longrightarrow> unhex (upper_hex n) = Some n"
  by (auto simp: unhex_def upper_hex_def Let_def)

lemma of_char_digit: "(of_char c :: nat) div 16 < 16"
proof -
  have "(of_char c :: nat) mod 256 < 256" by simp
  then have "(of_char c :: nat) < 256" by (simp only: of_char_mod_256)
  then show ?thesis by (simp add: less_mult_imp_div_less)
qed

lemma result_bind_simps [simp]:
  "result_bind (Inl e) f = Inl e" "result_bind (Inr a) f = f a"
  by (simp_all add: result_bind_def)

lemma result_bind_Inr: "result_bind r f = Inr b \<longleftrightarrow> (\<exists>a. r = Inr a \<and> f a = Inr b)"
  by (cases r) auto

subsection \<open>Splitting and joining\<close>

lemma Split_nonempty [simp]: "Split s c \<noteq> []"
  by (induction s) (auto split: list.splits)

lemma Join_Cons: "ps \<noteq> [] \<Longrightarrow> Join (p # ps) sep = p @ sep @ Join ps sep"
  by (cases ps) auto

lemma Join_Split: "Join (Split s c) [c] = s"
proof (induction s)
  case (Cons x xs)
  obtain p ps where "Split xs c = p # ps" by (cases "Split xs c") auto
  with Cons show ?case by (cases ps) auto
qed simp

lemma Split_parts: "p \<in> set (Split s c) \<Longrightarrow> c \<notin> set p"
proof (induction s arbitrary: p)
  case (Cons x xs)
  then show ?case by (cases "Split xs c") (auto split: if_splits)
qed simp

lemma Split_single: "c \<notin> set p \<Longrightarrow> Split p c = [p]"
  by (induction p) auto

lemma Split_append: "c \<notin> set p \<Longrightarrow> Split (p @ c # s) c = p # Split s c"
  by (induction p) auto

lemma Split_Join:
  "ps \<noteq> [] \<Longrightarrow> (\<forall>p \<in> set ps. c \<notin> set p) \<Longrightarrow> Split (Join ps [c]) c = ps"
proof (induction ps rule: list_nonempty_induct)
  case (cons p ps)
  then show ?case by (simp add: Join_Cons Split_append)
qed (simp add: Split_single)

lemma Cut_Some: "Cut s c = Some (a, b) \<longleftrightarrow> s = a @ c # b \<and> c \<notin> set a"
proof
  assume cut: "Cut s c = Some (a, b)"
  then have c: "c \<in> set s" and a: "a = takeWhile (\<lambda>x. x \<noteq> c) s"
    and b: "b = tl (dropWhile (\<lambda>x. x \<noteq> c) s)"
    by (auto simp: Cut_def split: if_splits)
  have "dropWhile (\<lambda>x. x \<noteq> c) s \<noteq> []" using c by (simp add: dropWhile_eq_Nil_conv)
  moreover from this have "hd (dropWhile (\<lambda>x. x \<noteq> c) s) = c"
    using hd_dropWhile [of "\<lambda>x. x \<noteq> c" s] by simp
  ultimately have "dropWhile (\<lambda>x. x \<noteq> c) s = c # b" using b by (metis list.collapse)
  then show "s = a @ c # b \<and> c \<notin> set a"
    using takeWhile_dropWhile_id [of "\<lambda>x. x \<noteq> c" s] a by (auto dest: set_takeWhileD)
next
  assume "s = a @ c # b \<and> c \<notin> set a"
  then show "Cut s c = Some (a, b)"
    by (auto simp: Cut_def takeWhile_append dropWhile_append)
qed

lemma Cut_None: "Cut s c = None \<longleftrightarrow> c \<notin> set s"
  by (simp add: Cut_def)

subsection \<open>Decimal numbers\<close>

lemma dec_value_snoc: "dec_value (s @ [c]) = 10 * dec_value s + digit_val c"
  by (simp add: dec_value_def)

lemma dec_value_append: "dec_value (s @ t) = dec_value s * 10 ^ length t + dec_value t"
proof (induction t rule: rev_induct)
  case (snoc c t)
  have "dec_value (s @ t @ [c]) = 10 * dec_value (s @ t) + digit_val c"
    using dec_value_snoc [of "s @ t" c] by simp
  with snoc show ?case by (simp add: dec_value_snoc algebra_simps)
qed (simp add: dec_value_def)

lemma dec_value_Nil [simp]: "dec_value [] = 0"
  by (simp add: dec_value_def)

lemma dec_value_Cons: "dec_value (c # s) = digit_val c * 10 ^ length s + dec_value s"
  using dec_value_append [of "[c]" s] by (simp add: dec_value_def)

lemma digit_val_less: "is_digit c \<Longrightarrow> digit_val c < 10"
  by (auto simp: is_digit_def digit_val_def)

lemma digit_val_le_9: "is_digit c \<Longrightarrow> digit_val c \<le> 9"
  using digit_val_less by fastforce

lemma dec_value_bound: "list_all is_digit s \<Longrightarrow> dec_value s < 10 ^ length s"
proof (induction s)
  case (Cons c s)
  then have "digit_val c * 10 ^ length s \<le> 9 * 10 ^ length s"
    by (intro mult_right_mono) (auto dest: digit_val_le_9)
  moreover from Cons have "dec_value s < 10 ^ length s" by simp
  ultimately have "digit_val c * 10 ^ length s + dec_value s < 10 * 10 ^ length s" by linarith
  then show ?case by (simp add: dec_value_Cons)
qed simp

lemma char_of_digit [simp]:
  "n < 10 \<Longrightarrow> is_digit (char_of (48 + n))"
  "n < 10 \<Longrightarrow> digit_val (char_of (48 + n)) = n"
  by (auto simp: is_digit_def digit_val_def)

lemma digit_less_iff: "is_digit c \<Longrightarrow> is_digit d \<Longrightarrow> c < d \<longleftrightarrow> digit_val c < digit_val d"
  by (auto simp: is_digit_def digit_val_def less_char_def)

lemma digit_val_inj: "is_digit c \<Longrightarrow> is_digit d \<Longrightarrow> digit_val c = digit_val d \<Longrightarrow> c = d"
  by (metis digit_less_iff less_irrefl linorder_neqE)

lemma digit_literals [simp]:
  "is_digit CHR ''0''" "is_digit CHR ''1''" "is_digit CHR ''9''"
  "digit_val CHR ''0'' = 0" "digit_val CHR ''1'' = 1" "digit_val CHR ''9'' = 9"
  by (simp_all add: is_digit_def digit_val_def)

lemma digit_chars [simp]:
  "char_of (48::nat) = CHR ''0''" "char_of (49::nat) = CHR ''1''" "char_of (50::nat) = CHR ''2''"
  "char_of (51::nat) = CHR ''3''" "char_of (52::nat) = CHR ''4''" "char_of (53::nat) = CHR ''5''"
  "char_of (54::nat) = CHR ''6''" "char_of (55::nat) = CHR ''7''" "char_of (56::nat) = CHR ''8''"
  "char_of (57::nat) = CHR ''9''"
  by (simp_all add: char_of_def bit_0)

lemma FormatNat_digits: "list_all is_digit (FormatNat n)"
proof (induction n rule: less_induct)
  case (less n)
  then show ?case by (cases "n < 10") (subst FormatNat.simps, simp)+
qed

lemma dec_value_FormatNat [simp]: "dec_value (FormatNat n) = n"
proof (induction n rule: less_induct)
  case (less n)
  show ?case
  proof (cases "n < 10")
    case True
    then show ?thesis by (subst FormatNat.simps) (simp add: dec_value_Cons)
  next
    case False
    then have "n div 10 < n" by simp
    from less [OF this] False show ?thesis
      by (subst FormatNat.simps) (simp add: dec_value_append dec_value_Cons)
  qed
qed

lemma FormatNat_nonempty [simp]: "FormatNat n \<noteq> []"
  by (subst FormatNat.simps) simp

lemma hex_digit_lower: "n < 16 \<Longrightarrow> is_lower_hex (hex_digit n)"
  by (auto simp: is_lower_hex_def hex_digit_def is_digit_def of_char_of)

lemma digit_not_sign: "is_digit c \<Longrightarrow> c \<noteq> CHR ''-'' \<and> c \<noteq> CHR ''+''"
  by (auto simp: is_digit_def)

lemma ParseInt_digits:
  assumes "list_all is_digit s" "s \<noteq> []" "in_int64 (int (dec_value s))"
  shows "ParseInt s = Some (int (dec_value s))"
  using assms digit_not_sign [of "hd s"] by (cases s) (auto simp: ParseInt_def ParseUdec_def)

lemma ParseInt_FormatInt:
  assumes "0 \<le> n" "in_int64 n"
  shows "ParseInt (FormatInt n) = Some n"
  using ParseInt_digits [OF FormatNat_digits, of "nat n"] assms by (simp add: FormatInt_def)

text \<open>Digit strings of one length compare like the numbers they denote; so do canonical ones
  of different lengths.\<close>

lemma dec_less_same_length:
  "length s = length t \<Longrightarrow> list_all is_digit s \<Longrightarrow> list_all is_digit t \<Longrightarrow>
   s < t \<longleftrightarrow> dec_value s < dec_value t"
proof (induction s t rule: list_induct2)
  case (Cons c s d t)
  have bs: "dec_value s < 10 ^ length t" and bt: "dec_value t < 10 ^ length t"
    using Cons dec_value_bound [of s] dec_value_bound [of t] by auto
  have split: "a * k + x < b * k + y \<longleftrightarrow> a < b \<or> a = b \<and> x < y"
    if "x < k" "y < k" for a b k x y :: nat
  proof -
    have "a * k + x < b * k + y" if "a < b"
    proof -
      from that have "(a + 1) * k \<le> b * k" by (intro mult_right_mono) auto
      with \<open>x < k\<close> show ?thesis by simp
    qed
    moreover have "b * k + y < a * k + x" if "b < a"
    proof -
      from that have "(b + 1) * k \<le> a * k" by (intro mult_right_mono) auto
      with \<open>y < k\<close> show ?thesis by simp
    qed
    ultimately show ?thesis by (cases a b rule: linorder_cases) auto
  qed
  have "c < d \<longleftrightarrow> digit_val c < digit_val d" "c = d \<longleftrightarrow> digit_val c = digit_val d"
    using Cons.prems digit_less_iff digit_val_inj by auto
  then show ?case
    using Cons split [OF bs bt] by (simp add: dec_value_Cons)
qed simp

lemma dec_less_shorter:
  assumes "length s < length t" "list_all is_digit s" "list_all is_digit t" "hd t \<noteq> CHR ''0''"
  shows "dec_value s < dec_value t"
proof -
  obtain c r where t: "t = c # r" using assms by (cases t) auto
  have "digit_val c \<noteq> 0"
    using assms t digit_val_inj [of c "CHR ''0''"] by (auto simp: is_digit_def digit_val_def)
  then have "1 * 10 ^ length r \<le> digit_val c * 10 ^ length r" by (intro mult_right_mono) auto
  then have "10 ^ length r \<le> dec_value t" unfolding t dec_value_Cons by linarith
  moreover have "dec_value s < 10 ^ length s" using assms dec_value_bound by blast
  moreover have "(10::nat) ^ length s \<le> 10 ^ length r"
    using assms t by (intro power_increasing) auto
  ultimately show ?thesis by linarith
qed

subsection \<open>Keeping the greatest element\<close>

definition pick_by :: "('a \<Rightarrow> 'k::linorder) \<Rightarrow> 'a \<Rightarrow> 'a \<Rightarrow> 'a" where
  "pick_by key x y = (if key x < key y then y else x)"

lemma foldl_pick_mem: "foldl (pick_by key) a bs \<in> insert a (set bs)"
proof (induction bs arbitrary: a)
  case (Cons x bs)
  have "pick_by key a x \<in> {a, x}" by (simp add: pick_by_def)
  then show ?case using Cons [of "pick_by key a x"] by auto
qed simp

lemma foldl_pick_ge: "b \<in> insert a (set bs) \<Longrightarrow> key b \<le> key (foldl (pick_by key) a bs)"
proof (induction bs arbitrary: a b)
  case (Cons x bs)
  have "key (pick_by key a x) \<le> key (foldl (pick_by key) (pick_by key a x) bs)"
    using Cons.IH by blast
  moreover have "key a \<le> key (pick_by key a x)" "key x \<le> key (pick_by key a x)"
    by (auto simp: pick_by_def)
  ultimately show ?case using Cons by fastforce
qed simp

section \<open>Lemmas on tables\<close>

text \<open>What the store relies on of a keyed table.\<close>

locale keyed_table =
  fixes inv :: "'t \<Rightarrow> bool"
    and get :: "'t \<Rightarrow> 'k \<Rightarrow> 'r option"
    and put :: "'r \<Rightarrow> 't \<Rightarrow> 't"
    and del :: "'k \<Rightarrow> 't \<Rightarrow> 't"
    and key :: "'r \<Rightarrow> 'k"
  assumes inv_put: "inv t \<Longrightarrow> inv (put r t)"
    and inv_del: "inv t \<Longrightarrow> inv (del k t)"
    and get_put: "inv t \<Longrightarrow> get (put r t) k = (if k = key r then Some r else get t k)"
    and get_del: "inv t \<Longrightarrow> get (del k t) j = (if j = k then None else get t j)"
    and get_key: "inv t \<Longrightarrow> get t k = Some r \<Longrightarrow> key r = k"
begin

lemma put_put: "inv t \<Longrightarrow> key r = key q \<Longrightarrow> get (put r (put q t)) = get (put r t)"
  by (auto simp: fun_eq_iff get_put inv_put)

lemma put_commute: "inv t \<Longrightarrow> key r \<noteq> key q \<Longrightarrow> get (put r (put q t)) = get (put q (put r t))"
  by (auto simp: fun_eq_iff get_put inv_put)

lemma del_put: "inv t \<Longrightarrow> get (del (key r) (put r t)) = get (del (key r) t)"
  by (auto simp: fun_eq_iff get_put get_del inv_put)

end

lemma set_map_upsert [table_simps]: "key ` set (upsert key r t) = insert (key r) (key ` set t)"
  by (induction t) auto

lemma keyed_upsert: "keyed key t \<Longrightarrow> keyed key (upsert key r t)"
proof (induction t)
  case (Cons x t)
  then show ?case using set_map_upsert [of key r t] by (auto simp: keyed_def)
qed (simp add: keyed_def)

lemma keyed_filter: "keyed key t \<Longrightarrow> keyed key (filter P t)"
  by (simp add: keyed_def distinct_map_filter)

lemma row_of_Nil [simp]: "row_of key [] k = None"
  by (simp add: row_of_def)

lemma row_of_Cons [simp]: "row_of key (x # t) k = (if key x = k then Some x else row_of key t k)"
  by (simp add: row_of_def)

lemma row_of_upsert [table_simps]:
  "row_of key (upsert key r t) k = (if k = key r then Some r else row_of key t k)"
  by (induction t) auto

lemma row_of_None: "row_of key t k = None \<longleftrightarrow> k \<notin> key ` set t"
  by (induction t) auto

lemma row_of_SomeD: "row_of key t k = Some r \<Longrightarrow> r \<in> set t \<and> key r = k"
  by (induction t) (auto split: if_splits)

lemma row_of_Some: "keyed key t \<Longrightarrow> row_of key t k = Some r \<longleftrightarrow> r \<in> set t \<and> key r = k"
  by (induction t) (auto simp: keyed_def)

lemma row_of_delete_key [table_simps]:
  "row_of key (delete_key key k t) j = (if j = k then None else row_of key t j)"
  by (induction t) (auto simp: delete_key_def)

lemma row_of_filter:
  "keyed key t \<Longrightarrow> row_of key (filter P t) k =
     (case row_of key t k of Some r \<Rightarrow> if P r then Some r else None | None \<Rightarrow> None)"
proof (induction t)
  case (Cons x t)
  then have *: "row_of key t (key x) = None" by (auto simp: row_of_None keyed_def)
  from Cons show ?case
    by (auto simp: keyed_def * split: option.splits)
qed simp

lemma keyed_delete_key: "keyed key t \<Longrightarrow> keyed key (delete_key key k t)"
  by (simp add: delete_key_def keyed_filter)

lemma upsert_fresh: "key r \<notin> key ` set t \<Longrightarrow> upsert key r t = t @ [r]"
  by (induction t) auto

lemma set_upsert: "keyed key t \<Longrightarrow> set (upsert key r t) = insert r {x \<in> set t. key x \<noteq> key r}"
  by (induction t) (auto simp: keyed_def image_iff)

lemma in_set_upsert: "r \<in> set (upsert key r t)"
  by (induction t) auto

lemma set_upsert_subset: "set (upsert key r t) \<subseteq> insert r (set t)"
  by (induction t) auto

lemma length_upsert:
  "length (upsert key r t) = (if key r \<in> key ` set t then length t else Suc (length t))"
  by (induction t) auto

interpretation sql_table: keyed_table "keyed key" "row_of key" "upsert key" "delete_key key" key
  for key :: "'r \<Rightarrow> 'k"
  by unfold_locales
    (auto simp: keyed_upsert keyed_delete_key row_of_upsert row_of_delete_key dest: row_of_SomeD)

subsection \<open>Ordered, limited queries\<close>

lemma set_sql_limit: "set (sql_limit n xs) \<subseteq> set xs"
  by (auto simp: sql_limit_def dest: in_set_takeD)

lemma set_order_limit: "set (order_limit key n xs) \<subseteq> set xs"
  using set_sql_limit [of n "sort_key key xs"] by (simp add: order_limit_def)

lemma sorted_order_limit: "sorted (map key (order_limit key n xs))"
  by (auto simp: order_limit_def sql_limit_def take_map [symmetric] intro: sorted_wrt_take)

lemma length_order_limit: "0 \<le> n \<Longrightarrow> int (length (order_limit key n xs)) \<le> n"
  by (simp add: order_limit_def sql_limit_def)

lemma sort_key_filter: "sort_key key (filter P xs) = filter P (sort_key key xs)"
  by (simp add: filter_sort)

lemma strict_sorted_drop:
  fixes key :: "'r \<Rightarrow> 'k::linorder"
  assumes "sorted (map key ys)" "distinct (map key ys)" "0 < k" "ys \<noteq> []"
  shows "filter (\<lambda>r. key (last (take k ys)) < key r) ys = drop k ys"
proof -
  define b where "b = key (last (take k ys))"
  have ne: "take k ys \<noteq> []" using assms(3,4) by simp
  have sp: "ys = take k ys @ drop k ys" by simp
  have srt: "sorted_wrt (<) (map key (take k ys @ drop k ys))"
    using assms strict_sorted_iff [of "map key ys"] by simp
  have "key r \<le> b" if "r \<in> set (take k ys)" for r
  proof -
    obtain zs z where z: "take k ys = zs @ [z]" using ne by (metis append_butlast_last_id)
    then show ?thesis using srt that by (auto simp: b_def sorted_wrt_append)
  qed
  then have a: "filter (\<lambda>r. b < key r) (take k ys) = []" by (auto simp: filter_empty_conv not_less)
  have "b < key r" if "r \<in> set (drop k ys)" for r
    using srt that last_in_set [OF ne] unfolding b_def map_append sorted_wrt_append by auto
  then have d: "filter (\<lambda>r. b < key r) (drop k ys) = drop k ys" by simp
  have "filter (\<lambda>r. b < key r) ys = filter (\<lambda>r. b < key r) (take k ys) @ filter (\<lambda>r. b < key r) (drop k ys)"
    by (metis filter_append sp)
  then show ?thesis using a d by (simp add: b_def)
qed

text \<open>A query that returns the first rows after a key, in key order: reading it page by page
  delivers every row after the start exactly once, in order, whatever the page size.\<close>

locale paged_query =
  fixes inv :: "'s \<Rightarrow> bool"
    and rows :: "'s \<Rightarrow> 'r list"
    and key :: "'r \<Rightarrow> 'k::linorder"
    and page :: "'s \<Rightarrow> int \<Rightarrow> 'k \<Rightarrow> 'r list"
  assumes page_rows: "inv s \<Longrightarrow> 0 < n \<Longrightarrow>
      page s n a = take (nat n) (filter (\<lambda>r. a < key r) (sort_key key (rows s)))"
    and distinct_rows: "inv s \<Longrightarrow> distinct (map key (rows s))"
begin

lemma page_sorted: "inv s \<Longrightarrow> 0 < n \<Longrightarrow> sorted (map key (page s n a))"
  by (simp add: page_rows take_map [symmetric] sorted_filter sorted_wrt_take)

text \<open>A page that is not empty starts with the first remaining row, and the rows beyond its last one
  are the remaining rows without it.\<close>

lemma page_next:
  assumes "inv s" "0 < n" "page s n a \<noteq> []"
  shows "filter (\<lambda>r. key (last (page s n a)) < key r) (sort_key key (rows s)) =
      drop (nat n) (filter (\<lambda>r. a < key r) (sort_key key (rows s)))"
    "a < key (last (page s n a))"
proof -
  define ys where "ys = filter (\<lambda>r. a < key r) (sort_key key (rows s))"
  have p: "page s n a = take (nat n) ys" using assms by (simp add: page_rows ys_def)
  have "sorted (map key ys)" by (simp add: ys_def sorted_filter)
  moreover have "distinct (map key ys)"
    using distinct_rows [OF assms(1)] unfolding ys_def
    by (intro distinct_map_filter) (simp add: distinct_map)
  ultimately have d: "filter (\<lambda>r. key (last (page s n a)) < key r) ys = drop (nat n) ys"
    using strict_sorted_drop [of key ys "nat n"] assms(2,3) p by simp
  show ab: "a < key (last (page s n a))"
    using in_set_takeD [OF last_in_set [OF assms(3) [unfolded p]]] p by (simp add: ys_def)
  then have "filter (\<lambda>r. key (last (page s n a)) < key r) (sort_key key (rows s)) =
      filter (\<lambda>r. key (last (page s n a)) < key r) ys"
    unfolding ys_def filter_filter by (intro filter_cong) auto
  then show "filter (\<lambda>r. key (last (page s n a)) < key r) (sort_key key (rows s)) =
      drop (nat n) (filter (\<lambda>r. a < key r) (sort_key key (rows s)))"
    using d by (simp add: ys_def)
qed

lemma page_or_beyond:
  assumes "inv s" "0 < n" "page s n a \<noteq> []" "r \<in> set (rows s)" "a < key r"
  shows "r \<in> set (page s n a) \<or> key (last (page s n a)) < key r"
proof -
  let ?ys = "filter (\<lambda>r. a < key r) (sort_key key (rows s))"
  have "r \<in> set ?ys" using assms(4,5) by simp
  then have "r \<in> set (take (nat n) ?ys) \<or> r \<in> set (drop (nat n) ?ys)" by (metis append_take_drop_id set_append Un_iff)
  then have "r \<in> set (page s n a) \<or> r \<in> set (drop (nat n) ?ys)" by (simp only: page_rows [OF assms(1,2)])
  then show ?thesis unfolding page_next(1) [OF assms(1-3), symmetric] by auto
qed

lemma page_strict: "inv s \<Longrightarrow> 0 < n \<Longrightarrow> sorted_wrt (<) (a # map key (page s n a))"
  using distinct_rows [of s]
  by (auto simp: page_rows take_map [symmetric] strict_sorted_iff sorted_filter distinct_map_filter distinct_map
      intro!: sorted_wrt_take distinct_take intro: inj_on_subset dest!: in_set_takeD)

lemma scan_step:
  assumes "inv s" "length (filter (\<lambda>r. a < key r) (sort_key key (rows s))) \<le> fuel" "0 < n"
  shows "scan_pages fuel (page s n) key a = filter (\<lambda>r. a < key r) (sort_key key (rows s))"
  using assms
proof (induction fuel arbitrary: a)
  case (Suc fuel)
  define ys where "ys = filter (\<lambda>r. a < key r) (sort_key key (rows s))"
  have p: "page s n a = take (nat n) ys" using Suc.prems by (simp add: page_rows ys_def)
  show ?case
  proof (cases "page s n a = []")
    case True
    then show ?thesis using p Suc.prems(3) by (simp add: ys_def)
  next
    case False
    define b where "b = key (last (page s n a))"
    have fb: "filter (\<lambda>r. b < key r) (sort_key key (rows s)) = drop (nat n) ys"
      using page_next(1) [OF Suc.prems(1,3) False] by (simp add: b_def ys_def)
    have "length (drop (nat n) ys) \<le> fuel"
      using Suc.prems(2,3) False by (simp add: ys_def [symmetric] p)
    then have "scan_pages fuel (page s n) key b = drop (nat n) ys"
      using Suc.IH [of b] Suc.prems fb by simp
    then show ?thesis using p False by (simp add: Let_def b_def ys_def [symmetric])
  qed
qed simp

lemma scan_complete:
  assumes "inv s" "length (rows s) \<le> fuel" "0 < n"
  shows "scan_pages fuel (page s n) key a = filter (\<lambda>r. a < key r) (sort_key key (rows s))"
proof -
  have "length (filter (\<lambda>r. a < key r) (sort_key key (rows s))) \<le> fuel"
    using assms(2) length_filter_le [of "\<lambda>r. a < key r" "sort_key key (rows s)"] by simp
  then show ?thesis using scan_step assms by simp
qed

end

end
