(* ===== verification/Clocks.thy ===== *)
theory Clocks
  imports Birak_Prelude
begin

text \<open>
  The replicated state of one name (\<open>FileMeta\<close>, store.go) and its order: the logical clock
  with its decimal extension beyond 64 bits (clock.go), the order of replicated states
  (\<open>CompareState\<close>, store.go), and the pure part of file/directory conflict resolution
  (conflicts.go). The lemmas show that the clock code computes on unbounded integers and that
  the states are linearly pre-ordered by a rank.
\<close>

section \<open>Definitions\<close>

record FileMeta =
  Name :: string
  ModTime :: int
  Size :: int
  Hash :: string
  Deleted :: bool
  Version :: int
  BigClock :: string
  Clock :: int
  SupersededBy :: string
  ConflictOf :: string
  DeletedAt :: int

text \<open>The zero value of the struct.\<close>

definition zero_meta :: FileMeta where
  "zero_meta = \<lparr> Name = [], ModTime = 0, Size = 0, Hash = [], Deleted = False, Version = 0,
     BigClock = [], Clock = 0, SupersededBy = [], ConflictOf = [], DeletedAt = 0 \<rparr>"

definition StateClock :: "FileMeta \<Rightarrow> int" where
  "StateClock f = (if Clock f \<noteq> 0 then Clock f else ModTime f)"

definition compareDecimal :: "string \<Rightarrow> string \<Rightarrow> int" where
  "compareDecimal a b =
     (let c = cmp_compare (length a) (length b) in if c \<noteq> 0 then c else cmp_compare a b)"

datatype clock_error = NonCanonicalClock | InvalidClock | ClockWithinInt64

definition ValidateClock :: "FileMeta \<Rightarrow> (clock_error, unit) result" where
  "ValidateClock f =
     (if BigClock f = [] then Inr ()
      else if Clock f \<noteq> MaxInt64 \<or> length (BigClock f) < 19 \<or> hd (BigClock f) = CHR ''0''
      then Inl NonCanonicalClock
      else if \<not> list_all is_digit (BigClock f) then Inl InvalidClock
      else if compareDecimal (BigClock f) (FormatInt MaxInt64) \<le> 0 then Inl ClockWithinInt64
      else Inr ())"

definition CompareClock :: "FileMeta \<Rightarrow> FileMeta \<Rightarrow> int" where
  "CompareClock a b =
     (if BigClock a \<noteq> [] \<and> BigClock b \<noteq> [] then compareDecimal (BigClock a) (BigClock b)
      else if BigClock a \<noteq> [] then 1
      else if BigClock b \<noteq> [] then -1
      else cmp_compare (StateClock a) (StateClock b))"

text \<open>The carry loop of \<open>AdvanceClock\<close>, on the digits from the last to the first; the flag is the
  carry left when the loop ends. \<open>b[i]++\<close> is byte arithmetic.\<close>

fun carry_loop :: "string \<Rightarrow> string \<times> bool" where
  "carry_loop [] = ([], True)"
| "carry_loop (d # ds) =
     (if d = CHR ''9'' then (let (r, c) = carry_loop ds in (CHR ''0'' # r, c))
      else (char_of ((of_char d + 1) mod 256 :: nat) # ds, False))"

definition increment_digits :: "string \<Rightarrow> string" where
  "increment_digits digits =
     (let (r, carry) = carry_loop (rev digits)
      in if carry then CHR ''1'' # rev r else rev r)"

definition AdvanceClock :: "FileMeta \<Rightarrow> FileMeta option \<Rightarrow> FileMeta" where
  "AdvanceClock f0 previous =
     (let f = (if BigClock f0 = [] then f0\<lparr>Clock := max 1 (max (Clock f0) (ModTime f0))\<rparr> else f0)
      in case previous of
           None \<Rightarrow> f
         | Some p \<Rightarrow>
             if CompareClock f p > 0 then f
             else if BigClock p = [] \<and> StateClock p < MaxInt64
             then f\<lparr>Clock := wrap64 (StateClock p + 1), BigClock := []\<rparr>
             else let digits = (if BigClock p = [] then FormatInt (StateClock p) else BigClock p)
                  in f\<lparr>Clock := MaxInt64, BigClock := increment_digits digits\<rparr>)"

definition live :: "FileMeta \<Rightarrow> bool" where
  "live a \<longleftrightarrow> \<not> Deleted a \<or> SupersededBy a \<noteq> []"

definition CompareState :: "FileMeta option \<Rightarrow> FileMeta option \<Rightarrow> int" where
  "CompareState x y =
     (case (x, y) of
        (None, None) \<Rightarrow> 0
      | (None, Some _) \<Rightarrow> -1
      | (Some _, None) \<Rightarrow> 1
      | (Some a, Some b) \<Rightarrow>
          let c = CompareClock a b
          in if c \<noteq> 0 then c
             else if ModTime a < ModTime b then -1
             else if ModTime a > ModTime b then 1
             else if live a \<noteq> live b then (if \<not> live a then -1 else 1)
             else if \<not> live a then 0
             else let h = cmp_compare (Hash a) (Hash b)
                  in if h \<noteq> 0 then h
                     else let aName = (if SupersededBy a \<noteq> [] then SupersededBy a else Name a);
                              bName = (if SupersededBy b \<noteq> [] then SupersededBy b else Name b)
                          in cmp_compare aName bName)"

definition NamespaceConflict :: "string \<Rightarrow> string \<Rightarrow> bool" where
  "NamespaceConflict a b \<longleftrightarrow> HasPrefix a (b @ ''/'') \<or> HasPrefix b (a @ ''/'')"

definition Superseded :: "string \<Rightarrow> FileMeta \<Rightarrow> FileMeta" where
  "Superseded name winner = zero_meta\<lparr>Name := name, Deleted := True, Clock := StateClock winner,
     BigClock := BigClock winner, ModTime := ModTime winner, Hash := Hash winner,
     SupersededBy := Name winner\<rparr>"

text \<open>\<open>sha256_hex\<close> stands for the hexadecimal SHA-256 digest of a byte string.\<close>

definition ConflictCopyName :: "(string \<Rightarrow> string) \<Rightarrow> string \<Rightarrow> string \<Rightarrow> string" where
  "ConflictCopyName sha256_hex name hash =
     ''birak-conflict-'' @
     sha256_hex (''['' @ json_string name @ '','' @ json_string hash @ '']'')"

definition ConflictCopy :: "(string \<Rightarrow> string) \<Rightarrow> FileMeta \<Rightarrow> FileMeta" where
  "ConflictCopy sha256_hex meta = zero_meta\<lparr>
     Name := ConflictCopyName sha256_hex (Name meta) (Hash meta),
     ModTime := ModTime meta, Clock := StateClock meta, BigClock := BigClock meta,
     Size := Size meta, Hash := Hash meta, ConflictOf := Name meta\<rparr>"

subsection \<open>Specification: clock values and ranks\<close>

text \<open>The digit strings \<open>ValidateClock\<close> admits, and the integer a clock stands for.\<close>

definition canonical :: "string \<Rightarrow> bool" where
  "canonical s \<longleftrightarrow> s \<noteq> [] \<and> list_all is_digit s \<and> hd s \<noteq> CHR ''0''"

definition clock_value :: "FileMeta \<Rightarrow> int" where
  "clock_value f = (if BigClock f = [] then StateClock f else int (dec_value (BigClock f)))"

definition clock_ok :: "FileMeta \<Rightarrow> bool" where
  "clock_ok f \<longleftrightarrow> is_ok (ValidateClock f) \<and> in_int64 (Clock f) \<and> in_int64 (ModTime f)"

text \<open>The clock \<open>AdvanceClock\<close> starts from, before it looks at the previous state.\<close>

definition base_clock :: "FileMeta \<Rightarrow> int" where
  "base_clock f = (if BigClock f = [] then max 1 (max (Clock f) (ModTime f)) else clock_value f)"

text \<open>Keep the newer of the local and an incoming state.\<close>

definition keep_newer :: "('s option \<Rightarrow> 's option \<Rightarrow> int) \<Rightarrow> 's option \<Rightarrow> 's \<Rightarrow> 's option" where
  "keep_newer cmp l r = (if cmp l (Some r) < 0 then Some r else l)"

datatype state_rank = StateRank "(nat \<times> string \<times> int) \<times> int \<times> bool \<times> string \<times> string"

fun rank_tuple :: "state_rank \<Rightarrow> (nat \<times> string \<times> int) \<times> int \<times> bool \<times> string \<times> string" where
  "rank_tuple (StateRank t) = t"

definition clock_rank :: "FileMeta \<Rightarrow> nat \<times> string \<times> int" where
  "clock_rank f =
     (length (BigClock f), BigClock f, if BigClock f = [] then StateClock f else 0)"

definition rank :: "FileMeta \<Rightarrow> state_rank" where
  "rank f = StateRank (clock_rank f, ModTime f, live f,
     if live f then Hash f else [],
     if live f then (if SupersededBy f \<noteq> [] then SupersededBy f else Name f) else [])"

instantiation state_rank :: linorder
begin

definition less_eq_state_rank :: "state_rank \<Rightarrow> state_rank \<Rightarrow> bool" where
  "less_eq_state_rank a b \<longleftrightarrow> rank_tuple a \<le> rank_tuple b"

definition less_state_rank :: "state_rank \<Rightarrow> state_rank \<Rightarrow> bool" where
  "less_state_rank a b \<longleftrightarrow> rank_tuple a < rank_tuple b"

instance
proof
  fix x y z :: state_rank
  show "x < y \<longleftrightarrow> x \<le> y \<and> \<not> y \<le> x"
    by (auto simp: less_state_rank_def less_eq_state_rank_def)
  show "x \<le> x" by (simp add: less_eq_state_rank_def)
  show "x \<le> y \<Longrightarrow> y \<le> z \<Longrightarrow> x \<le> z"
    unfolding less_eq_state_rank_def by (rule order_trans)
  show "x \<le> y \<Longrightarrow> y \<le> x \<Longrightarrow> x = y"
    by (cases x; cases y) (auto simp: less_eq_state_rank_def)
  show "x \<le> y \<or> y \<le> x" unfolding less_eq_state_rank_def by (rule linear)
qed

end


section \<open>Decimal clocks denote integers\<close>

lemma FormatInt_MaxInt64 [simp]: "FormatInt MaxInt64 = ''9223372036854775807''"
  by (simp add: FormatInt_def FormatNat.simps)

lemma dec_value_MaxInt64 [simp]: "dec_value ''9223372036854775807'' = 9223372036854775807"
  by (simp add: dec_value_def digit_val_def)

lemma compareDecimal_value:
  assumes "canonical s" "canonical t"
  shows "compareDecimal s t = cmp_compare (dec_value s) (dec_value t)"
proof (cases "length s" "length t" rule: linorder_cases)
  case less
  then show ?thesis
    using assms dec_less_shorter [of s t] by (auto simp: compareDecimal_def cmp_compare_def canonical_def)
next
  case greater
  then show ?thesis
    using assms dec_less_shorter [of t s] by (auto simp: compareDecimal_def cmp_compare_def canonical_def)
next
  case equal
  then show ?thesis
    using assms dec_less_same_length [of s t] dec_less_same_length [of t s]
    by (auto simp: compareDecimal_def cmp_compare_def canonical_def)
qed

lemma carry_loop_value:
  "list_all is_digit ds \<Longrightarrow> carry_loop ds = (r, c) \<Longrightarrow>
   length r = length ds \<and> list_all is_digit r \<and>
   dec_value (rev r) + (if c then 10 ^ length ds else 0) = dec_value (rev ds) + 1"
proof (induction ds arbitrary: r c)
  case (Cons d ds)
  show ?case
  proof (cases "d = CHR ''9''")
    case True
    then obtain q where "carry_loop ds = (q, c)" "r = CHR ''0'' # q"
      using Cons.prems by (auto split: prod.splits)
    moreover from this Cons have "length q = length ds" "list_all is_digit q"
      "dec_value (rev q) + (if c then 10 ^ length ds else 0) = dec_value (rev ds) + 1" by auto
    ultimately show ?thesis
      using True by (auto simp: dec_value_snoc)
  next
    case False
    then have r: "r = char_of (of_char d + 1 :: nat) # ds" "\<not> c"
      using Cons.prems by (auto simp: is_digit_def)
    have d: "of_char d \<noteq> (57::nat)"
      using False digit_chars(10) by (metis char_of_char)
    show ?thesis using r d Cons.prems
      by (auto simp: dec_value_snoc is_digit_def digit_val_def)
  qed
qed auto

lemma increment_digits_value:
  assumes "canonical s"
  shows "canonical (increment_digits s) \<and> dec_value (increment_digits s) = dec_value s + 1
    \<and> length s \<le> length (increment_digits s)"
proof -
  obtain r c where rc: "carry_loop (rev s) = (r, c)" by fastforce
  have v: "length r = length s" "list_all is_digit r"
    "dec_value (rev r) + (if c then 10 ^ length s else 0) = dec_value s + 1"
    using carry_loop_value [of "rev s" r c] rc assms by (auto simp: canonical_def)
  show ?thesis
  proof (cases c)
    case True
    then show ?thesis using rc v
      by (auto simp: increment_digits_def canonical_def dec_value_Cons is_digit_def digit_val_def)
  next
    case False
    obtain d q where q: "rev r = d # q" using v assms by (cases "rev r") (auto simp: canonical_def)
    have "d \<noteq> CHR ''0''"
    proof
      assume d: "d = CHR ''0''"
      have lq: "length q = length s - 1" using v q by (metis diff_Suc_1 length_Cons length_rev)
      have "list_all is_digit q" using v q by (metis list_all_rev list.pred_inject(2))
      then have "dec_value (rev r) < 10 ^ length q"
        using dec_value_bound [of q] d by (simp add: q dec_value_Cons digit_val_def)
      moreover have "dec_value q < dec_value s"
        by (rule dec_less_shorter)
          (use assms lq \<open>list_all is_digit q\<close> in \<open>auto simp: canonical_def\<close>)
      ultimately show False using v False d by (simp add: q dec_value_Cons digit_val_def)
    qed
    then show ?thesis using rc v q False
      by (auto simp: increment_digits_def canonical_def)
  qed
qed

lemma ValidateClock_big:
  assumes "is_ok (ValidateClock f)" "BigClock f \<noteq> []"
  shows "canonical (BigClock f)" "MaxInt64 < int (dec_value (BigClock f))" "Clock f = MaxInt64"
    "19 \<le> length (BigClock f)"
proof -
  show c: "canonical (BigClock f)"
    using assms by (auto simp: ValidateClock_def canonical_def split: if_splits)
  have "0 < compareDecimal (BigClock f) ''9223372036854775807''"
    using assms by (auto simp: ValidateClock_def split: if_splits)
  moreover have "canonical ''9223372036854775807''" by (simp add: canonical_def is_digit_def)
  ultimately have "dec_value ''9223372036854775807'' < dec_value (BigClock f)"
    using compareDecimal_value [OF c] by simp
  then show "MaxInt64 < int (dec_value (BigClock f))" by simp
  show "Clock f = MaxInt64" "19 \<le> length (BigClock f)"
    using assms by (auto simp: ValidateClock_def split: if_splits)
qed

lemma ValidateClock_intro:
  assumes "canonical (BigClock f)" "MaxInt64 < int (dec_value (BigClock f))" "Clock f = MaxInt64"
    "19 \<le> length (BigClock f)"
  shows "is_ok (ValidateClock f)"
proof -
  have "canonical ''9223372036854775807''" by (simp add: canonical_def is_digit_def)
  then have "0 < compareDecimal (BigClock f) ''9223372036854775807''"
    using assms by (simp add: compareDecimal_value)
  then show ?thesis using assms by (auto simp: ValidateClock_def canonical_def)
qed

lemma StateClock_int64: "clock_ok f \<Longrightarrow> in_int64 (StateClock f)"
  by (simp add: clock_ok_def StateClock_def)

lemma CompareClock_value:
  assumes "clock_ok a" "clock_ok b"
  shows "CompareClock a b = cmp_compare (clock_value a) (clock_value b)"
proof -
  have small: "StateClock a \<le> MaxInt64" "StateClock b \<le> MaxInt64"
    using assms StateClock_int64 by (auto simp: in_int64_def)
  have big: "BigClock f \<noteq> [] \<Longrightarrow> canonical (BigClock f) \<and> MaxInt64 < int (dec_value (BigClock f))"
    if "clock_ok f" for f
    using that ValidateClock_big [of f] by (auto simp: clock_ok_def)
  show ?thesis
    using small big [OF assms(1)] big [OF assms(2)]
    by (auto simp: CompareClock_def clock_value_def compareDecimal_value cmp_compare_def)
qed

section \<open>Advancing a clock\<close>

lemma AdvanceClock_base:
  assumes "clock_ok f"
  shows "clock_ok (AdvanceClock f None)" "clock_value (AdvanceClock f None) = base_clock f"
proof -
  have "clock_ok (AdvanceClock f None) \<and> clock_value (AdvanceClock f None) = base_clock f"
  proof (cases "BigClock f = []")
    case True
    then show ?thesis using assms
      by (auto simp: AdvanceClock_def clock_ok_def ValidateClock_def clock_value_def base_clock_def
          StateClock_def in_int64_def max_def)
  next
    case False
    then show ?thesis using assms by (simp add: AdvanceClock_def base_clock_def)
  qed
  then show "clock_ok (AdvanceClock f None)" "clock_value (AdvanceClock f None) = base_clock f"
    by simp_all
qed

lemma AdvanceClock_base_pos: "clock_ok f \<Longrightarrow> 1 \<le> base_clock f"
  using ValidateClock_big [of f] by (auto simp: base_clock_def clock_ok_def clock_value_def)

lemma AdvanceClock_fields:
  "AdvanceClock f prev = f\<lparr>Clock := Clock (AdvanceClock f prev),
     BigClock := BigClock (AdvanceClock f prev)\<rparr>"
  by (auto simp: AdvanceClock_def Let_def split: option.split)

text \<open>The decimal carry branch: the previous clock is at or beyond the largest 64-bit integer.\<close>

lemma increment_clock:
  assumes "clock_ok p" "MaxInt64 \<le> clock_value p"
    "digits = (if BigClock p = [] then FormatInt (StateClock p) else BigClock p)"
    "BigClock g = increment_digits digits" "Clock g = MaxInt64" "in_int64 (ModTime g)"
  shows "clock_ok g" "clock_value g = clock_value p + 1"
proof -
  have s: "in_int64 (StateClock p)" using assms(1) by (rule StateClock_int64)
  have canon_max: "canonical ''9223372036854775807''" by (simp add: canonical_def is_digit_def)
  have d: "canonical digits \<and> int (dec_value digits) = clock_value p \<and> 19 \<le> length digits"
  proof (cases "BigClock p = []")
    case True
    then have "StateClock p = MaxInt64" using assms(2) s by (simp add: clock_value_def in_int64_def)
    then have "digits = ''9223372036854775807''" "clock_value p = MaxInt64"
      using True assms(3) by (simp_all add: clock_value_def)
    then show ?thesis using canon_max by simp
  next
    case False
    then have "is_ok (ValidateClock p)" using assms(1) by (simp add: clock_ok_def)
    then show ?thesis using False assms(3) ValidateClock_big [of p] by (simp add: clock_value_def)
  qed
  then have i: "canonical (BigClock g)" "int (dec_value (BigClock g)) = clock_value p + 1"
    "19 \<le> length (BigClock g)"
    using increment_digits_value [of digits] assms(4) by auto
  then show "clock_value g = clock_value p + 1"
    by (auto simp: clock_value_def canonical_def)
  have "is_ok (ValidateClock g)"
    by (rule ValidateClock_intro) (use i assms in auto)
  then show "clock_ok g" using assms by (simp add: clock_ok_def in_int64_def)
qed

lemma AdvanceClock_next:
  assumes "clock_ok f" "clock_ok p"
  shows "clock_ok (AdvanceClock f (Some p))"
    and "clock_value (AdvanceClock f (Some p)) = max (base_clock f) (clock_value p + 1)"
proof -
  define b where "b = AdvanceClock f None"
  define g where "g = AdvanceClock f (Some p)"
  have b: "clock_ok b" "clock_value b = base_clock f"
    using AdvanceClock_base [OF assms(1)] by (simp_all add: b_def)
  have cmp: "CompareClock b p = cmp_compare (base_clock f) (clock_value p)"
    using CompareClock_value [OF b(1) assms(2)] b(2) by simp
  have g: "g = (if CompareClock b p > 0 then b
      else if BigClock p = [] \<and> StateClock p < MaxInt64
      then b\<lparr>Clock := wrap64 (StateClock p + 1), BigClock := []\<rparr>
      else b\<lparr>Clock := MaxInt64, BigClock := increment_digits
        (if BigClock p = [] then FormatInt (StateClock p) else BigClock p)\<rparr>)"
    by (simp add: g_def b_def AdvanceClock_def Let_def)
  have mt: "in_int64 (ModTime b)" using b(1) by (simp add: clock_ok_def)
  have pos: "1 \<le> base_clock f" using assms(1) by (rule AdvanceClock_base_pos)
  have sp: "in_int64 (StateClock p)" using assms(2) by (rule StateClock_int64)
  consider (gt) "clock_value p < base_clock f"
    | (small) "base_clock f \<le> clock_value p" "BigClock p = []" "StateClock p < MaxInt64"
    | (big) "base_clock f \<le> clock_value p" "\<not> (BigClock p = [] \<and> StateClock p < MaxInt64)"
    by linarith
  then have "clock_ok g \<and> clock_value g = max (base_clock f) (clock_value p + 1)"
  proof cases
    case gt
    then show ?thesis using g cmp b by simp
  next
    case small
    then have "in_int64 (StateClock p + 1)" "1 \<le> StateClock p"
      using sp pos by (auto simp: in_int64_def clock_value_def)
    then show ?thesis using small g cmp mt
      by (auto simp: wrap64_id clock_ok_def ValidateClock_def clock_value_def StateClock_def)
  next
    case big
    then have "MaxInt64 \<le> clock_value p"
      using assms(2) ValidateClock_big [of p] by (auto simp: clock_value_def clock_ok_def)
    moreover have "\<not> 0 < CompareClock b p" using big(1) cmp by simp
    then have "g = b\<lparr>Clock := MaxInt64, BigClock := increment_digits
        (if BigClock p = [] then FormatInt (StateClock p) else BigClock p)\<rparr>"
      using big(2) g by (simp only: if_False)
    then have "BigClock g = increment_digits
        (if BigClock p = [] then FormatInt (StateClock p) else BigClock p)"
      "Clock g = MaxInt64" "in_int64 (ModTime g)" using mt by simp_all
    ultimately have "clock_ok g" "clock_value g = clock_value p + 1"
      using increment_clock [OF assms(2) _ refl, of g] by blast+
    then show ?thesis using big(1) by simp
  qed
  then show "clock_ok (AdvanceClock f (Some p))"
    and "clock_value (AdvanceClock f (Some p)) = max (base_clock f) (clock_value p + 1)"
    by (simp_all add: g_def)
qed

section \<open>The order of replicated states\<close>

lemma CompareClock_rank: "CompareClock a b = cmp_compare (clock_rank a) (clock_rank b)"
proof (cases "BigClock a = []"; cases "BigClock b = []")
  assume "BigClock a \<noteq> []" "BigClock b \<noteq> []"
  then show ?thesis
    by (simp add: CompareClock_def clock_rank_def compareDecimal_def cmp_compare_pair Let_def
        del: cmp_compare_zero)
      (simp add: cmp_compare_def)
qed (simp_all add: CompareClock_def clock_rank_def cmp_compare_def less_prod_def)

lemma cmp_compare_rank [simp]:
  "cmp_compare (StateRank s) (StateRank t) = cmp_compare s t"
  by (simp add: cmp_compare_def less_state_rank_def)

lemma cmp_compare_option [simp]:
  "cmp_compare None (Some b) = -1" "cmp_compare (Some b) None = 1"
  "cmp_compare (Some a) (Some b) = cmp_compare a b"
  by (simp_all add: cmp_compare_def)

lemma CompareState_rank:
  "CompareState x y = cmp_compare (map_option rank x) (map_option rank y)"
proof (cases x; cases y)
  fix a b assume xy: "x = Some a" "y = Some b"
  have m: "cmp_compare (ModTime a) (ModTime b) =
      (if ModTime a < ModTime b then -1 else if ModTime a > ModTime b then 1 else 0)"
    and l: "cmp_compare (live a) (live b) = (if live a \<noteq> live b then if \<not> live a then -1 else 1 else 0)"
    by (auto simp: cmp_compare_def)
  have "CompareState x y =
      (let c = CompareClock a b; m = cmp_compare (ModTime a) (ModTime b);
           l = cmp_compare (live a) (live b)
       in if c \<noteq> 0 then c else if m \<noteq> 0 then m else if l \<noteq> 0 then l
          else if \<not> live a then 0
          else let h = cmp_compare (Hash a) (Hash b) in if h \<noteq> 0 then h
          else cmp_compare (if SupersededBy a \<noteq> [] then SupersededBy a else Name a)
            (if SupersededBy b \<noteq> [] then SupersededBy b else Name b))"
    unfolding xy CompareState_def m l Let_def by simp
  also have "\<dots> = cmp_compare (map_option rank x) (map_option rank y)"
    unfolding xy option.map rank_def cmp_compare_option cmp_compare_rank cmp_compare_pair
      CompareClock_rank Let_def
    by (cases "live a"; cases "live b") (simp_all add: cmp_compare_def [of True] cmp_compare_def [of False])
  finally show ?thesis .
qed (simp_all add: CompareState_def)

text \<open>Whatever states a replica sees and in whatever order, keeping the newer one ends in the
  greatest.\<close>

locale last_writer_wins =
  fixes cmp :: "'s option \<Rightarrow> 's option \<Rightarrow> int"
    and rnk :: "'s \<Rightarrow> 'r::linorder"
  assumes cmp_rank: "cmp x y = cmp_compare (map_option rnk x) (map_option rnk y)"
begin

lemma keep_newer_rank:
  "map_option rnk (keep_newer cmp l r) = max (map_option rnk l) (Some (rnk r))"
  by (auto simp: keep_newer_def cmp_rank max_def)

lemma fold_rank:
  "map_option rnk (foldl (keep_newer cmp) l rs) =
     Max (insert (map_option rnk l) (Some ` rnk ` set rs))"
proof (induction rs arbitrary: l)
  case (Cons r rs)
  have "Max (insert (max a b) X) = Max (insert a (insert b X))" if "finite X" for a b and X :: "'r option set"
    using that by (cases "X = {}") (auto simp: max.assoc)
  then show ?case using Cons by (simp add: keep_newer_rank)
qed simp

lemma fold_source: "foldl (keep_newer cmp) l rs \<in> insert l (Some ` set rs)"
proof (induction rs arbitrary: l)
  case (Cons r rs)
  have "keep_newer cmp l r \<in> {l, Some r}" by (simp add: keep_newer_def)
  then show ?case using Cons [of "keep_newer cmp l r"] by auto
qed simp

lemma converge:
  "set rs = set rs' \<Longrightarrow>
   cmp (foldl (keep_newer cmp) l rs) (foldl (keep_newer cmp) l rs') = 0"
  by (simp add: cmp_rank fold_rank)

lemma newest_kept:
  "r \<in> set rs \<Longrightarrow> 0 \<le> cmp (foldl (keep_newer cmp) l rs) (Some r)"
proof -
  assume "r \<in> set rs"
  then have "Some (rnk r) \<le> map_option rnk (foldl (keep_newer cmp) l rs)"
    unfolding fold_rank by (intro Max_ge) auto
  then show ?thesis by (simp add: cmp_rank cmp_compare_def not_less)
qed

end

interpretation states: last_writer_wins CompareState rank
  by unfold_locales (rule CompareState_rank)

end
