(* ===== verification/Go_Paths.thy ===== *)
theory Go_Paths
  imports Birak_Prelude
begin

text \<open>
  The lexical functions of Go's \<^verbatim>\<open>path\<close> and (on Unix) \<^verbatim>\<open>path/filepath\<close> packages the sources use:
  \<open>Clean\<close>, \<open>Dir\<close>, \<open>Base\<close>, \<open>Join\<close>, \<open>IsLocal\<close>. A name of the synchronised namespace is canonical: non-empty
  components, none of them a dot or a double dot, joined by single slashes. The lemmas say
  what the functions do on canonical names.
\<close>

section \<open>Definitions\<close>

text \<open>\<open>Clean\<close> processes the components from the left; \<open>out\<close> holds the kept ones, last first.\<close>

fun clean_parts :: "bool \<Rightarrow> string list \<Rightarrow> string list \<Rightarrow> string list" where
  "clean_parts rooted [] out = rev out"
| "clean_parts rooted (p # ps) out =
     (if p = [] \<or> p = ''.'' then clean_parts rooted ps out
      else if p = ''..'' then
        (case out of
           [] \<Rightarrow> if rooted then clean_parts rooted ps out else clean_parts rooted ps [p]
         | q # qs \<Rightarrow> if q = ''..'' then clean_parts rooted ps (p # out)
                     else clean_parts rooted ps qs)
      else clean_parts rooted ps (p # out))"

definition path_Clean :: "string \<Rightarrow> string" where
  "path_Clean p =
     (let rooted = HasPrefix p ''/'';
          body = Join (clean_parts rooted (Split p CHR ''/'') []) ''/''
      in if rooted then ''/'' @ body else if body = [] then ''.'' else body)"

text \<open>\<open>Dir\<close> cleans everything up to the last slash.\<close>

definition dir_part :: "string \<Rightarrow> string" where
  "dir_part p = rev (dropWhile (\<lambda>c. c \<noteq> CHR ''/'') (rev p))"

definition path_Dir :: "string \<Rightarrow> string" where
  "path_Dir p = path_Clean (dir_part p)"

definition path_Base :: "string \<Rightarrow> string" where
  "path_Base p =
     (if p = [] then ''.''
      else let q = TrimRightChar CHR ''/'' p;
               b = rev (takeWhile (\<lambda>c. c \<noteq> CHR ''/'') (rev q))
           in if b = [] then ''/'' else b)"

text \<open>\<open>filepath.Join\<close> on Unix: the empty elements are dropped, the rest is joined and cleaned.\<close>

definition path_Join :: "string list \<Rightarrow> string" where
  "path_Join elems =
     (let es = dropWhile (\<lambda>e. e = []) elems
      in if es = [] then [] else path_Clean (Join es ''/''))"

text \<open>\<open>filepath.IsLocal\<close> on Unix (\<open>unixIsLocal\<close>).\<close>

definition path_IsLocal :: "string \<Rightarrow> bool" where
  "path_IsLocal p =
     (if HasPrefix p ''/'' \<or> p = [] then False
      else let q = (if ''..'' \<in> set (Split p CHR ''/'') \<or> ''.'' \<in> set (Split p CHR ''/'')
                    then path_Clean p else p)
           in q \<noteq> ''..'' \<and> \<not> HasPrefix q ''../'')"

definition good_part :: "string \<Rightarrow> bool" where
  "good_part p \<longleftrightarrow> p \<noteq> [] \<and> p \<noteq> ''.'' \<and> p \<noteq> ''..'' \<and> CHR ''/'' \<notin> set p"

definition canonical_name :: "string \<Rightarrow> bool" where
  "canonical_name n \<longleftrightarrow> list_all good_part (Split n CHR ''/'')"

section \<open>Canonical names\<close>

lemma good_part_simps:
  "good_part p \<Longrightarrow> p \<noteq> []" "good_part p \<Longrightarrow> p \<noteq> ''.''" "good_part p \<Longrightarrow> p \<noteq> ''..''"
  "good_part p \<Longrightarrow> CHR ''/'' \<notin> set p"
  by (auto simp: good_part_def)

lemma canonical_name_iff:
  "canonical_name n \<longleftrightarrow> (\<exists>ps. ps \<noteq> [] \<and> list_all good_part ps \<and> n = Join ps ''/'')"
proof
  assume "canonical_name n"
  then show "\<exists>ps. ps \<noteq> [] \<and> list_all good_part ps \<and> n = Join ps ''/''"
    using Join_Split [of n "CHR ''/''"] Split_nonempty [of n "CHR ''/''"]
    unfolding canonical_name_def by metis
next
  assume "\<exists>ps. ps \<noteq> [] \<and> list_all good_part ps \<and> n = Join ps ''/''"
  then show "canonical_name n"
    using Split_Join by (fastforce simp: canonical_name_def list_all_iff good_part_def)
qed

lemma canonical_nonempty: "canonical_name n \<Longrightarrow> n \<noteq> []"
  by (auto simp: canonical_name_def good_part_def)

lemma clean_parts_good: "list_all good_part ps \<Longrightarrow> clean_parts r ps out = rev out @ ps"
  by (induction ps arbitrary: out) (auto simp: good_part_def)

lemma Join_Nil: "list_all good_part ps \<Longrightarrow> Join ps ''/'' = [] \<longleftrightarrow> ps = []"
  by (cases ps rule: remdups_adj.cases) (auto simp: good_part_def)

lemma canonical_not_rooted: "canonical_name n \<Longrightarrow> \<not> HasPrefix n ''/''"
  by (cases n) (auto simp: canonical_name_def good_part_def HasPrefix_def)

lemma path_Clean_canonical: "canonical_name n \<Longrightarrow> path_Clean n = n"
  using Join_Split [of n "CHR ''/''"] canonical_nonempty [of n] canonical_not_rooted [of n]
  by (simp add: path_Clean_def canonical_name_def clean_parts_good Let_def)

lemma path_IsLocal_canonical: "canonical_name n \<Longrightarrow> path_IsLocal n"
proof -
  assume c: "canonical_name n"
  then have "n \<noteq> ''..''" "\<not> HasPrefix n ''../''"
    by (auto simp: canonical_name_def good_part_def HasPrefix_def prefix_def)
  with c show ?thesis
    by (auto simp: path_IsLocal_def canonical_nonempty canonical_not_rooted path_Clean_canonical Let_def)
qed

lemma Split_snoc: "c \<notin> set b \<Longrightarrow> Split (a @ c # b) c = Split a c @ [b]"
proof (induction a)
  case (Cons x a)
  then show ?case by (cases "Split a c") auto
qed (simp add: Split_single)

lemma canonical_append:
  "CHR ''/'' \<notin> set b \<Longrightarrow> canonical_name (a @ ''/'' @ b) \<longleftrightarrow> canonical_name a \<and> good_part b"
  by (simp add: canonical_name_def Split_snoc)

lemma path_Dir_top: "CHR ''/'' \<notin> set n \<Longrightarrow> path_Dir n = ''.''"
proof -
  assume "CHR ''/'' \<notin> set n"
  then have "dir_part n = []" by (auto simp: dir_part_def dropWhile_eq_Nil_conv)
  then show ?thesis by (simp add: path_Dir_def path_Clean_def HasPrefix_def)
qed

lemma path_Clean_slash: "canonical_name a \<Longrightarrow> path_Clean (a @ ''/'') = a"
proof -
  assume a: "canonical_name a"
  have "Split (a @ [CHR ''/'']) CHR ''/'' = Split a CHR ''/'' @ [[]]"
  proof (induction a)
    case (Cons x a)
    then show ?case by (cases "Split a CHR ''/''") auto
  qed simp
  moreover have "clean_parts r (ps @ [[]]) out = clean_parts r ps out" for r ps out
    by (induction r ps out rule: clean_parts.induct) (auto split: list.splits)
  moreover have "\<not> HasPrefix (a @ ''/'') ''/''"
    using canonical_not_rooted [OF a] canonical_nonempty [OF a] by (cases a) (auto simp: HasPrefix_def)
  ultimately show ?thesis
    using a Join_Split [of a "CHR ''/''"] canonical_nonempty [OF a]
    by (simp add: path_Clean_def canonical_name_def clean_parts_good Let_def)
qed

lemma path_Dir_step:
  "CHR ''/'' \<notin> set b \<Longrightarrow> canonical_name a \<Longrightarrow> path_Dir (a @ ''/'' @ b) = a"
proof -
  assume b: "CHR ''/'' \<notin> set b" and a: "canonical_name a"
  have "dir_part (a @ ''/'' @ b) = a @ ''/''"
    using b by (simp add: dir_part_def dropWhile_append3 dropWhile_append)
  then show ?thesis using a by (simp add: path_Dir_def path_Clean_slash)
qed

text \<open>Every canonical name is a top-level name or a component below a canonical name.\<close>

lemma canonical_cases:
  assumes "canonical_name n"
  obtains "CHR ''/'' \<notin> set n" "good_part n"
    | a b where "n = a @ ''/'' @ b" "CHR ''/'' \<notin> set b" "good_part b" "canonical_name a"
proof (cases "CHR ''/'' \<in> set n")
  case True
  then obtain a b where n: "n = a @ CHR ''/'' # b" "CHR ''/'' \<notin> set b"
    using split_list_last by metis
  then show ?thesis using that(2) [of a b] canonical_append [of b a] assms by simp
next
  case False
  then show ?thesis using that(1) assms by (simp add: canonical_name_def Split_single)
qed

end
