(* ===== verification/Names.thy ===== *)
theory Names
  imports Clocks Go_Paths
begin

text \<open>
  The portable namespace (store/names.go): at most one spelling per case-folded, normalised
  path prefix, directories and deletion history included. \<open>nfc_fold\<close> stands for the composition
  of Unicode normalisation and case folding the code takes from golang.org/x/text
  (\<open>norm.NFC\<close>, \<open>cases.Fold\<close>); nothing is assumed of it. The table \<open>namespace_names\<close> is the list
  of its rows (folded, spelling), keyed by the folded path.
\<close>

section \<open>Definitions\<close>

datatype store_error =
    ErrInvalidName string
  | ErrNameCollision string string
  | ErrClock clock_error
  | ErrRepairQueueFull string int
  | ErrLiveRangeLimit int
  | ErrDB string

type_synonym name_row = "string \<times> string"

text \<open>The loop of \<open>nameParts\<close>; \<open>None\<close> is a component that is empty, a dot or a double dot.\<close>

fun name_loop ::
    "(string \<Rightarrow> string) \<Rightarrow> string list \<Rightarrow> string \<Rightarrow> string \<Rightarrow> name_row list \<Rightarrow> name_row list option" where
  "name_loop nfc_fold [] folded original out = Some out"
| "name_loop nfc_fold (part # parts) folded original out =
     (if part = [] \<or> part = ''.'' \<or> part = ''..'' then None
      else let key = nfc_fold part;
               original' = (if original \<noteq> [] then original @ ''/'' else original) @ part;
               folded' = (if original \<noteq> [] then folded @ ''/'' else folded) @ key
           in name_loop nfc_fold parts folded' original' (out @ [(folded', original')]))"

definition nameParts :: "(string \<Rightarrow> string) \<Rightarrow> string \<Rightarrow> (store_error, name_row list) result" where
  "nameParts nfc_fold name =
     (if \<not> utf8_valid name \<or> name = [] then Inl (ErrInvalidName name)
      else case name_loop nfc_fold (Split name CHR ''/'') [] [] [] of
             None \<Rightarrow> Inl (ErrInvalidName name)
           | Some out \<Rightarrow> Inr out)"

text \<open>\<open>INSERT ... ON CONFLICT(folded) DO NOTHING\<close>.\<close>

definition insert_absent :: "name_row \<Rightarrow> name_row list \<Rightarrow> name_row list" where
  "insert_absent r t = (case row_of fst t (fst r) of None \<Rightarrow> t @ [r] | Some _ \<Rightarrow> t)"

fun bind_parts :: "name_row list \<Rightarrow> name_row list \<Rightarrow> (store_error, name_row list) result" where
  "bind_parts [] t = Inr t"
| "bind_parts (part # parts) t =
     (let t' = insert_absent part t
      in case row_of fst t' (fst part) of
           None \<Rightarrow> Inl (ErrDB ''sql: no rows in result set'')
         | Some row \<Rightarrow>
             if snd row \<noteq> snd part then Inl (ErrNameCollision (snd part) (snd row))
             else bind_parts parts t')"

definition bindName ::
    "(string \<Rightarrow> string) \<Rightarrow> name_row list \<Rightarrow> string \<Rightarrow> (store_error, name_row list) result" where
  "bindName nfc_fold t name = result_bind (nameParts nfc_fold name) (\<lambda>parts. bind_parts parts t)"

fun check_parts :: "name_row list \<Rightarrow> name_row list \<Rightarrow> (store_error, unit) result" where
  "check_parts [] t = Inr ()"
| "check_parts (part # parts) t =
     (case row_of fst t (fst part) of
        None \<Rightarrow> check_parts parts t
      | Some row \<Rightarrow>
          if snd row \<noteq> snd part then Inl (ErrNameCollision (snd part) (snd row))
          else check_parts parts t)"

text \<open>The check of \<open>CheckName\<close> on the table's rows.\<close>

definition check_name ::
    "(string \<Rightarrow> string) \<Rightarrow> name_row list \<Rightarrow> string \<Rightarrow> (store_error, unit) result" where
  "check_name nfc_fold t name = result_bind (nameParts nfc_fold name) (\<lambda>parts. check_parts parts t)"

text \<open>The loop over the names of \<open>migrateNames\<close>; it pages through the \<open>files\<close> table in name
  order and binds every name in one transaction.\<close>

fun bind_all ::
    "(string \<Rightarrow> string) \<Rightarrow> string list \<Rightarrow> name_row list \<Rightarrow> (store_error, name_row list) result" where
  "bind_all nfc_fold [] t = Inr t"
| "bind_all nfc_fold (n # ns) t = result_bind (bindName nfc_fold t n) (bind_all nfc_fold ns)"

subsection \<open>Specification\<close>

text \<open>The folded key of a whole name, and what it means that a table reserves a name.\<close>

definition folded_name :: "(string \<Rightarrow> string) \<Rightarrow> string \<Rightarrow> string" where
  "folded_name nfc_fold n = Join (map nfc_fold (Split n CHR ''/'')) ''/''"

definition reserved_in :: "(string \<Rightarrow> string) \<Rightarrow> name_row list \<Rightarrow> string \<Rightarrow> bool" where
  "reserved_in nfc_fold t n \<longleftrightarrow>
     (\<exists>parts. nameParts nfc_fold n = Inr parts \<and> (\<forall>p \<in> set parts. row_of fst t (fst p) = Some p))"

section \<open>The path prefixes of a name\<close>

lemma name_loop_append:
  "name_loop nfc_fold parts folded original out =
     map_option (\<lambda>ps. out @ ps) (name_loop nfc_fold parts folded original [])"
proof (induction parts arbitrary: folded original out)
  case (Cons p parts)
  show ?case
    by (simp add: Let_def)
      (subst (1 2 3 4) Cons.IH, auto simp: option.map_comp comp_def intro!: option.map_cong0)
qed simp

text \<open>The folded prefixes grow strictly, so those of one name are distinct.\<close>

lemma name_loop_lengths:
  "name_loop nfc_fold parts folded original [] = Some ps \<Longrightarrow> original \<noteq> [] \<Longrightarrow>
   distinct (map fst ps) \<and> (\<forall>p \<in> set ps. length folded < length (fst p))"
proof (induction parts arbitrary: folded original ps)
  case (Cons part parts)
  define f o' where "f = folded @ ''/'' @ nfc_fold part" and "o' = original @ ''/'' @ part"
  from Cons.prems have step: "name_loop nfc_fold parts f o' [(f, o')] = Some ps"
    by (auto simp: f_def o'_def Let_def split: if_splits)
  then obtain qs where qs: "name_loop nfc_fold parts f o' [] = Some qs" "ps = (f, o') # qs"
    by (subst (asm) name_loop_append) auto
  have "distinct (map fst qs) \<and> (\<forall>p \<in> set qs. length f < length (fst p))"
    by (rule Cons.IH [OF qs(1)]) (simp add: o'_def)
  moreover have "length folded < length f" by (simp add: f_def)
  ultimately show ?case using qs(2) by (fastforce simp: image_iff)
qed simp

lemma nameParts_distinct:
  assumes "nameParts nfc_fold n = Inr parts"
  shows "distinct (map fst parts)"
proof -
  from assms have loop: "name_loop nfc_fold (Split n CHR ''/'') [] [] [] = Some parts"
    by (auto simp: nameParts_def split: if_splits option.splits)
  obtain p ps where sp: "Split n CHR ''/'' = p # ps" by (cases "Split n CHR ''/''") auto
  with loop have p: "p \<noteq> []" and "name_loop nfc_fold ps (nfc_fold p) p [(nfc_fold p, p)] = Some parts"
    by (auto simp: Let_def split: if_splits)
  then obtain qs where qs: "name_loop nfc_fold ps (nfc_fold p) p [] = Some qs" "parts = (nfc_fold p, p) # qs"
    by (subst (asm) name_loop_append) auto
  show ?thesis using name_loop_lengths [OF qs(1) p] qs(2) by (fastforce simp: image_iff)
qed

lemma name_loop_last:
  "name_loop nfc_fold parts folded original [] = Some ps \<Longrightarrow> parts \<noteq> [] \<Longrightarrow> original \<noteq> [] \<Longrightarrow>
   ps \<noteq> [] \<and> last ps = (folded @ ''/'' @ Join (map nfc_fold parts) ''/'', original @ ''/'' @ Join parts ''/'')"
proof (induction parts arbitrary: folded original ps)
  case (Cons part parts)
  define f o' where "f = folded @ ''/'' @ nfc_fold part" and "o' = original @ ''/'' @ part"
  from Cons.prems have step: "name_loop nfc_fold parts f o' [(f, o')] = Some ps"
    by (auto simp: f_def o'_def Let_def split: if_splits)
  then obtain qs where qs: "name_loop nfc_fold parts f o' [] = Some qs" "ps = (f, o') # qs"
    by (subst (asm) name_loop_append) auto
  show ?case
  proof (cases "parts = []")
    case True
    then show ?thesis using qs by (simp add: f_def o'_def)
  next
    case False
    then show ?thesis
      using Cons.IH [OF qs(1)] qs(2) by (simp add: f_def o'_def Join_Cons)
  qed
qed simp

lemma nameParts_last:
  assumes "nameParts nfc_fold n = Inr parts"
  shows "parts \<noteq> []" "last parts = (folded_name nfc_fold n, n)"
proof -
  from assms have loop: "name_loop nfc_fold (Split n CHR ''/'') [] [] [] = Some parts"
    by (auto simp: nameParts_def split: if_splits option.splits)
  obtain p ps where sp: "Split n CHR ''/'' = p # ps" by (cases "Split n CHR ''/''") auto
  have n: "n = Join (p # ps) ''/''" using Join_Split [of n "CHR ''/''"] sp by simp
  from loop sp have p: "p \<noteq> []" and "name_loop nfc_fold ps (nfc_fold p) p [(nfc_fold p, p)] = Some parts"
    by (auto simp: Let_def split: if_splits)
  then obtain qs where qs: "name_loop nfc_fold ps (nfc_fold p) p [] = Some qs" "parts = (nfc_fold p, p) # qs"
    by (subst (asm) name_loop_append) auto
  show "parts \<noteq> []" using qs by simp
  show "last parts = (folded_name nfc_fold n, n)"
  proof (cases "ps = []")
    case True
    then show ?thesis using qs n sp by (simp add: folded_name_def)
  next
    case False
    then show ?thesis using name_loop_last [OF qs(1) False p] qs(2) n sp
      by (simp add: folded_name_def Join_Cons)
  qed
qed

lemma name_loop_canonical:
  "name_loop nfc_fold parts folded original [] \<noteq> None \<longleftrightarrow> list_all (\<lambda>p. p \<noteq> [] \<and> p \<noteq> ''.'' \<and> p \<noteq> ''..'') parts"
proof (induction parts arbitrary: folded original)
  case (Cons p parts)
  show ?case
    by (simp add: Let_def) (subst (1 2) name_loop_append, use Cons in auto)
qed simp

lemma nameParts_ok: "(\<exists>parts. nameParts nfc_fold n = Inr parts) \<longleftrightarrow> utf8_valid n \<and> canonical_name n"
proof -
  have "canonical_name n \<longleftrightarrow> list_all (\<lambda>p. p \<noteq> [] \<and> p \<noteq> ''.'' \<and> p \<noteq> ''..'') (Split n CHR ''/'')"
    using Split_parts [of _ n "CHR ''/''"]
    by (auto simp: canonical_name_def list_all_iff good_part_def)
  moreover have "canonical_name n \<Longrightarrow> n \<noteq> []" by (rule canonical_nonempty)
  ultimately show ?thesis
    using name_loop_canonical [of nfc_fold "Split n CHR ''/''" "[]" "[]"]
    by (auto simp: nameParts_def split: option.splits)
qed

section \<open>Reserving names\<close>

lemma row_of_insert_absent:
  "row_of fst (insert_absent r t) k =
     (if k = fst r \<and> row_of fst t k = None then Some r else row_of fst t k)"
proof -
  have "row_of fst (t @ [r]) k = (case row_of fst t k of None \<Rightarrow> if fst r = k then Some r else None | Some x \<Rightarrow> Some x)"
    by (induction t) auto
  then show ?thesis by (auto simp: insert_absent_def split: option.splits)
qed

lemma bind_parts_ok:
  "distinct (map fst parts) \<Longrightarrow>
   (\<exists>t'. bind_parts parts t = Inr t') \<longleftrightarrow>
   (\<forall>p \<in> set parts. case row_of fst t (fst p) of None \<Rightarrow> True | Some r \<Rightarrow> snd r = snd p)"
proof (induction parts arbitrary: t)
  case (Cons p parts)
  have "row_of fst (insert_absent p t) (fst q) = row_of fst t (fst q)" if "q \<in> set parts" for q
    using Cons.prems that by (auto simp: row_of_insert_absent image_iff)
  then show ?case using Cons
    by (auto simp: Let_def row_of_insert_absent split: option.splits)
qed simp

lemma check_parts_ok:
  "check_parts parts t = Inr () \<longleftrightarrow>
   (\<forall>p \<in> set parts. case row_of fst t (fst p) of None \<Rightarrow> True | Some r \<Rightarrow> snd r = snd p)"
  by (induction parts) (auto split: option.splits)

lemma bind_parts_rows:
  "bind_parts parts t = Inr t' \<Longrightarrow>
   (\<forall>k r. row_of fst t k = Some r \<longrightarrow> row_of fst t' k = Some r) \<and>
   (\<forall>p \<in> set parts. row_of fst t' (fst p) = Some p)"
proof (induction parts arbitrary: t)
  case (Cons p parts)
  from Cons.prems obtain row where row: "row_of fst (insert_absent p t) (fst p) = Some row"
    "snd row = snd p" "bind_parts parts (insert_absent p t) = Inr t'"
    by (auto simp: Let_def split: option.splits if_splits)
  then have p: "row = p" using row_of_SomeD by (metis prod_eq_iff)
  have keep: "row_of fst t k = Some r \<Longrightarrow> row_of fst (insert_absent p t) k = Some r" for k r
    by (simp add: row_of_insert_absent)
  have IH: "\<forall>k r. row_of fst (insert_absent p t) k = Some r \<longrightarrow> row_of fst t' k = Some r"
    "\<forall>q \<in> set parts. row_of fst t' (fst q) = Some q"
    using Cons.IH [OF row(3)] by blast+
  have "\<forall>k r. row_of fst t k = Some r \<longrightarrow> row_of fst t' k = Some r" using IH(1) keep by blast
  moreover have "row_of fst t' (fst p) = Some p" using IH(1) row(1) p by blast
  ultimately show ?case using IH(2) by simp
qed simp

lemma keyed_bind_parts: "bind_parts parts t = Inr t' \<Longrightarrow> keyed fst t \<Longrightarrow> keyed fst t'"
proof (induction parts arbitrary: t)
  case (Cons p parts)
  have "keyed fst (insert_absent p t)"
    using Cons.prems(2) by (auto simp: insert_absent_def keyed_def row_of_None split: option.splits)
  then show ?case using Cons by (auto simp: Let_def split: option.splits if_splits)
qed simp

lemma bindName_reserves: "bindName nfc_fold t n = Inr t' \<Longrightarrow> reserved_in nfc_fold t' n"
  using bind_parts_rows by (fastforce simp: bindName_def result_bind_Inr reserved_in_def)

lemma bindName_keeps: "bindName nfc_fold t n = Inr t' \<Longrightarrow> reserved_in nfc_fold t m \<Longrightarrow> reserved_in nfc_fold t' m"
  using bind_parts_rows by (fastforce simp: bindName_def result_bind_Inr reserved_in_def)

lemma keyed_bindName: "bindName nfc_fold t n = Inr t' \<Longrightarrow> keyed fst t \<Longrightarrow> keyed fst t'"
  by (auto simp: bindName_def result_bind_Inr dest: keyed_bind_parts)

text \<open>Two names reserved in one table and equal up to folding are equal.\<close>

lemma reserved_unique:
  assumes "reserved_in nfc_fold t a" "reserved_in nfc_fold t b" "folded_name nfc_fold a = folded_name nfc_fold b"
  shows "a = b"
proof -
  have "row_of fst t (folded_name nfc_fold n) = Some (folded_name nfc_fold n, n)"
    if r: "reserved_in nfc_fold t n" for n
  proof -
    obtain parts where parts: "nameParts nfc_fold n = Inr parts"
      "\<forall>p \<in> set parts. row_of fst t (fst p) = Some p"
      using r unfolding reserved_in_def by blast
    have "last parts \<in> set parts" "last parts = (folded_name nfc_fold n, n)"
      using nameParts_last [OF parts(1)] last_in_set by blast+
    then show ?thesis using parts(2) by force
  qed
  from this [OF assms(1)] this [OF assms(2)] show ?thesis
    unfolding assms(3) by (metis option.inject prod.inject)
qed

lemma bind_all_reserves:
  "bind_all nfc_fold ns t = Inr t' \<Longrightarrow>
   (\<forall>n \<in> set ns. reserved_in nfc_fold t' n) \<and> (\<forall>m. reserved_in nfc_fold t m \<longrightarrow> reserved_in nfc_fold t' m)"
proof (induction ns arbitrary: t)
  case (Cons n ns)
  then obtain u where "bindName nfc_fold t n = Inr u" "bind_all nfc_fold ns u = Inr t'"
    by (auto simp: result_bind_Inr)
  then show ?case using Cons.IH bindName_reserves bindName_keeps by auto
qed simp

end
