(* ===== verification/Store.thy ===== *)
theory Store
  imports Names
begin

text \<open>
  The metadata store (store/store.go, conflicts.go, names.go): its SQLite tables as lists of
  rows, the fields of the \<open>Store\<close> struct, and the operations on files, stream positions and
  acknowledgements. The \<open>db\<close> record survives a restart, the other fields are rebuilt by \<open>New\<close>.
  An operation takes as \<open>e\<close> the failure SQLite reports for it (\<open>None\<close>: the statements succeed);
  a failed transaction is rolled back, so the database is the one before the call. \<open>now\<close> is the
  value of \<open>time.Now().UnixNano()\<close>.
\<close>

section \<open>State\<close>

record repair_row =
  rrPeer :: string
  rrName :: string
  rrVersion :: int
  rrAttempts :: int
  rrNextAttempt :: int
  rrFirstSeen :: int
  rrLastError :: string
  rrMeta :: "FileMeta option"
  rrRevision :: int
  rrLarge :: bool

record cursor_row =
  cuPeer :: string
  cuLastVer :: int
  cuEpoch :: string

record ack_row =
  akPeer :: string
  akVersion :: int
  akUpdatedAt :: int
  akEpoch :: string

record PeerState =
  psVersion :: int
  psEpoch :: string

record RepairStats =
  rsTotal :: int
  rsDue :: int
  rsOldestAgeMS :: int

record PartialDownload =
  pdMeta :: FileMeta
  pdPath :: string
  pdVerified :: int
  pdPrefix :: string
  pdUpdated :: int

text \<open>The counters \<open>last_version\<close> and \<open>repair_revision\<close> are rows of \<open>node_meta\<close> in the database.\<close>

record database =
  files :: "FileMeta list"
  namespace_names :: "name_row list"
  node_meta :: "(string \<times> string) list"
  last_version :: int
  repair_revision :: int
  cursors :: "cursor_row list"
  peer_acks :: "ack_row list"
  repair_queue :: "repair_row list"
  local_intents :: "string list"
  replica_intents :: "(string \<times> FileMeta) list"
  quarantine :: "string list"
  damaged_objects :: "string list"
  partial_downloads :: "PartialDownload list"

record Store =
  db :: database
  cachedNextVer :: int
  epoch :: string
  incarnation :: string
  repairLimit :: int
  statsCache :: RepairStats
  statsValid :: bool
  statsGen :: int
  queueSize :: "string \<Rightarrow> int"
  quarantined :: "string list"
  damagedObjects :: "string list"
  integrityGen :: int
  countVersion :: int
  countValid :: bool
  countCached :: int
  enqueued :: int

definition empty_db :: database where
  "empty_db = \<lparr> files = [], namespace_names = [], node_meta = [], last_version = 0,
     repair_revision = 0, cursors = [], peer_acks = [], repair_queue = [], local_intents = [],
     replica_intents = [], quarantine = [], damaged_objects = [], partial_downloads = [] \<rparr>"

section \<open>Operations\<close>

definition db_read :: "string option \<Rightarrow> (store_error, 'a) result \<Rightarrow> (store_error, 'a) result" where
  "db_read e r = (case e of Some x \<Rightarrow> Inl (ErrDB x) | None \<Rightarrow> r)"

definition db_write ::
    "string option \<Rightarrow> Store \<Rightarrow> (store_error, 'a) result \<times> Store \<Rightarrow> (store_error, 'a) result \<times> Store" where
  "db_write e s out = (case e of Some x \<Rightarrow> (Inl (ErrDB x), s) | None \<Rightarrow> out)"

abbreviation (input) DefaultRepairLimit :: int where
  "DefaultRepairLimit \<equiv> 100000"

abbreviation (input) NoAckGate :: int where
  "NoAckGate \<equiv> MaxInt64"

definition SetRepairLimit :: "Store \<Rightarrow> int \<Rightarrow> Store" where
  "SetRepairLimit s limit = s\<lparr>repairLimit := max 0 limit\<rparr>"

definition queuedFor :: "Store \<Rightarrow> string \<Rightarrow> int" where
  "queuedFor s peer = queueSize s peer"

definition addQueueSize :: "Store \<Rightarrow> string \<Rightarrow> int \<Rightarrow> Store" where
  "addQueueSize s peer delta =
     s\<lparr>queueSize := (queueSize s)(peer := max 0 (queueSize s peer + delta)),
       statsGen := statsGen s + 1, statsValid := False\<rparr>"

text \<open>\<open>SELECT peer_id, COUNT(*) FROM repair_queue GROUP BY peer_id\<close>, as a map with default 0.\<close>

definition loadQueueSizes :: "database \<Rightarrow> string \<Rightarrow> int" where
  "loadQueueSizes d peer = int (length (filter (\<lambda>r. rrPeer r = peer) (repair_queue d)))"

definition max_or_zero :: "int list \<Rightarrow> int" where
  "max_or_zero xs = (case xs of [] \<Rightarrow> 0 | x # r \<Rightarrow> foldl max x r)"

definition LargeRepairBytes :: int where
  "LargeRepairBytes = 8388608"

text \<open>\<open>json_extract\<close> reads the stored metadata; a row without metadata stays in the small lane.\<close>

definition migrateRepairLanes :: "database \<Rightarrow> database" where
  "migrateRepairLanes d =
     (if row_of fst (node_meta d) ''repair_lanes_v1'' \<noteq> None then d
      else d\<lparr>repair_queue := map (\<lambda>r. case rrMeta r of
               None \<Rightarrow> r
             | Some m \<Rightarrow> if \<not> Deleted m \<and> Size m \<ge> LargeRepairBytes then r\<lparr>rrLarge := True\<rparr> else r)
             (repair_queue d),
           node_meta := node_meta d @ [(''repair_lanes_v1'', ''1'')]\<rparr>)"

text \<open>The data part of \<open>migrate\<close>; creating tables, indexes and columns is the identity here.\<close>

definition migrate :: "int \<Rightarrow> database \<Rightarrow> database" where
  "migrate now d0 =
     (let d = migrateRepairLanes d0
      in d\<lparr>repair_revision := max (repair_revision d) (max_or_zero (map rrRevision (repair_queue d))),
           files := map (\<lambda>f. if Deleted f \<and> DeletedAt f = 0 then f\<lparr>DeletedAt := now\<rparr> else f) (files d)\<rparr>)"

definition migrateNames :: "(string \<Rightarrow> string) \<Rightarrow> database \<Rightarrow> (store_error, database) result" where
  "migrateNames nfc_fold d =
     (if row_of fst (node_meta d) ''portable_names_v1'' \<noteq> None then Inr d
      else result_bind
        (bind_all nfc_fold (map Name (sort_key Name (filter (\<lambda>f. Name f > []) (files d)))) (namespace_names d))
        (\<lambda>t. Inr (d\<lparr>namespace_names := t,
                    node_meta := node_meta d @ [(''portable_names_v1'', ''1'')]\<rparr>)))"

text \<open>\<open>fresh\<close> is the hexadecimal form of the sixteen random bytes.\<close>

definition loadOrCreateEpoch :: "string \<Rightarrow> database \<Rightarrow> string \<times> database" where
  "loadOrCreateEpoch fresh d =
     (case row_of fst (node_meta d) ''epoch'' of
        Some kv \<Rightarrow> if snd kv \<noteq> [] then (snd kv, d)
                   else (fresh, d\<lparr>node_meta := upsert fst (''epoch'', fresh) (node_meta d)\<rparr>)
      | None \<Rightarrow> (fresh, d\<lparr>node_meta := upsert fst (''epoch'', fresh) (node_meta d)\<rparr>))"

definition New ::
    "(string \<Rightarrow> string) \<Rightarrow> string option \<Rightarrow> int \<Rightarrow> string \<Rightarrow> string \<Rightarrow> database \<Rightarrow> (store_error, Store) result" where
  "New nfc_fold e now fresh_epoch nonce d0 =
     db_read e (result_bind (migrateNames nfc_fold (migrate now d0)) (\<lambda>d1.
       let maxVer = max (last_version d1) (max_or_zero (map Version (files d1)));
           d2 = d1\<lparr>last_version := maxVer\<rparr>;
           (ep, d3) = loadOrCreateEpoch fresh_epoch d2
       in Inr \<lparr> db = d3, cachedNextVer = maxVer + 1, epoch = ep,
                incarnation = ep @ ''-'' @ nonce, repairLimit = DefaultRepairLimit,
                statsCache = \<lparr> rsTotal = 0, rsDue = 0, rsOldestAgeMS = 0 \<rparr>, statsValid = False,
                statsGen = 0, queueSize = loadQueueSizes d2,
                quarantined = quarantine d3, damagedObjects = damaged_objects d3, integrityGen = 0,
                countVersion = 0, countValid = False, countCached = 0, enqueued = 0 \<rparr>))"

definition NodeValue :: "string option \<Rightarrow> Store \<Rightarrow> string \<Rightarrow> (store_error, string) result" where
  "NodeValue e s key = db_read e
     (Inr (case row_of fst (node_meta (db s)) key of None \<Rightarrow> [] | Some kv \<Rightarrow> snd kv))"

definition SetNodeValue ::
    "string option \<Rightarrow> Store \<Rightarrow> string \<Rightarrow> string \<Rightarrow> (store_error, unit) result \<times> Store" where
  "SetNodeValue e s key val = db_write e s
     (Inr (), s\<lparr>db := (db s)\<lparr>node_meta := upsert fst (key, val) (node_meta (db s))\<rparr>\<rparr>)"

text \<open>The names \<open>namespaceClock\<close> asks for: the name and its ancestors. The loop runs at most once
  per byte of the name.\<close>

fun dir_chain :: "nat \<Rightarrow> string \<Rightarrow> string list" where
  "dir_chain 0 p = [p]"
| "dir_chain (Suc n) p =
     (let parent = path_Dir p
      in if parent = ''.'' \<or> parent = p then [p] else p # dir_chain n parent)"

definition in_namespace :: "string \<Rightarrow> string \<Rightarrow> bool" where
  "in_namespace name x \<longleftrightarrow>
     x \<in> set (dir_chain (length name) name) \<or> (name @ ''/'' \<le> x \<and> x < name @ ''0'')"

text \<open>\<open>ORDER BY length(big_clock) DESC, big_clock DESC LIMIT 1\<close>.\<close>

definition longest_big_clock :: "string list \<Rightarrow> string" where
  "longest_big_clock bs =
     foldl (\<lambda>best b. if (length best, best) < (length b, b) then b else best) [] bs"

definition namespaceClock :: "FileMeta list \<Rightarrow> string \<Rightarrow> FileMeta option" where
  "namespaceClock rows name =
     (let sel = filter (\<lambda>r. in_namespace name (Name r)) rows
      in if sel = [] then None
         else Some (zero_meta\<lparr>Clock := max_or_zero (map StateClock sel),
                              BigClock := longest_big_clock (map BigClock sel)\<rparr>))"

definition commitPut ::
    "(string \<Rightarrow> string) \<Rightarrow> string option \<Rightarrow> int \<Rightarrow> Store \<Rightarrow> FileMeta \<Rightarrow> bool \<Rightarrow> (store_error, int) result \<times> Store" where
  "commitPut nfc_fold e now s meta local = db_write e s
     (case bindName nfc_fold (namespace_names (db s)) (Name meta) of
        Inl err \<Rightarrow> (Inl err, s)
      | Inr names \<Rightarrow>
          (case ValidateClock meta of
             Inl c \<Rightarrow> (Inl (ErrClock c), s)
           | Inr _ \<Rightarrow>
               let m = (if local then AdvanceClock meta (namespaceClock (files (db s)) (Name meta)) else meta);
                   ver = last_version (db s) + 1;
                   row = m\<lparr>Version := ver, DeletedAt := (if Deleted meta then now else 0)\<rparr>
               in (Inr ver,
                   s\<lparr>db := (db s)\<lparr>namespace_names := names, last_version := ver,
                        files := upsert Name row (files (db s)),
                        replica_intents := delete_key fst (Name meta) (replica_intents (db s))\<rparr>,
                     cachedNextVer := ver + 1\<rparr>)))"

definition PutLocal ::
    "(string \<Rightarrow> string) \<Rightarrow> string option \<Rightarrow> int \<Rightarrow> Store \<Rightarrow> FileMeta \<Rightarrow> (store_error, int) result \<times> Store" where
  "PutLocal nfc_fold e now s meta = commitPut nfc_fold e now s meta True"

definition PutRemote ::
    "(string \<Rightarrow> string) \<Rightarrow> string option \<Rightarrow> int \<Rightarrow> Store \<Rightarrow> FileMeta \<Rightarrow> (store_error, int) result \<times> Store" where
  "PutRemote nfc_fold e now s meta = commitPut nfc_fold e now s meta False"

definition PutFile ::
    "(string \<Rightarrow> string) \<Rightarrow> string option \<Rightarrow> int \<Rightarrow> Store \<Rightarrow> string \<Rightarrow> int \<Rightarrow> int \<Rightarrow> string \<Rightarrow> bool \<Rightarrow>
     (store_error, int) result \<times> Store" where
  "PutFile nfc_fold e now s name modTime size' hash deleted =
     commitPut nfc_fold e now s (zero_meta\<lparr>Name := name, ModTime := modTime, Size := size',
       Hash := hash, Deleted := deleted\<rparr>) False"

definition CheckName ::
    "(string \<Rightarrow> string) \<Rightarrow> string option \<Rightarrow> Store \<Rightarrow> string \<Rightarrow> (store_error, unit) result" where
  "CheckName nfc_fold e s name =
     (case nameParts nfc_fold name of
        Inl err \<Rightarrow> Inl err
      | Inr parts \<Rightarrow> db_read e (check_parts parts (namespace_names (db s))))"

definition GetFile :: "string option \<Rightarrow> Store \<Rightarrow> string \<Rightarrow> (store_error, FileMeta option) result" where
  "GetFile e s name = db_read e (Inr (row_of Name (files (db s)) name))"

definition GetChanges :: "string option \<Rightarrow> Store \<Rightarrow> int \<Rightarrow> int \<Rightarrow> (store_error, FileMeta list) result" where
  "GetChanges e s sinceVersion limit = db_read e
     (Inr (order_limit Version limit (filter (\<lambda>f. Version f > sinceVersion) (files (db s)))))"

definition ListManifest ::
    "string option \<Rightarrow> Store \<Rightarrow> string \<Rightarrow> int \<Rightarrow> (store_error, FileMeta list) result" where
  "ListManifest e s afterName limit = db_read e
     (Inr (order_limit Name limit (filter (\<lambda>f. Name f > afterName) (files (db s)))))"

definition ListNonDeleted ::
    "string option \<Rightarrow> Store \<Rightarrow> string \<Rightarrow> int \<Rightarrow> (store_error, FileMeta list) result" where
  "ListNonDeleted e s afterName limit = db_read e
     (Inr (order_limit Name limit (filter (\<lambda>f. \<not> Deleted f \<and> Name f > afterName) (files (db s)))))"

definition MaxVersion :: "Store \<Rightarrow> int" where
  "MaxVersion s = (if cachedNextVer s \<le> 1 then 0 else cachedNextVer s - 1)"

definition FileCount :: "string option \<Rightarrow> Store \<Rightarrow> (store_error, int) result \<times> Store" where
  "FileCount e s =
     (if countValid s \<and> countVersion s = MaxVersion s then (Inr (countCached s), s)
      else db_write e s
        (let count = int (length (filter (\<lambda>f. \<not> Deleted f) (files (db s))))
         in (Inr count, s\<lparr>countCached := count, countVersion := MaxVersion s, countValid := True\<rparr>)))"

definition ListLiveRange ::
    "string option \<Rightarrow> Store \<Rightarrow> string \<Rightarrow> string \<Rightarrow> string \<Rightarrow> int \<Rightarrow> (store_error, FileMeta list) result" where
  "ListLiveRange e s from until after limit =
     (if limit \<le> 0 \<or> limit > 10000 then Inl (ErrLiveRangeLimit limit)
      else db_read e (Inr (order_limit Name limit
        (filter (\<lambda>f. \<not> Deleted f \<and> (if after \<ge> from then Name f > after else Name f \<ge> from) \<and> Name f < until)
          (files (db s))))))"

definition GetPeerState :: "string option \<Rightarrow> Store \<Rightarrow> string \<Rightarrow> (store_error, PeerState) result" where
  "GetPeerState e s peer = db_read e
     (Inr (case row_of cuPeer (cursors (db s)) peer of
             None \<Rightarrow> \<lparr> psVersion = 0, psEpoch = [] \<rparr>
           | Some c \<Rightarrow> \<lparr> psVersion = cuLastVer c, psEpoch = cuEpoch c \<rparr>))"

definition SetPeerState ::
    "string option \<Rightarrow> Store \<Rightarrow> string \<Rightarrow> PeerState \<Rightarrow> (store_error, unit) result \<times> Store" where
  "SetPeerState e s peer ps = db_write e s
     (Inr (), s\<lparr>db := (db s)\<lparr>cursors := upsert cuPeer
        \<lparr> cuPeer = peer, cuLastVer = psVersion ps, cuEpoch = psEpoch ps \<rparr> (cursors (db s))\<rparr>\<rparr>)"

definition GetCursor :: "string option \<Rightarrow> Store \<Rightarrow> string \<Rightarrow> (store_error, int) result" where
  "GetCursor e s peer = result_bind (GetPeerState e s peer) (\<lambda>ps. Inr (psVersion ps))"

definition SetCursor :: "string option \<Rightarrow> Store \<Rightarrow> string \<Rightarrow> int \<Rightarrow> (store_error, unit) result \<times> Store" where
  "SetCursor e s peer version = db_write e s
     (Inr (), s\<lparr>db := (db s)\<lparr>cursors := upsert cuPeer
        \<lparr> cuPeer = peer, cuLastVer = version,
          cuEpoch = (case row_of cuPeer (cursors (db s)) peer of None \<Rightarrow> [] | Some c \<Rightarrow> cuEpoch c) \<rparr>
        (cursors (db s))\<rparr>\<rparr>)"

definition PerPeerKeyPrefix :: string where
  "PerPeerKeyPrefix = ''reconcile_position:''"

definition pruneNodeKeysLocked :: "string list \<Rightarrow> (string \<times> string) list \<Rightarrow> (string \<times> string) list" where
  "pruneNodeKeysLocked keep t =
     (let stale = map fst (filter (\<lambda>kv. sql_like (PerPeerKeyPrefix @ ''%'') (fst kv) \<and>
                             TrimPrefix (fst kv) PerPeerKeyPrefix \<notin> set keep) t)
      in foldl (\<lambda>t k. delete_key fst k t) t stale)"

text \<open>The two statements are separate: \<open>e1\<close> is the failure of the first, \<open>e2\<close> of the rest.\<close>

definition PruneCursors ::
    "string option \<Rightarrow> string option \<Rightarrow> Store \<Rightarrow> string list \<Rightarrow> (store_error, unit) result \<times> Store" where
  "PruneCursors e1 e2 s keep = db_write e1 s
     (let s1 = s\<lparr>db := (db s)\<lparr>cursors := filter (\<lambda>c. cuPeer c \<in> set keep) (cursors (db s))\<rparr>\<rparr>
      in db_write e2 s1
        (Inr (), s1\<lparr>db := (db s1)\<lparr>node_meta := pruneNodeKeysLocked keep (node_meta (db s1))\<rparr>\<rparr>))"

definition RecordAckEpoch ::
    "string option \<Rightarrow> int \<Rightarrow> Store \<Rightarrow> string \<Rightarrow> string \<Rightarrow> int \<Rightarrow> (store_error, unit) result \<times> Store" where
  "RecordAckEpoch e now s peer ep version =
     (if peer = [] then (Inr (), s)
      else db_write e s (Inr (), s\<lparr>db := (db s)\<lparr>peer_acks := upsert akPeer
        \<lparr> akPeer = peer, akVersion = version, akUpdatedAt = now, akEpoch = ep \<rparr> (peer_acks (db s))\<rparr>\<rparr>))"

definition RecordAck ::
    "string option \<Rightarrow> int \<Rightarrow> Store \<Rightarrow> string \<Rightarrow> int \<Rightarrow> (store_error, unit) result \<times> Store" where
  "RecordAck e now s peer version = RecordAckEpoch e now s peer [] version"

definition MinAckedVersion :: "string option \<Rightarrow> int \<Rightarrow> Store \<Rightarrow> int \<Rightarrow> (store_error, int) result" where
  "MinAckedVersion e now s staleAfter = db_read e
     (Inr (case filter (\<lambda>a. akUpdatedAt a \<ge> wrap64 (now - staleAfter)) (peer_acks (db s)) of
             [] \<Rightarrow> NoAckGate
           | a # as \<Rightarrow> foldl min (akVersion a) (map akVersion as)))"

definition PeerAcks :: "string option \<Rightarrow> Store \<Rightarrow> (store_error, (string \<times> int) list) result" where
  "PeerAcks e s = db_read e (Inr (map (\<lambda>a. (akPeer a, akVersion a)) (peer_acks (db s))))"

definition PurgeTombstones ::
    "string option \<Rightarrow> int \<Rightarrow> Store \<Rightarrow> int \<Rightarrow> int \<Rightarrow> (store_error, int) result \<times> Store" where
  "PurgeTombstones e now s ttl maxVersion = db_write e s
     (let gone = (\<lambda>f. Deleted f \<and> DeletedAt f < wrap64 (now - ttl) \<and> Version f \<le> maxVersion)
      in (Inr (int (length (filter gone (files (db s))))),
          s\<lparr>db := (db s)\<lparr>files := filter (\<lambda>f. \<not> gone f) (files (db s))\<rparr>\<rparr>))"

text \<open>The map \<open>GetFilesBatch\<close> returns holds the row of each requested name that has one.\<close>

definition GetFilesBatch ::
    "string option \<Rightarrow> Store \<Rightarrow> string list \<Rightarrow> (store_error, string \<Rightarrow> FileMeta option) result" where
  "GetFilesBatch e s names =
     (if names = [] then Inr (\<lambda>_. None)
      else db_read e (Inr (\<lambda>n. if n \<in> set names then row_of Name (files (db s)) n else None)))"

subsection \<open>Invariant\<close>

text \<open>What the database keeps between any two operations and across restarts, and what the
  in-memory fields add to it.\<close>

definition names_reserved :: "(string \<Rightarrow> string) \<Rightarrow> database \<Rightarrow> bool" where
  "names_reserved nfc_fold d \<longleftrightarrow>
     keyed fst (namespace_names d) \<and> (\<forall>f \<in> set (files d). reserved_in nfc_fold (namespace_names d) (Name f))"

definition files_inv :: "database \<Rightarrow> bool" where
  "files_inv d \<longleftrightarrow>
     keyed Name (files d) \<and> keyed Version (files d) \<and> 0 \<le> last_version d \<and>
     (\<forall>f \<in> set (files d). 0 < Version f \<and> Version f \<le> last_version d \<and> clock_ok f)"

definition live_count :: "database \<Rightarrow> int" where
  "live_count d = int (length (filter (\<lambda>f. \<not> Deleted f) (files d)))"

definition count_inv :: "Store \<Rightarrow> bool" where
  "count_inv s \<longleftrightarrow> cachedNextVer s = last_version (db s) + 1 \<and>
     (countValid s \<longrightarrow> countVersion s \<le> last_version (db s) \<and>
        (countVersion s = last_version (db s) \<longrightarrow> countCached s = live_count (db s)))"

definition files_ok :: "(string \<Rightarrow> string) \<Rightarrow> Store \<Rightarrow> bool" where
  "files_ok nfc_fold s \<longleftrightarrow> names_reserved nfc_fold (db s) \<and> files_inv (db s) \<and> count_inv s"

section \<open>Aggregates\<close>

lemma foldl_max_start: "a \<le> foldl max a xs" for a :: int
proof (induction xs arbitrary: a)
  case (Cons y xs)
  have "a \<le> max a y" by simp
  also have "\<dots> \<le> foldl max (max a y) xs" by (rule Cons)
  finally show ?case by simp
qed simp

lemma foldl_max_ge: "x \<in> insert a (set xs) \<Longrightarrow> x \<le> foldl max a xs" for x a :: int
proof (induction xs arbitrary: a)
  case (Cons y xs)
  show ?case
  proof (cases "x \<in> set xs")
    case True
    then show ?thesis using Cons.IH [of "max a y"] by simp
  next
    case False
    then have "x \<le> max a y" using Cons.prems by auto
    then show ?thesis using order_trans [OF _ foldl_max_start [of "max a y" xs]] by simp
  qed
qed simp

lemma foldl_max_mem: "foldl max a xs \<in> insert a (set xs)" for a :: int
proof (induction xs arbitrary: a)
  case (Cons y xs)
  then show ?case using Cons [of "max a y"] by (auto simp: max_def)
qed simp

lemma max_or_zero_ge: "x \<in> set xs \<Longrightarrow> x \<le> max_or_zero xs"
  using foldl_max_ge by (auto simp: max_or_zero_def split: list.splits)

lemma max_or_zero_mem: "xs \<noteq> [] \<Longrightarrow> max_or_zero xs \<in> set xs"
  using foldl_max_mem by (cases xs) (auto simp: max_or_zero_def)

lemma longest_big_clock_ge:
  "b \<in> set bs \<Longrightarrow> (length b, b) \<le> (length (longest_big_clock bs), longest_big_clock bs)"
  using foldl_pick_ge [of b "[]" bs "\<lambda>b. (length b, b)"]
  unfolding longest_big_clock_def pick_by_def by blast

lemma longest_big_clock_mem: "longest_big_clock bs \<in> insert [] (set bs)"
  using foldl_pick_mem [of "\<lambda>b. (length b, b)" "[]" bs]
  unfolding longest_big_clock_def pick_by_def .

section \<open>The namespace of a name\<close>

text \<open>The slash is the byte before the digit zero: the range of names from \<open>name/\<close> up to \<open>name0\<close>
  holds exactly the names below \<open>name\<close>.\<close>

lemma range_descendants: "n @ ''/'' \<le> x \<and> x < n @ ''0'' \<longleftrightarrow> HasPrefix x (n @ ''/'')"
proof (induction n arbitrary: x)
  case Nil
  have "c = CHR ''/''" if "CHR ''/'' \<le> c" "c < CHR ''0''" for c
  proof -
    have "(of_char c :: nat) = 47" using that by (simp add: less_eq_char_def less_char_def)
    then have "c = char_of (47 :: nat)" by (metis char_of_char)
    then show ?thesis by (simp add: char_of_def bit_0)
  qed
  then have *: "CHR ''/'' < c \<Longrightarrow> \<not> c < CHR ''0''" for c using less_imp_le by blast
  show ?case
  proof (cases x)
    case (Cons c r)
    have "CHR ''/'' < CHR ''0''" by (simp add: less_char_def)
    then show ?thesis using * [of c] by (auto simp: Cons HasPrefix_def)
  qed (simp add: HasPrefix_def)
next
  case IH: (Cons a n)
  show ?case
  proof (cases x)
    case (Cons c r)
    then show ?thesis using IH [of r] by (auto simp: HasPrefix_def)
  qed (simp add: HasPrefix_def)
qed

lemma ancestors_step:
  assumes "CHR ''/'' \<notin> set b"
  shows "HasPrefix (a @ ''/'' @ b) (x @ ''/'') \<longleftrightarrow> x = a \<or> HasPrefix a (x @ ''/'')"
proof
  assume "HasPrefix (a @ ''/'' @ b) (x @ ''/'')"
  then obtain r where r: "x @ ''/'' @ r = a @ ''/'' @ b" by (auto simp: HasPrefix_def prefix_def)
  then obtain us where us: "x = a @ us \<and> us @ ''/'' @ r = ''/'' @ b \<or> x @ us = a \<and> ''/'' @ r = us @ ''/'' @ b"
    unfolding append_eq_append_conv2 by blast
  show "x = a \<or> HasPrefix a (x @ ''/'')"
  proof (cases us)
    case (Cons c cs)
    have "c = CHR ''/''" using us Cons by auto
    moreover have "\<not> (x = a @ us \<and> us @ ''/'' @ r = ''/'' @ b)"
      using Cons assms by auto
    ultimately have "a = (x @ ''/'') @ cs" using us Cons by auto
    then show ?thesis by (simp add: HasPrefix_def prefix_def)
  next
    case Nil
    then show ?thesis using us by simp
  qed
next
  assume "x = a \<or> HasPrefix a (x @ ''/'')"
  then show "HasPrefix (a @ ''/'' @ b) (x @ ''/'')"
    unfolding HasPrefix_def by (elim disjE) (simp_all add: prefix_prefix)
qed

lemma dir_chain_canonical:
  "canonical_name n \<Longrightarrow> length n \<le> fuel \<Longrightarrow>
   set (dir_chain fuel n) = insert n {x. HasPrefix n (x @ ''/'')}"
proof (induction fuel arbitrary: n)
  case 0
  then show ?case by (simp add: canonical_nonempty)
next
  case (Suc fuel)
  from \<open>canonical_name n\<close> show ?case
  proof (cases rule: canonical_cases)
    case 1
    then have "{x. HasPrefix n (x @ ''/'')} = {}" by (auto simp: HasPrefix_def prefix_def)
    then show ?thesis using 1 by (simp add: path_Dir_top)
  next
    case (2 a b)
    have d: "path_Dir n = a" using 2 path_Dir_step [of b a] by simp
    have "a \<noteq> n" using 2 by simp
    moreover have "a \<noteq> ''.''" using 2 by (auto simp: canonical_name_def good_part_def)
    ultimately have "dir_chain (Suc fuel) n = n # dir_chain fuel a" by (simp add: d Let_def)
    moreover have "set (dir_chain fuel a) = insert a {x. HasPrefix a (x @ ''/'')}"
      using Suc 2 by simp
    ultimately show ?thesis using 2 ancestors_step [of b a] by auto
  qed
qed

lemma in_namespace_iff:
  "canonical_name n \<Longrightarrow> in_namespace n x \<longleftrightarrow> x = n \<or> NamespaceConflict n x"
  using range_descendants [of n x] dir_chain_canonical [of n "length n"]
  by (auto simp: in_namespace_def NamespaceConflict_def)

text \<open>The clock \<open>namespaceClock\<close> returns is valid and at least that of every row it ranges over.\<close>

lemma namespaceClock_dominates:
  assumes rows: "\<forall>r \<in> set rows. clock_ok r"
    and p: "namespaceClock rows name = Some p"
  shows "clock_ok p"
    and "r \<in> set rows \<Longrightarrow> in_namespace name (Name r) \<Longrightarrow> clock_value r \<le> clock_value p"
proof -
  define sel where "sel = filter (\<lambda>r. in_namespace name (Name r)) rows"
  have ne: "sel \<noteq> []" and pdef: "p = zero_meta\<lparr>Clock := max_or_zero (map StateClock sel),
      BigClock := longest_big_clock (map BigClock sel)\<rparr>"
    using p by (auto simp: namespaceClock_def sel_def Let_def split: if_splits)
  have ok: "clock_ok r" if "r \<in> set sel" for r using rows that by (simp add: sel_def)
  define c where "c = max_or_zero (map StateClock sel)"
  define big where "big = longest_big_clock (map BigClock sel)"
  have pf: "Clock p = c" "ModTime p = 0" "BigClock p = big"
    by (simp_all add: pdef zero_meta_def c_def big_def)
  obtain rc where rc: "rc \<in> set sel" "c = StateClock rc"
    using max_or_zero_mem [of "map StateClock sel"] ne by (auto simp: c_def)
  have c64: "in_int64 c" using StateClock_int64 [OF ok] rc by simp
  have cmax: "StateClock r \<le> c" if "r \<in> set sel" for r
    using max_or_zero_ge [of "StateClock r" "map StateClock sel"] that by (simp add: c_def)
  show okp: "clock_ok p"
  proof (cases "big = []")
    case True
    then show ?thesis using pf c64 by (simp add: clock_ok_def ValidateClock_def in_int64_def)
  next
    case False
    then obtain rb where rb: "rb \<in> set sel" "BigClock rb = big"
      using longest_big_clock_mem [of "map BigClock sel"] by (auto simp: big_def)
    have v: "is_ok (ValidateClock rb)" "Clock rb = MaxInt64"
      using ok [OF rb(1)] ValidateClock_big [of rb] False rb(2) by (auto simp: clock_ok_def)
    then have "c = MaxInt64"
      using cmax [OF rb(1)] c64 by (simp add: StateClock_def in_int64_def)
    then have "ValidateClock p = ValidateClock rb"
      using v rb(2) pf by (simp add: ValidateClock_def)
    then show ?thesis using v pf c64 by (simp add: clock_ok_def in_int64_def)
  qed
  show "clock_value r \<le> clock_value p" if "r \<in> set rows" "in_namespace name (Name r)"
  proof -
    have r: "r \<in> set sel" using that by (simp add: sel_def)
    have "(length (BigClock r), BigClock r) \<le> (length big, big)"
      using longest_big_clock_ge [of "BigClock r" "map BigClock sel"] r by (simp add: big_def)
    moreover have "StateClock p = c" using pf by (simp add: StateClock_def)
    ultimately have "clock_rank r \<le> clock_rank p"
      using cmax [OF r] pf by (auto simp: clock_rank_def)
    then have "CompareClock r p \<le> 0" by (simp add: CompareClock_rank)
    then show ?thesis using CompareClock_value [OF ok [OF r] okp] by simp
  qed
qed

section \<open>Writing a file state\<close>

lemma commitPut_cases:
  assumes "commitPut nfc_fold e now s meta local = (r, s')"
  obtains (fail) err where "r = Inl err" "s' = s"
    | (ok) names m row ver where "e = None" "r = Inr ver" "ver = last_version (db s) + 1"
        "bindName nfc_fold (namespace_names (db s)) (Name meta) = Inr names"
        "is_ok (ValidateClock meta)"
        "m = (if local then AdvanceClock meta (namespaceClock (files (db s)) (Name meta)) else meta)"
        "row = m\<lparr>Version := ver, DeletedAt := (if Deleted meta then now else 0)\<rparr>"
        "s' = s\<lparr>db := (db s)\<lparr>namespace_names := names, last_version := ver,
                  files := upsert Name row (files (db s)),
                  replica_intents := delete_key fst (Name meta) (replica_intents (db s))\<rparr>,
               cachedNextVer := ver + 1\<rparr>"
  using assms
  by (auto simp: commitPut_def db_write_def Let_def split: option.splits sum.splits)

lemma AdvanceClock_Name [simp]:
  "Name (AdvanceClock f p) = Name f" "ModTime (AdvanceClock f p) = ModTime f"
  "Deleted (AdvanceClock f p) = Deleted f" "Hash (AdvanceClock f p) = Hash f"
  "Size (AdvanceClock f p) = Size f" "SupersededBy (AdvanceClock f p) = SupersededBy f"
  "ConflictOf (AdvanceClock f p) = ConflictOf f"
  by (subst AdvanceClock_fields, simp)+

lemma clock_ok_local_fields [simp]:
  "clock_ok (m\<lparr>Version := v, DeletedAt := d\<rparr>) = clock_ok m"
  "clock_value (m\<lparr>Version := v, DeletedAt := d\<rparr>) = clock_value m"
  by (simp_all add: clock_ok_def ValidateClock_def clock_value_def StateClock_def)

lemma AdvanceClock_namespace:
  assumes "\<forall>r \<in> set rows. clock_ok r" "clock_ok meta"
  shows "clock_ok (AdvanceClock meta (namespaceClock rows (Name meta)))"
    and "r \<in> set rows \<Longrightarrow> in_namespace (Name meta) (Name r) \<Longrightarrow>
      clock_value r < clock_value (AdvanceClock meta (namespaceClock rows (Name meta)))"
proof -
  show "clock_ok (AdvanceClock meta (namespaceClock rows (Name meta)))"
    using AdvanceClock_base(1) AdvanceClock_next(1) namespaceClock_dominates(1) assms
    by (cases "namespaceClock rows (Name meta)") auto
  assume r: "r \<in> set rows" "in_namespace (Name meta) (Name r)"
  then have "namespaceClock rows (Name meta) \<noteq> None"
    by (auto simp: namespaceClock_def Let_def filter_empty_conv)
  then obtain p where p: "namespaceClock rows (Name meta) = Some p" by blast
  show "clock_value r < clock_value (AdvanceClock meta (namespaceClock rows (Name meta)))"
    using namespaceClock_dominates [OF assms(1) p] r AdvanceClock_next(2) [OF assms(2)] p
    by (auto simp: less_max_iff_disj)
qed

lemma files_inv_upsert:
  assumes "files_inv d" "clock_ok row" "Version row = last_version d + 1"
  shows "files_inv (d\<lparr>last_version := last_version d + 1, files := upsert Name row (files d)\<rparr>)"
proof -
  have rows: "x \<in> set (upsert Name row (files d)) \<Longrightarrow> x = row \<or> x \<in> set (files d)" for x
    using set_upsert_subset [of Name row "files d"] by blast
  have below: "x \<in> set (files d) \<Longrightarrow> Version x < Version row" for x
    using assms by (auto simp: files_inv_def)
  have "keyed Version t \<Longrightarrow> \<forall>x \<in> set t. Version x < Version row \<Longrightarrow> keyed Version (upsert Name row t)" for t
  proof (induction t)
    case (Cons x t)
    then show ?case using set_upsert_subset [of Name row t] by (fastforce simp: keyed_def)
  qed (simp add: keyed_def)
  then have "keyed Version (upsert Name row (files d))"
    using below assms(1) by (simp add: files_inv_def)
  then show ?thesis
    using assms rows by (fastforce simp: files_inv_def keyed_upsert)
qed

lemma names_reserved_upsert:
  assumes "names_reserved nfc_fold d"
    "bindName nfc_fold (namespace_names d) (Name row) = Inr names"
  shows "names_reserved nfc_fold (d\<lparr>namespace_names := names, files := upsert Name row (files d)\<rparr>)"
  using assms set_upsert_subset [of Name row "files d"] keyed_bindName [OF assms(2)]
    bindName_reserves [OF assms(2)] bindName_keeps [OF assms(2)]
  by (auto simp: names_reserved_def)

lemma commitPut_row:
  assumes "commitPut nfc_fold e now s meta local = (Inr ver, s')"
  shows "\<exists>row. row_of Name (files (db s')) (Name meta) = Some row \<and> Version row = ver \<and>
     Hash row = Hash meta \<and> ModTime row = ModTime meta \<and> Size row = Size meta \<and>
     Deleted row = Deleted meta \<and> SupersededBy row = SupersededBy meta \<and>
     ConflictOf row = ConflictOf meta \<and>
     (\<not> local \<longrightarrow> Clock row = Clock meta \<and> BigClock row = BigClock meta)"
    and "n \<noteq> Name meta \<Longrightarrow> row_of Name (files (db s')) n = row_of Name (files (db s)) n"
  using assms by (auto elim!: commitPut_cases simp: row_of_upsert)

lemma commitPut_files_ok:
  assumes put: "commitPut nfc_fold e now s meta local = (r, s')"
    and s: "files_ok nfc_fold s" and m: "clock_ok meta"
  shows "files_ok nfc_fold s'"
  using put
proof (cases rule: commitPut_cases)
  case (ok names mm row ver)
  let ?d = "db s"
  have rows: "\<forall>x \<in> set (files ?d). clock_ok x" using s by (auto simp: files_ok_def files_inv_def)
  have "clock_ok mm" using ok AdvanceClock_namespace(1) [OF rows m] m by simp
  then have row: "clock_ok row" "Version row = last_version ?d + 1" "Name row = Name meta"
    using ok by auto
  have "files_inv (?d\<lparr>last_version := last_version ?d + 1, files := upsert Name row (files ?d)\<rparr>)"
    by (rule files_inv_upsert) (use s row in \<open>auto simp: files_ok_def\<close>)
  moreover have "names_reserved nfc_fold (?d\<lparr>namespace_names := names, files := upsert Name row (files ?d)\<rparr>)"
    by (rule names_reserved_upsert) (use s row ok in \<open>auto simp: files_ok_def\<close>)
  ultimately show ?thesis
    using ok s by (auto simp: files_ok_def files_inv_def names_reserved_def count_inv_def)
qed (use s in simp)

section \<open>Queries\<close>

lemma files_ok_keyed: "files_ok nfc_fold s \<Longrightarrow> keyed Name (files (db s))"
  "files_ok nfc_fold s \<Longrightarrow> keyed Version (files (db s))"
  by (auto simp: files_ok_def files_inv_def)

interpretation changes: paged_query "\<lambda>s. keyed Version (files (db s))" "\<lambda>s. files (db s)" Version
    "\<lambda>s n a. rows_or_nil (GetChanges None s a n)"
  by unfold_locales
    (auto simp: GetChanges_def db_read_def rows_or_nil_def order_limit_def sql_limit_def
      sort_key_filter keyed_def)

interpretation manifest: paged_query "\<lambda>s. keyed Name (files (db s))" "\<lambda>s. files (db s)" Name
    "\<lambda>s n a. rows_or_nil (ListManifest None s a n)"
  by unfold_locales
    (auto simp: ListManifest_def db_read_def rows_or_nil_def order_limit_def sql_limit_def
      sort_key_filter keyed_def)

interpretation live_names: paged_query "\<lambda>s. keyed Name (files (db s))"
    "\<lambda>s. filter (\<lambda>f. \<not> Deleted f) (files (db s))" Name
    "\<lambda>s n a. rows_or_nil (ListNonDeleted None s a n)"
  by unfold_locales
    (auto simp: ListNonDeleted_def db_read_def rows_or_nil_def order_limit_def sql_limit_def
      sort_key_filter keyed_def filter_filter conj_commute distinct_map_filter)

lemma FileCount_inv:
  assumes "count_inv s" "0 \<le> last_version (db s)"
  shows "count_inv (snd (FileCount e s))"
    and "fst (FileCount e s) = Inr c \<Longrightarrow> c = live_count (db s)"
    and "db (snd (FileCount e s)) = db s"
proof -
  have mv: "MaxVersion s = last_version (db s)"
    using assms by (simp add: MaxVersion_def count_inv_def)
  show "count_inv (snd (FileCount e s))"
    using assms mv by (auto simp: FileCount_def db_write_def count_inv_def live_count_def Let_def
        split: option.split)
  show "fst (FileCount e s) = Inr c \<Longrightarrow> c = live_count (db s)"
    using assms mv by (auto simp: FileCount_def db_write_def count_inv_def live_count_def Let_def
        split: option.splits if_splits)
  show "db (snd (FileCount e s)) = db s"
    by (simp add: FileCount_def db_write_def Let_def split: option.split)
qed

lemma live_count_filter:
  "(\<And>f. f \<in> set (files d) \<Longrightarrow> \<not> Deleted f \<Longrightarrow> Q f) \<Longrightarrow>
   live_count (d\<lparr>files := filter Q (files d)\<rparr>) = live_count d"
  by (simp add: live_count_def) (rule arg_cong [where f = length], auto intro: filter_cong)

lemma PurgeTombstones_files_ok:
  assumes "files_ok nfc_fold s"
  shows "files_ok nfc_fold (snd (PurgeTombstones e now s ttl maxVersion))"
  using assms
  by (auto simp: PurgeTombstones_def db_write_def files_ok_def files_inv_def names_reserved_def
      count_inv_def keyed_filter live_count_filter Let_def split: option.split)

text \<open>The prefix pattern matches exactly the keys of stream positions, up to letter case and the
  wildcard in the prefix itself.\<close>

lemma delete_keys_filter:
  "foldl (\<lambda>t k. delete_key fst k t) t ks = filter (\<lambda>kv. fst kv \<notin> set ks) t"
  by (induction ks arbitrary: t) (auto simp: delete_key_def filter_filter intro: filter_cong)

lemma pruneNodeKeysLocked_filter:
  "pruneNodeKeysLocked keep t = filter (\<lambda>kv. \<not> (\<exists>kv' \<in> set t. fst kv' = fst kv \<and>
     sql_like (PerPeerKeyPrefix @ ''%'') (fst kv') \<and> TrimPrefix (fst kv') PerPeerKeyPrefix \<notin> set keep)) t"
  by (auto simp: pruneNodeKeysLocked_def delete_keys_filter intro!: filter_cong)

end
