(* ===== verification/Repair_Queue.thy ===== *)
theory Repair_Queue
  imports Store
begin

text \<open>
  The durable repair queue of the store (store.go from \<open>EnqueueRepair\<close> to \<open>PendingRepairCount\<close>): one
  row per peer and name holding the newest state seen from that peer, a revision per write, a
  retry schedule, two lanes by size, and the counters kept beside it. The JSON column
  \<open>metadata\<close> holds the state without its node-local field; decoding gives it back.
\<close>

section \<open>Definitions\<close>

record RepairItem =
  riPeer :: string
  riName :: string
  riVersion :: int
  riAttempts :: int
  riFirstSeen :: int
  riLastError :: string
  riRevision :: int
  riMeta :: "FileMeta option"

record queuedChange =
  qcName :: string
  qcVersion :: int
  qcMeta :: "FileMeta option"

definition rr_key :: "repair_row \<Rightarrow> string \<times> string" where
  "rr_key r = (rrPeer r, rrName r)"

text \<open>\<open>json.Unmarshal\<close> of \<open>json.Marshal\<close>: the field tagged \<open>json:"-"\<close> is lost.\<close>

definition json_meta :: "FileMeta \<Rightarrow> FileMeta" where
  "json_meta m = m\<lparr>DeletedAt := 0\<rparr>"

definition IsLargeRepair :: "FileMeta option \<Rightarrow> bool" where
  "IsLargeRepair meta = (case meta of None \<Rightarrow> False | Some m \<Rightarrow> \<not> Deleted m \<and> Size m \<ge> LargeRepairBytes)"

definition invalidateQueueStats :: "Store \<Rightarrow> Store" where
  "invalidateQueueStats s = s\<lparr>statsGen := statsGen s + 1, statsValid := False\<rparr>"

text \<open>The row the prepared upsert leaves: a new row starts its schedule now, an existing one keeps
  its schedule and the higher version.\<close>

definition queue_row ::
    "string \<Rightarrow> string \<Rightarrow> int \<Rightarrow> queuedChange \<Rightarrow> FileMeta option \<Rightarrow> int \<Rightarrow> bool \<Rightarrow> repair_row option \<Rightarrow> repair_row" where
  "queue_row peer reason now change encoded revision large old =
     (case old of
        None \<Rightarrow> \<lparr> rrPeer = peer, rrName = qcName change, rrVersion = qcVersion change, rrAttempts = 0,
                  rrNextAttempt = now, rrFirstSeen = now, rrLastError = reason, rrMeta = encoded,
                  rrRevision = revision, rrLarge = large \<rparr>
      | Some r \<Rightarrow> r\<lparr>rrVersion := max (rrVersion r) (qcVersion change), rrMeta := encoded,
                    rrRevision := revision, rrLastError := reason, rrLarge := large\<rparr>)"

record enqueue_state =
  eqRows :: "repair_row list"
  eqRevision :: int
  eqFresh :: int
  eqWritten :: int
  eqFull :: "store_error option"

fun enqueue_loop ::
    "string \<Rightarrow> string \<Rightarrow> int \<Rightarrow> int \<Rightarrow> int \<Rightarrow> queuedChange list \<Rightarrow> enqueue_state \<Rightarrow> enqueue_state" where
  "enqueue_loop peer reason now limit queued [] st = st"
| "enqueue_loop peer reason now limit queued (change # batch) st =
     (let old = row_of rr_key (eqRows st) (peer, qcName change);
          isNew = (old = None)
      in if isNew \<and> limit > 0 \<and> queued + eqFresh st \<ge> limit
         then st\<lparr>eqFull := Some (ErrRepairQueueFull peer (queued + eqFresh st))\<rparr>
         else
           let kept = (case old of None \<Rightarrow> None | Some r \<Rightarrow> rrMeta r)
           in if qcMeta change \<noteq> None \<and> kept \<noteq> None \<and> CompareState (qcMeta change) kept \<le> 0
              then enqueue_loop peer reason now limit queued batch st
              else
                let encoded = (if qcMeta change \<noteq> None then map_option json_meta (qcMeta change) else kept);
                    kept' = (if qcMeta change \<noteq> None then qcMeta change else kept);
                    revision = eqRevision st + 1;
                    row = queue_row peer reason now change encoded revision (IsLargeRepair kept') old
                in enqueue_loop peer reason now limit queued batch
                     (st\<lparr>eqRows := upsert rr_key row (eqRows st), eqRevision := revision,
                         eqWritten := eqWritten st + 1,
                         eqFresh := eqFresh st + (if isNew then 1 else 0)\<rparr>))"

definition enqueue_start :: "Store \<Rightarrow> enqueue_state" where
  "enqueue_start s = \<lparr> eqRows = repair_queue (db s), eqRevision = repair_revision (db s),
     eqFresh = 0, eqWritten = 0, eqFull = None \<rparr>"

text \<open>The Go method returns a count together with an error: the count of rows written and the error
  that stopped the batch.\<close>

definition enqueue ::
    "string option \<Rightarrow> int \<Rightarrow> Store \<Rightarrow> string \<Rightarrow> string \<Rightarrow> queuedChange list \<Rightarrow> (int \<times> store_error option) \<times> Store" where
  "enqueue e now s peer reason batch =
     (if batch = [] then ((0, None), s)
      else case e of
        Some x \<Rightarrow> ((0, Some (ErrDB x)), s)
      | None \<Rightarrow>
          let st = enqueue_loop peer reason now (repairLimit s) (queuedFor s peer) batch (enqueue_start s)
          in if eqWritten st = 0 then ((0, eqFull st), s)
             else
               let s1 = s\<lparr>db := (db s)\<lparr>repair_queue := eqRows st, repair_revision := eqRevision st\<rparr>,
                          enqueued := enqueued s + eqWritten st\<rparr>;
                   s2 = (if eqFresh st > 0 then addQueueSize s1 peer (eqFresh st) else invalidateQueueStats s1)
               in ((eqWritten st, eqFull st), s2))"

definition enqueueRepair ::
    "string option \<Rightarrow> int \<Rightarrow> Store \<Rightarrow> string \<Rightarrow> string \<Rightarrow> int \<Rightarrow> string \<Rightarrow> FileMeta option \<Rightarrow> store_error option \<times> Store" where
  "enqueueRepair e now s peer name version reason meta =
     (let ((_, err), s') = enqueue e now s peer reason [\<lparr> qcName = name, qcVersion = version, qcMeta = meta \<rparr>]
      in (err, s'))"

definition EnqueueRepair ::
    "string option \<Rightarrow> int \<Rightarrow> Store \<Rightarrow> string \<Rightarrow> string \<Rightarrow> int \<Rightarrow> string \<Rightarrow> store_error option \<times> Store" where
  "EnqueueRepair e now s peer name version reason = enqueueRepair e now s peer name version reason None"

definition EnqueueChange ::
    "string option \<Rightarrow> int \<Rightarrow> Store \<Rightarrow> string \<Rightarrow> FileMeta \<Rightarrow> string \<Rightarrow> store_error option \<times> Store" where
  "EnqueueChange e now s peer meta reason =
     enqueueRepair e now s peer (Name meta) (Version meta) reason (Some meta)"

definition change_of :: "FileMeta \<Rightarrow> queuedChange" where
  "change_of m = \<lparr> qcName = Name m, qcVersion = Version m, qcMeta = Some m \<rparr>"

definition EnqueueChanges ::
    "string option \<Rightarrow> int \<Rightarrow> Store \<Rightarrow> string \<Rightarrow> FileMeta list \<Rightarrow> string \<Rightarrow> (int \<times> store_error option) \<times> Store" where
  "EnqueueChanges e now s peer metas reason = enqueue e now s peer reason (map change_of metas)"

definition item_of_row :: "repair_row \<Rightarrow> RepairItem" where
  "item_of_row r = \<lparr> riPeer = rrPeer r, riName = rrName r, riVersion = rrVersion r,
     riAttempts = rrAttempts r, riFirstSeen = rrFirstSeen r, riLastError = rrLastError r,
     riRevision = rrRevision r, riMeta = rrMeta r \<rparr>"

definition DueRepairs ::
    "string option \<Rightarrow> int \<Rightarrow> Store \<Rightarrow> string \<Rightarrow> int \<Rightarrow> (store_error, RepairItem list) result" where
  "DueRepairs e now s peer limit = db_read e
     (Inr (map item_of_row (order_limit rrNextAttempt limit
       (filter (\<lambda>r. rrPeer r = peer \<and> rrNextAttempt r \<le> now) (repair_queue (db s))))))"

definition DueRepairsInLane ::
    "string option \<Rightarrow> int \<Rightarrow> Store \<Rightarrow> string \<Rightarrow> bool \<Rightarrow> int \<Rightarrow> (store_error, RepairItem list) result" where
  "DueRepairsInLane e now s peer large limit = db_read e
     (Inr (map item_of_row (order_limit rrNextAttempt limit
       (filter (\<lambda>r. rrPeer r = peer \<and> rrLarge r = large \<and> rrNextAttempt r \<le> now) (repair_queue (db s))))))"

text \<open>The statements of at most 500 names each; the map is the set of names found.\<close>

fun queued_chunks :: "nat \<Rightarrow> repair_row list \<Rightarrow> string list \<Rightarrow> string list" where
  "queued_chunks 0 rows names = []"
| "queued_chunks (Suc n) rows names =
     (if names = [] then []
      else remdups (map rrName (filter (\<lambda>r. rrName r \<in> set (take 500 names)) rows))
           @ queued_chunks n rows (drop 500 names))"

definition QueuedNames :: "string option \<Rightarrow> Store \<Rightarrow> string list \<Rightarrow> (store_error, string list) result" where
  "QueuedNames e s names = db_read e (Inr (queued_chunks (length names) (repair_queue (db s)) names))"

definition delete_rows :: "(repair_row \<Rightarrow> bool) \<Rightarrow> string option \<Rightarrow> Store \<Rightarrow> string \<Rightarrow> (store_error, unit) result \<times> Store" where
  "delete_rows P e s peer =
     (case e of
        Some x \<Rightarrow> (Inl (ErrDB x), addQueueSize s peer 0)
      | None \<Rightarrow>
          let removed = int (length (filter P (repair_queue (db s))))
          in (Inr (), addQueueSize
                (s\<lparr>db := (db s)\<lparr>repair_queue := filter (\<lambda>r. \<not> P r) (repair_queue (db s))\<rparr>\<rparr>)
                peer (- removed)))"

definition ResolveRepair ::
    "string option \<Rightarrow> Store \<Rightarrow> string \<Rightarrow> string \<Rightarrow> (store_error, unit) result \<times> Store" where
  "ResolveRepair e s peer name = delete_rows (\<lambda>r. rrPeer r = peer \<and> rrName r = name) e s peer"

definition ResolveRepairItem ::
    "string option \<Rightarrow> Store \<Rightarrow> RepairItem \<Rightarrow> (store_error, unit) result \<times> Store" where
  "ResolveRepairItem e s item =
     delete_rows (\<lambda>r. rrPeer r = riPeer item \<and> rrName r = riName item \<and> rrRevision r = riRevision item)
       e s (riPeer item)"

definition defer_rows ::
    "(repair_row \<Rightarrow> bool) \<Rightarrow> string option \<Rightarrow> int \<Rightarrow> Store \<Rightarrow> int \<Rightarrow> string \<Rightarrow> (store_error, unit) result \<times> Store" where
  "defer_rows P e now s retryAfter cause =
     (case e of
        Some x \<Rightarrow> (Inl (ErrDB x), invalidateQueueStats s)
      | None \<Rightarrow> (Inr (), invalidateQueueStats (s\<lparr>db := (db s)\<lparr>repair_queue :=
          map (\<lambda>r. if P r then r\<lparr>rrAttempts := rrAttempts r + 1,
                                 rrNextAttempt := wrap64 (now + retryAfter), rrLastError := cause\<rparr> else r)
            (repair_queue (db s))\<rparr>\<rparr>)))"

definition DeferRepair ::
    "string option \<Rightarrow> int \<Rightarrow> Store \<Rightarrow> string \<Rightarrow> string \<Rightarrow> int \<Rightarrow> string \<Rightarrow> (store_error, unit) result \<times> Store" where
  "DeferRepair e now s peer name retryAfter cause =
     defer_rows (\<lambda>r. rrPeer r = peer \<and> rrName r = name) e now s retryAfter cause"

definition DeferRepairItem ::
    "string option \<Rightarrow> int \<Rightarrow> Store \<Rightarrow> RepairItem \<Rightarrow> int \<Rightarrow> string \<Rightarrow> (store_error, unit) result \<times> Store" where
  "DeferRepairItem e now s item retryAfter cause =
     defer_rows (\<lambda>r. rrPeer r = riPeer item \<and> rrName r = riName item \<and> rrRevision r = riRevision item)
       e now s retryAfter cause"

text \<open>Go's integer division truncates towards zero.\<close>

definition go_div :: "int \<Rightarrow> int \<Rightarrow> int" where
  "go_div a b = (if (a < 0) = (b < 0) then \<bar>a\<bar> div \<bar>b\<bar> else - (\<bar>a\<bar> div \<bar>b\<bar>))"

definition queryRepairStats :: "int \<Rightarrow> database \<Rightarrow> RepairStats" where
  "queryRepairStats now d =
     (let q = repair_queue d
      in \<lparr> rsTotal = int (length q),
           rsDue = int (length (filter (\<lambda>r. rrNextAttempt r \<le> now) q)),
           rsOldestAgeMS = (case map rrFirstSeen q of
                              [] \<Rightarrow> 0
                            | x # xs \<Rightarrow> go_div (wrap64 (now - foldl min x xs)) 1000000) \<rparr>)"

definition RepairQueueStats ::
    "string option \<Rightarrow> int \<Rightarrow> Store \<Rightarrow> (store_error, RepairStats) result \<times> Store" where
  "RepairQueueStats e now s =
     (if statsValid s then (Inr (statsCache s), s)
      else db_write e s
        (let st = queryRepairStats now (db s) in (Inr st, s\<lparr>statsCache := st, statsValid := True\<rparr>)))"

definition PendingRepairCount :: "Store \<Rightarrow> string \<Rightarrow> int" where
  "PendingRepairCount s peer = queuedFor s peer"

subsection \<open>Invariant\<close>

definition queue_count :: "repair_row list \<Rightarrow> string \<Rightarrow> int" where
  "queue_count q p = int (length (filter (\<lambda>r. rrPeer r = p) q))"

text \<open>The queue holds a state of the name from the peer that is at least as new.\<close>

definition holds_at_least :: "repair_row list \<Rightarrow> string \<Rightarrow> FileMeta \<Rightarrow> bool" where
  "holds_at_least q peer m \<longleftrightarrow>
     (\<exists>r k. row_of rr_key q (peer, Name m) = Some r \<and> rrMeta r = Some k \<and> 0 \<le> CompareState (Some k) (Some m))"

definition queue_db_inv :: "database \<Rightarrow> bool" where
  "queue_db_inv d \<longleftrightarrow> keyed rr_key (repair_queue d) \<and>
     (\<forall>r \<in> set (repair_queue d). rrRevision r \<le> repair_revision d)"

definition queue_ok :: "Store \<Rightarrow> bool" where
  "queue_ok s \<longleftrightarrow> queue_db_inv (db s) \<and> (\<forall>p. queueSize s p = queue_count (repair_queue (db s)) p)"

section \<open>The enqueue loop\<close>

lemma queue_row_key:
  "old = None \<or> rr_key (the old) = (peer, qcName change) \<Longrightarrow>
   rr_key (queue_row peer reason now change encoded rv large old) = (peer, qcName change)"
  by (cases old) (simp_all add: queue_row_def rr_key_def)

lemma queue_row_fields [simp]:
  "rrMeta (queue_row peer reason now change encoded rv large old) = encoded"
  "rrRevision (queue_row peer reason now change encoded rv large old) = rv"
  by (auto simp: queue_row_def split: option.split)

text \<open>One iteration of the loop stops at the cap, leaves the row as it is, or writes it.\<close>

lemma enqueue_loop_rule [case_names Nil Full Skip Write]:
  fixes P :: "queuedChange list \<Rightarrow> enqueue_state \<Rightarrow> enqueue_state \<Rightarrow> bool"
  assumes nil: "\<And>st. P [] st st"
    and full: "\<And>change batch st. row_of rr_key (eqRows st) (peer, qcName change) = None \<Longrightarrow>
      limit > 0 \<Longrightarrow> queued + eqFresh st \<ge> limit \<Longrightarrow>
      P (change # batch) st (st\<lparr>eqFull := Some (ErrRepairQueueFull peer (queued + eqFresh st))\<rparr>)"
    and skip: "\<And>change batch st r k m. row_of rr_key (eqRows st) (peer, qcName change) = Some r \<Longrightarrow>
      rrMeta r = Some k \<Longrightarrow> qcMeta change = Some m \<Longrightarrow> CompareState (Some m) (Some k) \<le> 0 \<Longrightarrow>
      P batch st (enqueue_loop peer reason now limit queued batch st) \<Longrightarrow>
      P (change # batch) st (enqueue_loop peer reason now limit queued batch st)"
    and wr: "\<And>change batch st st1 old row.
      old = row_of rr_key (eqRows st) (peer, qcName change) \<Longrightarrow>
      \<not> (old = None \<and> limit > 0 \<and> queued + eqFresh st \<ge> limit) \<Longrightarrow>
      rr_key row = (peer, qcName change) \<Longrightarrow> rrRevision row = eqRevision st + 1 \<Longrightarrow>
      (case qcMeta change of
         Some m \<Rightarrow> rrMeta row = Some (json_meta m) \<and>
                   (\<forall>r k. old = Some r \<longrightarrow> rrMeta r = Some k \<longrightarrow> 0 < CompareState (Some m) (Some k))
       | None \<Rightarrow> rrMeta row = (case old of None \<Rightarrow> None | Some r \<Rightarrow> rrMeta r)) \<Longrightarrow>
      st1 = st\<lparr>eqRows := upsert rr_key row (eqRows st), eqRevision := eqRevision st + 1,
               eqWritten := eqWritten st + 1, eqFresh := eqFresh st + (if old = None then 1 else 0)\<rparr> \<Longrightarrow>
      P batch st1 (enqueue_loop peer reason now limit queued batch st1) \<Longrightarrow>
      P (change # batch) st (enqueue_loop peer reason now limit queued batch st1)"
  shows "P batch st (enqueue_loop peer reason now limit queued batch st)"
proof (induction batch arbitrary: st)
  case Nil
  show ?case using nil by simp
next
  case (Cons change batch)
  define old where "old = row_of rr_key (eqRows st) (peer, qcName change)"
  define kept where "kept = (case old of None \<Rightarrow> None | Some r \<Rightarrow> rrMeta r)"
  have key: "old = None \<or> rr_key (the old) = (peer, qcName change)"
    using row_of_SomeD [of rr_key "eqRows st" "(peer, qcName change)"]
    by (cases old) (simp_all add: old_def)
  consider (F) "old = None" "limit > 0" "queued + eqFresh st \<ge> limit"
    | (S) r k m where "old = Some r" "rrMeta r = Some k" "qcMeta change = Some m"
        "CompareState (Some m) (Some k) \<le> 0"
    | (W) "\<not> (old = None \<and> limit > 0 \<and> queued + eqFresh st \<ge> limit)"
        "\<not> (qcMeta change \<noteq> None \<and> kept \<noteq> None \<and> CompareState (qcMeta change) kept \<le> 0)"
    unfolding kept_def by (cases old; cases "qcMeta change"; cases "rrMeta (the old)") auto
  then show ?case
  proof cases
    case F
    then show ?thesis using full [of st change batch] by (simp add: old_def Let_def)
  next
    case S
    then show ?thesis using skip [of st change r k m batch] Cons.IH [of st]
      by (simp add: old_def Let_def)
  next
    case W
    define encoded where "encoded = (if qcMeta change \<noteq> None then map_option json_meta (qcMeta change) else kept)"
    define row where "row = queue_row peer reason now change encoded (eqRevision st + 1)
      (IsLargeRepair (if qcMeta change \<noteq> None then qcMeta change else kept)) old"
    define st1 where "st1 = st\<lparr>eqRows := upsert rr_key row (eqRows st), eqRevision := eqRevision st + 1,
      eqWritten := eqWritten st + 1, eqFresh := eqFresh st + (if old = None then 1 else 0)\<rparr>"
    have step: "enqueue_loop peer reason now limit queued (change # batch) st =
        enqueue_loop peer reason now limit queued batch st1"
      using W unfolding enqueue_loop.simps Let_def st1_def row_def encoded_def kept_def old_def
      by (simp only: if_False)
    have "case qcMeta change of
         Some m \<Rightarrow> rrMeta row = Some (json_meta m) \<and>
                   (\<forall>r k. old = Some r \<longrightarrow> rrMeta r = Some k \<longrightarrow> 0 < CompareState (Some m) (Some k))
       | None \<Rightarrow> rrMeta row = (case old of None \<Rightarrow> None | Some r \<Rightarrow> rrMeta r)"
      using W(2) by (auto simp: row_def encoded_def kept_def split: option.splits)
    then show ?thesis unfolding step
      by (intro wr [OF old_def W(1) _ _ _ st1_def Cons.IH]) (simp_all add: row_def queue_row_key [OF key])
  qed
qed

lemma queue_count_upsert:
  "queue_count (upsert rr_key row t) p =
     queue_count t p + (if rr_key row \<notin> rr_key ` set t \<and> rrPeer row = p then 1 else 0)"
proof (induction t)
  case (Cons x t)
  have "rr_key x = rr_key row \<Longrightarrow> rrPeer x = rrPeer row" by (simp add: rr_key_def)
  with Cons show ?case by (auto simp: queue_count_def)
qed (simp add: queue_count_def)

lemma enqueue_loop_keyed:
  "keyed rr_key (eqRows st) \<Longrightarrow>
   keyed rr_key (eqRows (enqueue_loop peer reason now limit queued batch st))"
  by (induction rule: enqueue_loop_rule) (auto simp: keyed_upsert)

lemma enqueue_loop_revision:
  "\<forall>r \<in> set (eqRows st). rrRevision r \<le> eqRevision st \<Longrightarrow>
   let st' = enqueue_loop peer reason now limit queued batch st
   in eqRevision st \<le> eqRevision st' \<and> (\<forall>r \<in> set (eqRows st'). rrRevision r \<le> eqRevision st')"
proof (induction rule: enqueue_loop_rule)
  case (Write change batch st st1 old row)
  have "\<forall>r \<in> set (eqRows st1). rrRevision r \<le> eqRevision st1"
    using Write.prems Write.hyps(4,6) set_upsert_subset [of rr_key row "eqRows st"] by fastforce
  then show ?case using Write.IH Write.hyps(6) by (auto simp: Let_def)
qed (auto simp: Let_def)

lemma enqueue_loop_count:
  "let st' = enqueue_loop peer reason now limit queued batch st
   in queue_count (eqRows st') p = queue_count (eqRows st) p + (if p = peer then eqFresh st' - eqFresh st else 0)
      \<and> eqFresh st \<le> eqFresh st'"
proof (induction rule: enqueue_loop_rule)
  case (Write change batch st st1 old row)
  have "queue_count (eqRows st1) p = queue_count (eqRows st) p + (if p = peer then eqFresh st1 - eqFresh st else 0)"
    using Write.hyps by (auto simp: queue_count_upsert row_of_None rr_key_def)
  then show ?case using Write.IH Write.hyps(6) by (auto simp: Let_def split: if_splits)
qed (auto simp: Let_def)

lemma enqueue_loop_limit:
  "limit > 0 \<Longrightarrow> queued + eqFresh st \<le> limit \<Longrightarrow>
   queued + eqFresh (enqueue_loop peer reason now limit queued batch st) \<le> limit"
proof (induction rule: enqueue_loop_rule)
  case (Write change batch st st1 old row)
  then show ?case by (auto split: if_splits)
qed auto

lemma enqueue_loop_written:
  "eqWritten st \<le> eqWritten (enqueue_loop peer reason now limit queued batch st)"
  "eqWritten (enqueue_loop peer reason now limit queued batch st) = eqWritten st \<Longrightarrow>
   eqRows (enqueue_loop peer reason now limit queued batch st) = eqRows st"
proof -
  have "let st' = enqueue_loop peer reason now limit queued batch st
        in eqWritten st \<le> eqWritten st' \<and> (eqWritten st' = eqWritten st \<longrightarrow> eqRows st' = eqRows st)"
    by (induction rule: enqueue_loop_rule) (auto simp: Let_def)
  then show "eqWritten st \<le> eqWritten (enqueue_loop peer reason now limit queued batch st)"
    "eqWritten (enqueue_loop peer reason now limit queued batch st) = eqWritten st \<Longrightarrow>
     eqRows (enqueue_loop peer reason now limit queued batch st) = eqRows st"
    by (auto simp: Let_def)
qed

section \<open>States recorded in the queue\<close>

lemma rank_json_meta [simp]: "rank (json_meta m) = rank m"
  by (simp add: rank_def clock_rank_def live_def StateClock_def json_meta_def)

lemma CompareState_refl: "CompareState x x = 0"
  by (simp add: CompareState_rank)

lemma CompareState_swap: "CompareState y x = - CompareState x y"
  unfolding CompareState_rank by (rule cmp_compare_swap)

lemma CompareState_trans: "0 \<le> CompareState a b \<Longrightarrow> 0 \<le> CompareState b c \<Longrightarrow> 0 \<le> CompareState a c"
  by (auto simp: CompareState_rank cmp_compare_def split: if_splits)

lemma CompareState_json [simp]:
  "CompareState (Some (json_meta a)) y = CompareState (Some a) y"
  "CompareState x (Some (json_meta b)) = CompareState x (Some b)"
  by (simp_all add: CompareState_rank)

lemma json_meta_Name [simp]: "Name (json_meta m) = Name m"
  by (simp add: json_meta_def)

text \<open>A state once recorded for a peer and name is only ever replaced by a newer one.\<close>

lemma enqueue_loop_monotone:
  "holds_at_least (eqRows st) p m \<Longrightarrow>
   holds_at_least (eqRows (enqueue_loop peer reason now limit queued batch st)) p m"
proof (induction rule: enqueue_loop_rule)
  case (Write change batch st st1 old row)
  have "holds_at_least (eqRows st1) p m"
  proof (cases "(p, Name m) = rr_key row")
    case False
    then show ?thesis using Write.prems Write.hyps(6) by (simp add: holds_at_least_def row_of_upsert)
  next
    case True
    from Write.prems obtain r k where rk: "row_of rr_key (eqRows st) (p, Name m) = Some r"
      "rrMeta r = Some k" "0 \<le> CompareState (Some k) (Some m)" by (auto simp: holds_at_least_def)
    have old: "old = Some r" using rk(1) True Write.hyps(1,3) by simp
    have "\<exists>k'. rrMeta row = Some k' \<and> 0 \<le> CompareState (Some k') (Some k)"
      using Write.hyps(5) old rk(2) CompareState_refl [of "Some k"]
      by (fastforce split: option.splits)
    then show ?thesis
      using True Write.hyps(6) rk(3) CompareState_trans by (fastforce simp: holds_at_least_def row_of_upsert)
  qed
  then show ?case by (rule Write.IH)
qed (auto simp: holds_at_least_def)

lemma enqueue_loop_recorded:
  "eqFull (enqueue_loop peer reason now limit queued batch st) = None \<Longrightarrow> change \<in> set batch \<Longrightarrow>
   qcMeta change = Some m \<Longrightarrow> qcName change = Name m \<Longrightarrow>
   holds_at_least (eqRows (enqueue_loop peer reason now limit queued batch st)) peer m"
proof (induction rule: enqueue_loop_rule)
  case (Skip c batch st r k m')
  show ?case
  proof (cases "change \<in> set batch")
    case False
    then have "holds_at_least (eqRows st) peer m"
      using Skip CompareState_swap [of "Some k" "Some m"] by (auto simp: holds_at_least_def)
    then show ?thesis by (rule enqueue_loop_monotone)
  qed (use Skip in blast)
next
  case (Write c batch st st1 old row)
  show ?case
  proof (cases "change \<in> set batch")
    case False
    then have "holds_at_least (eqRows st1) peer m"
      using Write.hyps(3,5,6) Write.prems
      by (auto simp: holds_at_least_def row_of_upsert CompareState_refl)
    then show ?thesis by (rule enqueue_loop_monotone)
  qed (use Write in blast)
qed simp_all

text \<open>When the cap stops the batch, everything before the entry that did not fit was processed.\<close>

lemma enqueue_loop_full:
  "eqFull st = None \<Longrightarrow> eqFull (enqueue_loop peer reason now limit queued batch st) = Some err \<Longrightarrow>
   \<exists>done change rest n. batch = done @ change # rest \<and> err = ErrRepairQueueFull peer n \<and> limit \<le> n \<and> 0 < limit \<and>
     row_of rr_key (eqRows (enqueue_loop peer reason now limit queued done st)) (peer, qcName change) = None \<and>
     enqueue_loop peer reason now limit queued batch st =
       (enqueue_loop peer reason now limit queued done st)\<lparr>eqFull := Some err\<rparr>"
proof (induction batch arbitrary: st)
  case (Cons c batch)
  define old where "old = row_of rr_key (eqRows st) (peer, qcName c)"
  show ?case
  proof (cases "old = None \<and> limit > 0 \<and> queued + eqFresh st \<ge> limit")
    case True
    then show ?thesis using Cons.prems
      by (intro exI [of _ "[]"] exI [of _ c] exI [of _ batch] exI [of _ "queued + eqFresh st"])
        (auto simp: old_def Let_def)
  next
    case False
    then obtain st1 where st1: "\<And>b. enqueue_loop peer reason now limit queued (c # b) st =
        enqueue_loop peer reason now limit queued b st1" "eqFull st1 = None"
      using Cons.prems(1) unfolding enqueue_loop.simps Let_def old_def
      by (simp only: if_False) (metis (no_types, lifting) enqueue_state.select_convs(5)
          enqueue_state.surjective enqueue_state.update_convs(1,2,3,4))
    obtain d ch rest n where "batch = d @ ch # rest" "err = ErrRepairQueueFull peer n" "limit \<le> n" "0 < limit"
      "row_of rr_key (eqRows (enqueue_loop peer reason now limit queued d st1)) (peer, qcName ch) = None"
      "enqueue_loop peer reason now limit queued batch st1 =
       (enqueue_loop peer reason now limit queued d st1)\<lparr>eqFull := Some err\<rparr>"
      using Cons.IH [OF st1(2)] Cons.prems(2) st1(1) by metis
    then show ?thesis using st1(1)
      by (intro exI [of _ "c # d"] exI [of _ ch] exI [of _ rest] exI [of _ n]) simp
  qed
qed simp

section \<open>Every operation keeps the queue's invariant\<close>

lemma queue_count_start [simp]: "eqRows (enqueue_start s) = repair_queue (db s)"
  "eqFresh (enqueue_start s) = 0" "eqWritten (enqueue_start s) = 0" "eqFull (enqueue_start s) = None"
  "eqRevision (enqueue_start s) = repair_revision (db s)"
  by (simp_all add: enqueue_start_def)

lemma enqueue_queue_ok:
  assumes "queue_ok s"
  shows "queue_ok (snd (enqueue e now s peer reason batch))"
proof -
  define st where "st = enqueue_loop peer reason now (repairLimit s) (queuedFor s peer) batch (enqueue_start s)"
  have k: "keyed rr_key (eqRows st)"
    unfolding st_def by (rule enqueue_loop_keyed) (use assms in \<open>simp add: queue_ok_def queue_db_inv_def\<close>)
  have r: "\<forall>r \<in> set (eqRows st). rrRevision r \<le> eqRevision st"
    using enqueue_loop_revision [of "enqueue_start s" peer reason now "repairLimit s" "queuedFor s peer" batch] assms
    by (simp add: st_def Let_def queue_ok_def queue_db_inv_def)
  have c: "queue_count (eqRows st) p = queueSize s p + (if p = peer then eqFresh st else 0)" "0 \<le> eqFresh st" for p
    using enqueue_loop_count [of peer reason now "repairLimit s" "queuedFor s peer" batch "enqueue_start s" p] assms
    by (auto simp: st_def Let_def queue_ok_def)
  have pos: "0 \<le> queueSize s p" for p using assms by (simp add: queue_ok_def queue_count_def)
  show ?thesis
    using assms k r c pos unfolding enqueue_def st_def [symmetric]
    by (auto simp: Let_def queue_ok_def queue_db_inv_def addQueueSize_def invalidateQueueStats_def
        max_def split: option.split)
qed

lemma delete_rows_queue_ok:
  assumes "queue_ok s" "\<And>r. P r \<Longrightarrow> rrPeer r = peer"
  shows "queue_ok (snd (delete_rows P e s peer))"
proof -
  let ?q = "repair_queue (db s)"
  have c: "queue_count (filter (\<lambda>r. \<not> P r) t) p =
      queue_count t p - (if p = peer then int (length (filter P t)) else 0)" for t p
  proof (induction t)
    case (Cons x t)
    then show ?case using assms(2) [of x] by (auto simp: queue_count_def)
  qed (simp add: queue_count_def)
  have "0 \<le> queue_count (filter (\<lambda>r. \<not> P r) ?q) peer" "0 \<le> queue_count ?q peer"
    by (simp_all add: queue_count_def)
  then have "int (length (filter P ?q)) \<le> queue_count ?q peer" using c [of ?q peer] by simp
  then show ?thesis
    using assms(1) c \<open>0 \<le> queue_count ?q peer\<close>
    by (auto simp: delete_rows_def queue_ok_def queue_db_inv_def addQueueSize_def keyed_filter Let_def
        split: option.split)
qed

lemma defer_rows_queue_ok:
  assumes "queue_ok s"
  shows "queue_ok (snd (defer_rows P e now s retryAfter cause))"
proof -
  define f where "f r = (if P r then r\<lparr>rrAttempts := rrAttempts r + 1,
    rrNextAttempt := wrap64 (now + retryAfter), rrLastError := cause\<rparr> else r)" for r :: repair_row
  have f: "rr_key (f r) = rr_key r" "rrPeer (f r) = rrPeer r" "rrRevision (f r) = rrRevision r" for r
    by (simp_all add: f_def rr_key_def)
  have "keyed rr_key (map f t) = keyed rr_key t" "queue_count (map f t) p = queue_count t p" for t p
    by (simp_all add: keyed_def comp_def f queue_count_def filter_map)
  then show ?thesis using assms f
    by (auto simp: defer_rows_def f_def [symmetric] queue_ok_def queue_db_inv_def invalidateQueueStats_def
        split: option.split)
qed

lemma EnqueueChanges_holds:
  assumes "EnqueueChanges e now s peer metas reason = ((n, None), s')" "m \<in> set metas"
  shows "holds_at_least (repair_queue (db s')) peer m"
proof -
  define st where "st = enqueue_loop peer reason now (repairLimit s) (queuedFor s peer) (map change_of metas) (enqueue_start s)"
  have ne: "map change_of metas \<noteq> []" using assms(2) by auto
  then have "e = None" "eqFull st = None"
    using assms(1) by (auto simp: EnqueueChanges_def enqueue_def st_def [symmetric] Let_def
        split: option.splits if_splits)
  moreover have "change_of m \<in> set (map change_of metas)" using assms(2) by simp
  ultimately have "holds_at_least (eqRows st) peer m"
    unfolding st_def by (intro enqueue_loop_recorded) (auto simp: change_of_def)
  moreover have "repair_queue (db s') = eqRows st"
  proof (cases "eqWritten st = 0")
    case True
    then have "eqRows st = repair_queue (db s)"
      using enqueue_loop_written(2) [of peer reason now "repairLimit s" "queuedFor s peer" "map change_of metas" "enqueue_start s"]
      by (simp add: st_def)
    then show ?thesis using assms(1) True ne \<open>e = None\<close>
      by (simp add: EnqueueChanges_def enqueue_def st_def [symmetric] Let_def)
  next
    case False
    then show ?thesis using assms(1) ne \<open>e = None\<close>
      by (auto simp: EnqueueChanges_def enqueue_def st_def [symmetric] Let_def addQueueSize_def
          invalidateQueueStats_def split: if_splits)
  qed
  ultimately show ?thesis by simp
qed

end
