(* ===== verification/Store_Local.thy ===== *)
theory Store_Local
  imports Repair_Queue
begin

text \<open>
  The node-local recovery state of the store: intents of local and replica mutations
  (store/intents.go), quarantined names and damaged objects (integrity.go), and interrupted
  downloads (partials.go). The maps \<open>quarantined\<close> and \<open>damagedObjects\<close> are the lists of their keys.
\<close>

section \<open>Definitions\<close>

definition insert_key :: "'a \<Rightarrow> 'a list \<Rightarrow> 'a list" where
  "insert_key k ks = (if k \<in> set ks then ks else ks @ [k])"

subsection \<open>Local and replica intents\<close>

fun begin_paths ::
    "(string \<Rightarrow> string) \<Rightarrow> string list \<Rightarrow> name_row list \<Rightarrow> string list \<Rightarrow>
     (store_error, name_row list \<times> string list) result" where
  "begin_paths nfc_fold [] names intents = Inr (names, intents)"
| "begin_paths nfc_fold (p # ps) names intents =
     (case bindName nfc_fold names p of
        Inl err \<Rightarrow> Inl err
      | Inr names' \<Rightarrow> begin_paths nfc_fold ps names' (insert_key p intents))"

definition BeginLocal ::
    "(string \<Rightarrow> string) \<Rightarrow> string option \<Rightarrow> Store \<Rightarrow> string list \<Rightarrow> (store_error, unit) result \<times> Store" where
  "BeginLocal nfc_fold e s paths = db_write e s
     (case begin_paths nfc_fold paths (namespace_names (db s)) (local_intents (db s)) of
        Inl err \<Rightarrow> (Inl err, s)
      | Inr (names, intents) \<Rightarrow>
          (Inr (), s\<lparr>db := (db s)\<lparr>namespace_names := names, local_intents := intents\<rparr>\<rparr>))"

definition LocalIntents :: "string option \<Rightarrow> Store \<Rightarrow> (store_error, string list) result" where
  "LocalIntents e s = db_read e (Inr (sort (local_intents (db s))))"

definition HasLocalIntent :: "string option \<Rightarrow> Store \<Rightarrow> string \<Rightarrow> (store_error, bool) result" where
  "HasLocalIntent e s name =
     result_bind (LocalIntents e s) (\<lambda>paths. Inr (list_ex (\<lambda>p. name = p \<or> HasPrefix name (p @ ''/'')) paths))"

definition EndLocal :: "string option \<Rightarrow> Store \<Rightarrow> string list \<Rightarrow> (store_error, unit) result \<times> Store" where
  "EndLocal e s paths = db_write e s
     (Inr (), s\<lparr>db := (db s)\<lparr>local_intents := foldl (\<lambda>t p. delete_key (\<lambda>x. x) p t) (local_intents (db s)) paths\<rparr>\<rparr>)"

definition StageReplica :: "string option \<Rightarrow> Store \<Rightarrow> FileMeta \<Rightarrow> (store_error, unit) result \<times> Store" where
  "StageReplica e s meta = db_write e s
     (Inr (), s\<lparr>db := (db s)\<lparr>replica_intents := upsert fst (Name meta, json_meta meta) (replica_intents (db s))\<rparr>\<rparr>)"

definition ReplicaIntent :: "string option \<Rightarrow> Store \<Rightarrow> string \<Rightarrow> (store_error, FileMeta option) result" where
  "ReplicaIntent e s name = db_read e (Inr (map_option snd (row_of fst (replica_intents (db s)) name)))"

definition ReplicaIntents :: "string option \<Rightarrow> Store \<Rightarrow> (store_error, string list) result" where
  "ReplicaIntents e s = db_read e (Inr (sort (map fst (replica_intents (db s)))))"

definition ClearReplicaIntent :: "string option \<Rightarrow> Store \<Rightarrow> string \<Rightarrow> (store_error, unit) result \<times> Store" where
  "ClearReplicaIntent e s name = db_write e s
     (Inr (), s\<lparr>db := (db s)\<lparr>replica_intents := delete_key fst name (replica_intents (db s))\<rparr>\<rparr>)"

definition in_subtree :: "string \<Rightarrow> string \<Rightarrow> bool" where
  "in_subtree path n \<longleftrightarrow> n = path \<or> (path @ ''/'' \<le> n \<and> n < path @ ''0'')"

definition ListSubtree :: "string option \<Rightarrow> Store \<Rightarrow> string \<Rightarrow> (store_error, FileMeta list) result" where
  "ListSubtree e s path = db_read e (Inr (filter (\<lambda>f. in_subtree path (Name f)) (files (db s))))"

definition ListLiveSubtree :: "string option \<Rightarrow> Store \<Rightarrow> string \<Rightarrow> (store_error, FileMeta list) result" where
  "ListLiveSubtree e s path =
     db_read e (Inr (filter (\<lambda>f. \<not> Deleted f \<and> in_subtree path (Name f)) (files (db s))))"

subsection \<open>Quarantine\<close>

definition IsDamagedObject :: "Store \<Rightarrow> string \<Rightarrow> bool" where
  "IsDamagedObject s key \<longleftrightarrow> key \<in> set (damagedObjects s)"

definition IsQuarantined :: "Store \<Rightarrow> string \<Rightarrow> bool" where
  "IsQuarantined s name \<longleftrightarrow> name \<in> set (quarantined s)"

definition QuarantineSnapshot :: "Store \<Rightarrow> int \<times> string list" where
  "QuarantineSnapshot s = (integrityGen s, quarantined s)"

definition QuarantineGeneration :: "Store \<Rightarrow> int \<times> int" where
  "QuarantineGeneration s = (integrityGen s, int (length (quarantined s)))"

definition QuarantineCount :: "Store \<Rightarrow> int" where
  "QuarantineCount s = int (length (quarantined s))"

definition SetQuarantined ::
    "string option \<Rightarrow> Store \<Rightarrow> string \<Rightarrow> string \<Rightarrow> (store_error, unit) result \<times> Store" where
  "SetQuarantined e s name key =
     (let s1 = s\<lparr>quarantined := insert_key name (quarantined s),
                 damagedObjects := insert_key key (damagedObjects s), integrityGen := integrityGen s + 1\<rparr>
      in db_write e s1
        (Inr (), s1\<lparr>db := (db s1)\<lparr>quarantine := insert_key name (quarantine (db s1)),
                                  damaged_objects := insert_key key (damaged_objects (db s1))\<rparr>\<rparr>))"

definition ClearQuarantine ::
    "string option \<Rightarrow> Store \<Rightarrow> string \<Rightarrow> string \<Rightarrow> (store_error, unit) result \<times> Store" where
  "ClearQuarantine e s name verifiedKey = db_write e s
     (Inr (), s\<lparr>db := (db s)\<lparr>quarantine := removeAll name (quarantine (db s)),
                   damaged_objects := (if verifiedKey \<noteq> [] then removeAll verifiedKey (damaged_objects (db s))
                                       else damaged_objects (db s))\<rparr>,
                quarantined := removeAll name (quarantined s),
                damagedObjects := removeAll verifiedKey (damagedObjects s),
                integrityGen := integrityGen s + 1\<rparr>)"

subsection \<open>Interrupted downloads\<close>

definition pd_name :: "PartialDownload \<Rightarrow> string" where
  "pd_name p = Name (pdMeta p)"

definition PartialDownloads :: "string option \<Rightarrow> Store \<Rightarrow> (store_error, PartialDownload list) result" where
  "PartialDownloads e s = db_read e (Inr (sort_key pd_name (partial_downloads (db s))))"

definition SavePartialDownload ::
    "string option \<Rightarrow> int \<Rightarrow> Store \<Rightarrow> PartialDownload \<Rightarrow> (store_error, unit) result \<times> Store" where
  "SavePartialDownload e now s p = db_write e s
     (Inr (), s\<lparr>db := (db s)\<lparr>partial_downloads :=
        upsert pd_name (p\<lparr>pdMeta := json_meta (pdMeta p), pdUpdated := now\<rparr>) (partial_downloads (db s))\<rparr>\<rparr>)"

definition DropPartialDownload :: "string option \<Rightarrow> Store \<Rightarrow> string \<Rightarrow> (store_error, unit) result \<times> Store" where
  "DropPartialDownload e s name = db_write e s
     (Inr (), s\<lparr>db := (db s)\<lparr>partial_downloads := delete_key pd_name name (partial_downloads (db s))\<rparr>\<rparr>)"

subsection \<open>Invariant\<close>

text \<open>Whatever is recorded as damaged is fenced in memory too.\<close>

definition fenced :: "Store \<Rightarrow> bool" where
  "fenced s \<longleftrightarrow> set (quarantine (db s)) \<subseteq> set (quarantined s) \<and>
     set (damaged_objects (db s)) - {[]} \<subseteq> set (damagedObjects s)"

section \<open>Lemmas\<close>

lemma set_insert_key [simp]: "set (insert_key k ks) = insert k (set ks)"
  by (auto simp: insert_key_def)

lemma in_subtree_iff: "in_subtree path n \<longleftrightarrow> n = path \<or> HasPrefix n (path @ ''/'')"
  using range_descendants [of path n] by (auto simp: in_subtree_def)

lemma begin_paths_reserves:
  "begin_paths nfc_fold ps names intents = Inr (names', intents') \<Longrightarrow> keyed fst names \<Longrightarrow>
   keyed fst names' \<and> (\<forall>n. reserved_in nfc_fold names n \<longrightarrow> reserved_in nfc_fold names' n) \<and>
   (\<forall>p \<in> set ps. reserved_in nfc_fold names' p) \<and> set intents' = set intents \<union> set ps"
proof (induction ps arbitrary: names intents)
  case (Cons p ps)
  from Cons.prems obtain t where t: "bindName nfc_fold names p = Inr t"
    "begin_paths nfc_fold ps t (insert_key p intents) = Inr (names', intents')"
    by (auto split: sum.splits)
  note IH = Cons.IH [OF t(2) keyed_bindName [OF t(1) Cons.prems(2)]]
  show ?case
    using IH bindName_reserves [OF t(1)] bindName_keeps [OF t(1)] by auto
qed simp

lemma SetQuarantined_fences:
  "IsQuarantined (snd (SetQuarantined e s name key)) name"
  "IsDamagedObject (snd (SetQuarantined e s name key)) key"
  by (auto simp: SetQuarantined_def IsQuarantined_def IsDamagedObject_def db_write_def Let_def
      split: option.split)

lemma fenced_SetQuarantined: "fenced s \<Longrightarrow> fenced (snd (SetQuarantined e s name key))"
  by (auto simp: fenced_def SetQuarantined_def db_write_def Let_def split: option.split)

lemma fenced_ClearQuarantine: "fenced s \<Longrightarrow> fenced (snd (ClearQuarantine e s name key))"
  by (auto simp: fenced_def ClearQuarantine_def db_write_def split: option.split)

lemma StageReplica_intent:
  "fst (StageReplica e s m) = Inr () \<Longrightarrow>
   ReplicaIntent None (snd (StageReplica e s m)) (Name m) = Inr (Some (json_meta m))"
  by (auto simp: StageReplica_def ReplicaIntent_def db_write_def db_read_def row_of_upsert
      split: option.splits)

end
