(* ===== verification/Store_Machine.thy ===== *)
theory Store_Machine
  imports Store_Local
begin

text \<open>
  The store as a state machine: a step is one call of a method that changes state, with any
  arguments of the Go types and any outcome of the database; a restart closes the store and
  opens its database again. Every reachable store satisfies the invariant \<open>store_ok\<close>.
\<close>

section \<open>Definitions\<close>

definition store_ok :: "(string \<Rightarrow> string) \<Rightarrow> Store \<Rightarrow> bool" where
  "store_ok nfc_fold s \<longleftrightarrow> files_ok nfc_fold s \<and> queue_ok s \<and> fenced s \<and>
     keyed fst (replica_intents (db s)) \<and> keyed cuPeer (cursors (db s)) \<and> keyed pd_name (partial_downloads (db s))"

text \<open>The databases a node may be started on, including those of releases that had no portable
  names and no version counter.\<close>

definition db_ok :: "(string \<Rightarrow> string) \<Rightarrow> database \<Rightarrow> bool" where
  "db_ok nfc_fold d \<longleftrightarrow>
     keyed Name (files d) \<and> keyed Version (files d) \<and> 0 \<le> last_version d \<and>
     (\<forall>f \<in> set (files d). 0 < Version f \<and> clock_ok f \<and> Name f \<noteq> []) \<and>
     keyed fst (namespace_names d) \<and>
     (row_of fst (node_meta d) ''portable_names_v1'' \<noteq> None \<longrightarrow> names_reserved nfc_fold d) \<and>
     keyed rr_key (repair_queue d) \<and>
     keyed fst (replica_intents d) \<and> keyed cuPeer (cursors d) \<and> keyed pd_name (partial_downloads d)"

inductive store_step :: "(string \<Rightarrow> string) \<Rightarrow> Store \<Rightarrow> Store \<Rightarrow> bool" for nfc_fold where
  put: "clock_ok meta \<Longrightarrow> store_step nfc_fold s (snd (commitPut nfc_fold e now s meta local))"
| set_limit: "store_step nfc_fold s (SetRepairLimit s limit)"
| set_value: "store_step nfc_fold s (snd (SetNodeValue e s key val))"
| count: "store_step nfc_fold s (snd (FileCount e s))"
| set_peer: "store_step nfc_fold s (snd (SetPeerState e s peer ps))"
| set_cursor: "store_step nfc_fold s (snd (SetCursor e s peer v))"
| prune: "store_step nfc_fold s (snd (PruneCursors e1 e2 s keep))"
| ack: "store_step nfc_fold s (snd (RecordAckEpoch e now s peer ep v))"
| purge: "store_step nfc_fold s (snd (PurgeTombstones e now s ttl v))"
| enqueue: "store_step nfc_fold s (snd (enqueue e now s peer reason batch))"
| resolve: "store_step nfc_fold s (snd (ResolveRepair e s peer name))"
| resolve_item: "store_step nfc_fold s (snd (ResolveRepairItem e s item))"
| postpone: "store_step nfc_fold s (snd (DeferRepair e now s peer name d cause))"
| postpone_item: "store_step nfc_fold s (snd (DeferRepairItem e now s item d cause))"
| stats: "store_step nfc_fold s (snd (RepairQueueStats e now s))"
| begin_local: "store_step nfc_fold s (snd (BeginLocal nfc_fold e s paths))"
| end_local: "store_step nfc_fold s (snd (EndLocal e s paths))"
| stage_replica: "store_step nfc_fold s (snd (StageReplica e s meta))"
| clear_replica: "store_step nfc_fold s (snd (ClearReplicaIntent e s name))"
| set_quarantined: "store_step nfc_fold s (snd (SetQuarantined e s name key))"
| clear_quarantine: "store_step nfc_fold s (snd (ClearQuarantine e s name key))"
| save_partial: "store_step nfc_fold s (snd (SavePartialDownload e now s p))"
| drop_partial: "store_step nfc_fold s (snd (DropPartialDownload e s name))"
| restart: "New nfc_fold None now fresh nonce (db s) = Inr s' \<Longrightarrow> store_step nfc_fold s s'"

inductive store_reachable :: "(string \<Rightarrow> string) \<Rightarrow> Store \<Rightarrow> bool" for nfc_fold where
  opened: "db_ok nfc_fold d \<Longrightarrow> New nfc_fold e now fresh nonce d = Inr s \<Longrightarrow> store_reachable nfc_fold s"
| step: "store_reachable nfc_fold s \<Longrightarrow> store_step nfc_fold s s' \<Longrightarrow> store_reachable nfc_fold s'"

text \<open>A small store: freshly opened, and after one local write.\<close>

definition demo_store :: Store where
  "demo_store = \<lparr> db = empty_db\<lparr>node_meta :=
       [(''repair_lanes_v1'', ''1''), (''portable_names_v1'', ''1''), (''epoch'', ''e0'')]\<rparr>,
     cachedNextVer = 1, epoch = ''e0'', incarnation = ''e0-n0'', repairLimit = 100000,
     statsCache = \<lparr> rsTotal = 0, rsDue = 0, rsOldestAgeMS = 0 \<rparr>, statsValid = False, statsGen = 0,
     queueSize = (\<lambda>_. 0), quarantined = [], damagedObjects = [], integrityGen = 0,
     countVersion = 0, countValid = False, countCached = 0, enqueued = 0 \<rparr>"

definition demo_meta :: FileMeta where
  "demo_meta = zero_meta\<lparr>Name := ''docs/a'', ModTime := 7, Size := 3, Hash := ''h''\<rparr>"

definition demo_put :: Store where
  "demo_put = snd (commitPut ToLower None 20 demo_store demo_meta True)"

section \<open>Opening a database\<close>

lemma keyed_map: "(\<And>x. key (f x) = key x) \<Longrightarrow> keyed key (map f t) = keyed key t"
  by (simp add: keyed_def comp_def)

lemma migrateRepairLanes_fields [simp]:
  "files (migrateRepairLanes d) = files d" "namespace_names (migrateRepairLanes d) = namespace_names d"
  "last_version (migrateRepairLanes d) = last_version d"
  "replica_intents (migrateRepairLanes d) = replica_intents d"
  "cursors (migrateRepairLanes d) = cursors d"
  "partial_downloads (migrateRepairLanes d) = partial_downloads d"
  "quarantine (migrateRepairLanes d) = quarantine d"
  "damaged_objects (migrateRepairLanes d) = damaged_objects d"
  by (simp_all add: migrateRepairLanes_def)

lemma keyed_migrateRepairLanes:
  "keyed rr_key (repair_queue (migrateRepairLanes d)) = keyed rr_key (repair_queue d)"
  unfolding migrateRepairLanes_def by (auto intro!: keyed_map simp: rr_key_def split: option.split)

lemma row_of_append: "row_of key (t @ u) k = (case row_of key t k of None \<Rightarrow> row_of key u k | Some r \<Rightarrow> Some r)"
  by (induction t) auto

lemma portable_marker_migrate:
  "row_of fst (node_meta (migrate now d)) ''portable_names_v1'' = row_of fst (node_meta d) ''portable_names_v1''"
  by (simp add: migrate_def migrateRepairLanes_def row_of_append Let_def split: option.split)

lemma clock_ok_DeletedAt [simp]: "clock_ok (f\<lparr>DeletedAt := t\<rparr>) = clock_ok f"
  by (simp add: clock_ok_def ValidateClock_def)

lemma migrate_db_ok:
  assumes "db_ok nfc_fold d"
  shows "db_ok nfc_fold (migrate now d)"
    and "\<forall>r \<in> set (repair_queue (migrate now d)). rrRevision r \<le> repair_revision (migrate now d)"
proof -
  define g where "g f = (if Deleted f \<and> DeletedAt f = 0 then f\<lparr>DeletedAt := now\<rparr> else f)" for f :: FileMeta
  have fs: "files (migrate now d) = map g (files d)"
    by (simp add: migrate_def g_def Let_def)
  have g: "Name (g f) = Name f" "Version (g f) = Version f" "clock_ok (g f) = clock_ok f" for f
    by (simp_all add: g_def)
  have other: "namespace_names (migrate now d) = namespace_names d"
    "last_version (migrate now d) = last_version d" "replica_intents (migrate now d) = replica_intents d"
    "cursors (migrate now d) = cursors d" "partial_downloads (migrate now d) = partial_downloads d"
    "repair_queue (migrate now d) = repair_queue (migrateRepairLanes d)"
    by (simp_all add: migrate_def Let_def)
  show "db_ok nfc_fold (migrate now d)"
    using assms unfolding db_ok_def names_reserved_def fs other portable_marker_migrate
    by (auto simp: keyed_map [of _ g] g keyed_migrateRepairLanes)
  show "\<forall>r \<in> set (repair_queue (migrate now d)). rrRevision r \<le> repair_revision (migrate now d)"
    using max_or_zero_ge [of _ "map rrRevision (repair_queue (migrateRepairLanes d))"]
    by (auto simp: other migrate_def Let_def le_max_iff_disj)
qed

lemma bind_all_keyed: "bind_all nfc_fold ns t = Inr t' \<Longrightarrow> keyed fst t \<Longrightarrow> keyed fst t'"
  by (induction ns arbitrary: t) (auto simp: result_bind_Inr dest: keyed_bindName)

lemma nil_less: "[] < (n :: string) \<longleftrightarrow> n \<noteq> []"
  by (cases n) auto

lemma migrateNames_reserves:
  assumes "db_ok nfc_fold d" "migrateNames nfc_fold d = Inr d'"
  shows "names_reserved nfc_fold d'" "files d' = files d" "repair_queue d' = repair_queue d"
    "repair_revision d' = repair_revision d" "last_version d' = last_version d"
    "replica_intents d' = replica_intents d" "cursors d' = cursors d"
    "partial_downloads d' = partial_downloads d"
proof -
  show rest: "files d' = files d" "repair_queue d' = repair_queue d"
    "repair_revision d' = repair_revision d" "last_version d' = last_version d"
    "replica_intents d' = replica_intents d" "cursors d' = cursors d"
    "partial_downloads d' = partial_downloads d"
    using assms(2) by (auto simp: migrateNames_def result_bind_Inr split: if_splits)
  show "names_reserved nfc_fold d'"
  proof (cases "row_of fst (node_meta d) ''portable_names_v1'' = None")
    case False
    then show ?thesis using assms by (auto simp: migrateNames_def db_ok_def)
  next
    case True
    then obtain t where t: "bind_all nfc_fold
        (map Name (sort_key Name (filter (\<lambda>f. Name f > []) (files d)))) (namespace_names d) = Inr t"
      "namespace_names d' = t"
      using assms(2) by (auto simp: migrateNames_def result_bind_Inr)
    have "keyed fst t" using bind_all_keyed [OF t(1)] assms(1) by (simp add: db_ok_def)
    moreover have "\<forall>f \<in> set (files d). reserved_in nfc_fold t (Name f)"
      using bind_all_reserves [OF t(1)] assms(1) by (auto simp: db_ok_def nil_less)
    ultimately show ?thesis by (simp add: names_reserved_def t(2) rest(1))
  qed
qed

lemma New_store_ok:
  assumes "db_ok nfc_fold d" "New nfc_fold e now fresh nonce d = Inr s"
  shows "store_ok nfc_fold s"
proof -
  have e: "e = None" using assms(2) by (auto simp: New_def db_read_def split: option.splits)
  obtain d1 where d1: "migrateNames nfc_fold (migrate now d) = Inr d1"
    using assms(2) by (auto simp: New_def db_read_def e result_bind_Inr)
  define v where "v = max (last_version d1) (max_or_zero (map Version (files d1)))"
  define ep where "ep = loadOrCreateEpoch fresh (d1\<lparr>last_version := v\<rparr>)"
  have s: "db s = snd ep" "cachedNextVer s = v + 1" "countValid s = False"
    "queueSize s = loadQueueSizes (d1\<lparr>last_version := v\<rparr>)" "quarantined s = quarantine (snd ep)"
    "damagedObjects s = damaged_objects (snd ep)"
    using assms(2) by (auto simp: New_def db_read_def e d1 Let_def v_def ep_def split: prod.splits)
  have epf: "\<exists>m. snd ep = d1\<lparr>last_version := v, node_meta := m\<rparr>"
    by (auto simp: ep_def loadOrCreateEpoch_def split: option.split)
      (metis database.surjective database.update_convs(3))+
  note m = migrate_db_ok [OF assms(1), of now]
  note n = migrateNames_reserves [OF m(1) d1]
  have v0: "0 \<le> v" "\<And>f. f \<in> set (files d1) \<Longrightarrow> Version f \<le> v"
    using m(1) n max_or_zero_ge [of _ "map Version (files d1)"]
    by (auto simp: v_def db_ok_def le_max_iff_disj)
  show ?thesis
    using epf m n v0 s
    by (auto simp: store_ok_def files_ok_def names_reserved_def files_inv_def count_inv_def db_ok_def
        queue_ok_def queue_db_inv_def loadQueueSizes_def queue_count_def fenced_def)
qed

section \<open>Steps keep the invariant\<close>

text \<open>The invariant reads only some of the fields; an operation that leaves those alone keeps it.\<close>

definition same_core :: "Store \<Rightarrow> Store \<Rightarrow> bool" where
  "same_core s s' \<longleftrightarrow>
     files (db s') = files (db s) \<and> namespace_names (db s') = namespace_names (db s) \<and>
     last_version (db s') = last_version (db s) \<and> cachedNextVer s' = cachedNextVer s \<and>
     countVersion s' = countVersion s \<and> countValid s' = countValid s \<and> countCached s' = countCached s"

definition same_queue :: "Store \<Rightarrow> Store \<Rightarrow> bool" where
  "same_queue s s' \<longleftrightarrow>
     repair_queue (db s') = repair_queue (db s) \<and> repair_revision (db s') = repair_revision (db s) \<and>
     queueSize s' = queueSize s"

definition same_fence :: "Store \<Rightarrow> Store \<Rightarrow> bool" where
  "same_fence s s' \<longleftrightarrow>
     quarantine (db s') = quarantine (db s) \<and> damaged_objects (db s') = damaged_objects (db s) \<and>
     quarantined s' = quarantined s \<and> damagedObjects s' = damagedObjects s"

definition same_local :: "Store \<Rightarrow> Store \<Rightarrow> bool" where
  "same_local s s' \<longleftrightarrow>
     replica_intents (db s') = replica_intents (db s) \<and> cursors (db s') = cursors (db s) \<and>
     partial_downloads (db s') = partial_downloads (db s)"

lemma files_ok_frame: "same_core s s' \<Longrightarrow> files_ok nfc_fold s \<Longrightarrow> files_ok nfc_fold s'"
  by (simp add: same_core_def files_ok_def files_inv_def names_reserved_def count_inv_def live_count_def)

lemma queue_ok_frame: "same_queue s s' \<Longrightarrow> queue_ok s \<Longrightarrow> queue_ok s'"
  by (simp add: same_queue_def queue_ok_def queue_db_inv_def)

lemma fenced_frame: "same_fence s s' \<Longrightarrow> fenced s \<Longrightarrow> fenced s'"
  by (simp add: same_fence_def fenced_def)

lemmas same_defs = same_core_def same_queue_def same_fence_def same_local_def

lemma store_ok_frame:
  "same_core s s' \<Longrightarrow> same_queue s s' \<Longrightarrow> same_fence s s' \<Longrightarrow> same_local s s' \<Longrightarrow>
   store_ok nfc_fold s \<Longrightarrow> store_ok nfc_fold s'"
  using files_ok_frame queue_ok_frame fenced_frame by (auto simp: store_ok_def same_local_def)

lemma frame_put:
  assumes "commitPut nfc_fold e now s meta local = (r, s')"
  shows "same_queue s s'" "same_fence s s'" "cursors (db s') = cursors (db s)"
    "partial_downloads (db s') = partial_downloads (db s)"
    "keyed fst (replica_intents (db s)) \<Longrightarrow> keyed fst (replica_intents (db s'))"
  using assms by (cases rule: commitPut_cases; simp add: same_defs keyed_delete_key)+

lemma frame_queue_ops:
  "same_core s (snd (enqueue e now s peer reason batch)) \<and>
   same_fence s (snd (enqueue e now s peer reason batch)) \<and>
   same_local s (snd (enqueue e now s peer reason batch))"
  "same_core s (snd (delete_rows P e s peer)) \<and> same_fence s (snd (delete_rows P e s peer)) \<and>
   same_local s (snd (delete_rows P e s peer))"
  "same_core s (snd (defer_rows P e now s d cause)) \<and> same_fence s (snd (defer_rows P e now s d cause)) \<and>
   same_local s (snd (defer_rows P e now s d cause))"
  by (simp_all add: same_defs enqueue_def delete_rows_def defer_rows_def addQueueSize_def
      invalidateQueueStats_def Let_def split: option.split)

lemma queue_op_store_ok:
  "same_core s s' \<and> same_fence s s' \<and> same_local s s' \<Longrightarrow> queue_ok s' \<Longrightarrow>
   store_ok nfc_fold s \<Longrightarrow> store_ok nfc_fold s'"
  using files_ok_frame fenced_frame by (auto simp: store_ok_def same_local_def)

lemma db_ok_store: "store_ok nfc_fold s \<Longrightarrow> db_ok nfc_fold (db s)"
proof -
  assume s: "store_ok nfc_fold s"
  then have "canonical_name (Name f)" if "f \<in> set (files (db s))" for f
    using that nameParts_ok [of nfc_fold "Name f"]
    unfolding store_ok_def files_ok_def names_reserved_def reserved_in_def by blast
  then show ?thesis using s canonical_nonempty
    by (auto simp: store_ok_def db_ok_def files_ok_def files_inv_def queue_ok_def queue_db_inv_def
        names_reserved_def)
qed

lemma store_ok_queue: "store_ok nfc_fold s \<Longrightarrow> queue_ok s"
  by (simp add: store_ok_def)

lemma store_step_ok:
  assumes "store_step nfc_fold s s'" "store_ok nfc_fold s"
  shows "store_ok nfc_fold s'"
  using assms(1)
proof (cases rule: store_step.cases)
  case (put meta e now local)
  obtain r where p: "commitPut nfc_fold e now s meta local = (r, s')"
    using put by (metis prod.collapse)
  show ?thesis
    using commitPut_files_ok [OF p _ put(2)] frame_put [OF p] queue_ok_frame fenced_frame assms(2)
    by (auto simp: store_ok_def)
next
  case (count e)
  have "0 \<le> last_version (db s)" "count_inv s"
    using assms(2) by (auto simp: store_ok_def files_ok_def files_inv_def)
  then have "count_inv s'" "db s' = db s" using FileCount_inv count by auto
  moreover have "queueSize s' = queueSize s" "quarantined s' = quarantined s" "damagedObjects s' = damagedObjects s"
    using count by (auto simp: FileCount_def db_write_def Let_def split: option.split)
  ultimately show ?thesis using assms(2) by (simp add: store_ok_def files_ok_def queue_ok_def fenced_def)
next
  case (purge e now ttl v)
  have "files_ok nfc_fold s'"
    using PurgeTombstones_files_ok purge assms(2) by (simp add: store_ok_def)
  then show ?thesis using assms(2) purge
    by (auto simp: store_ok_def PurgeTombstones_def db_write_def queue_ok_def queue_db_inv_def fenced_def
        Let_def split: option.splits)
next
  case (enqueue e now peer reason batch)
  then show ?thesis
    using queue_op_store_ok [OF frame_queue_ops(1) enqueue_queue_ok [OF store_ok_queue [OF assms(2)]] assms(2)] by simp
next
  case (resolve e peer name)
  show ?thesis unfolding resolve ResolveRepair_def
    by (rule queue_op_store_ok [OF frame_queue_ops(2) delete_rows_queue_ok [OF store_ok_queue [OF assms(2)]] assms(2)]) simp
next
  case (resolve_item e item)
  show ?thesis unfolding resolve_item ResolveRepairItem_def
    by (rule queue_op_store_ok [OF frame_queue_ops(2) delete_rows_queue_ok [OF store_ok_queue [OF assms(2)]] assms(2)]) simp
next
  case (postpone e now peer name d cause)
  then show ?thesis
    using queue_op_store_ok [OF frame_queue_ops(3) defer_rows_queue_ok [OF store_ok_queue [OF assms(2)]] assms(2)]
    by (simp add: DeferRepair_def)
next
  case (postpone_item e now item d cause)
  then show ?thesis
    using queue_op_store_ok [OF frame_queue_ops(3) defer_rows_queue_ok [OF store_ok_queue [OF assms(2)]] assms(2)]
    by (simp add: DeferRepairItem_def)
next
  case (begin_local e paths)
  have "names_reserved nfc_fold (db s)" using assms(2) by (simp add: store_ok_def files_ok_def)
  then show ?thesis
    using assms(2) begin_local begin_paths_reserves
    by (auto simp: store_ok_def BeginLocal_def db_write_def files_ok_def files_inv_def names_reserved_def
        count_inv_def live_count_def queue_ok_def queue_db_inv_def fenced_def
        split: option.splits sum.splits)
next
  case (set_quarantined e name key)
  then show ?thesis using assms(2) fenced_SetQuarantined
    by (auto simp: store_ok_def intro!: files_ok_frame [of s] queue_ok_frame [of s])
      (simp_all add: same_defs SetQuarantined_def db_write_def Let_def split: option.split)
next
  case (clear_quarantine e name key)
  then show ?thesis using assms(2) fenced_ClearQuarantine
    by (auto simp: store_ok_def intro!: files_ok_frame [of s] queue_ok_frame [of s])
      (simp_all add: same_defs ClearQuarantine_def db_write_def split: option.split)
next
  case (restart now fresh nonce)
  then show ?thesis using New_store_ok db_ok_store assms(2) by blast
next
  case (set_peer e peer ps)
  then show ?thesis using assms(2)
    by (auto simp: store_ok_def SetPeerState_def db_write_def keyed_upsert split: option.splits
        intro!: files_ok_frame [of s] queue_ok_frame [of s] fenced_frame [of s])
      (simp_all add: same_defs)
next
  case (set_cursor e peer v)
  then show ?thesis using assms(2)
    by (auto simp: store_ok_def SetCursor_def db_write_def keyed_upsert split: option.splits
        intro!: files_ok_frame [of s] queue_ok_frame [of s] fenced_frame [of s])
      (simp_all add: same_defs)
next
  case (prune e1 e2 keep)
  then show ?thesis using assms(2)
    by (auto simp: store_ok_def PruneCursors_def db_write_def keyed_filter Let_def split: option.splits
        intro!: files_ok_frame [of s] queue_ok_frame [of s] fenced_frame [of s])
      (simp_all add: same_defs)
next
  case (stage_replica e meta)
  then show ?thesis using assms(2)
    by (auto simp: store_ok_def StageReplica_def db_write_def keyed_upsert split: option.splits
        intro!: files_ok_frame [of s] queue_ok_frame [of s] fenced_frame [of s])
      (simp_all add: same_defs)
next
  case (clear_replica e name)
  then show ?thesis using assms(2)
    by (auto simp: store_ok_def ClearReplicaIntent_def db_write_def keyed_delete_key split: option.splits
        intro!: files_ok_frame [of s] queue_ok_frame [of s] fenced_frame [of s])
      (simp_all add: same_defs)
next
  case (save_partial e now p)
  then show ?thesis using assms(2)
    by (auto simp: store_ok_def SavePartialDownload_def db_write_def keyed_upsert split: option.splits
        intro!: files_ok_frame [of s] queue_ok_frame [of s] fenced_frame [of s])
      (simp_all add: same_defs)
next
  case (drop_partial e name)
  then show ?thesis using assms(2)
    by (auto simp: store_ok_def DropPartialDownload_def db_write_def keyed_delete_key split: option.splits
        intro!: files_ok_frame [of s] queue_ok_frame [of s] fenced_frame [of s])
      (simp_all add: same_defs)
qed (rule store_ok_frame [OF _ _ _ _ assms(2)];
    simp add: same_defs SetRepairLimit_def SetNodeValue_def RecordAckEpoch_def RepairQueueStats_def
      EndLocal_def db_write_def Let_def split: option.split)+

lemma store_reachable_ok: "store_reachable nfc_fold s \<Longrightarrow> store_ok nfc_fold s"
  by (induction rule: store_reachable.induct) (auto intro: New_store_ok store_step_ok)

section \<open>Opening never fails on a reachable database\<close>

lemma bind_parts_reserved:
  "\<forall>p \<in> set parts. row_of fst t (fst p) = Some p \<Longrightarrow> bind_parts parts t = Inr t"
  by (induction parts) (auto simp: insert_absent_def Let_def)

lemma bindName_reserved: "reserved_in nfc_fold t n \<Longrightarrow> bindName nfc_fold t n = Inr t"
  unfolding reserved_in_def bindName_def using bind_parts_reserved by (metis result_bind_simps(2))

lemma bind_all_reserved: "\<forall>n \<in> set ns. reserved_in nfc_fold t n \<Longrightarrow> bind_all nfc_fold ns t = Inr t"
  by (induction ns) (auto simp: bindName_reserved)

lemma New_succeeds:
  assumes "store_ok nfc_fold s"
  shows "\<exists>s'. New nfc_fold None now fresh nonce (db s) = Inr s'"
proof -
  let ?d = "migrate now (db s)"
  have "names_reserved nfc_fold (db s)" using assms by (simp add: store_ok_def files_ok_def)
  moreover have "namespace_names ?d = namespace_names (db s)" by (simp add: migrate_def Let_def)
  moreover have "map Name (files ?d) = map Name (files (db s))" by (auto simp: migrate_def Let_def)
  then have "Name ` set (files ?d) = Name ` set (files (db s))" by (metis list.set_map)
  ultimately have "\<forall>n \<in> Name ` set (files ?d). reserved_in nfc_fold (namespace_names ?d) n"
    by (auto simp: names_reserved_def)
  then have "bind_all nfc_fold (map Name (sort_key Name (filter (\<lambda>f. Name f > []) (files ?d)))) (namespace_names ?d)
      = Inr (namespace_names ?d)"
    by (intro bind_all_reserved) auto
  then have "\<exists>d'. migrateNames nfc_fold ?d = Inr d'" by (simp add: migrateNames_def)
  then show ?thesis
    by (auto simp: New_def db_read_def Let_def split: prod.split)
qed

lemma New_keeps:
  assumes "db_ok nfc_fold d" "New nfc_fold None now fresh nonce d = Inr s"
  shows "row_of Name (files (db s)) n =
      map_option (\<lambda>f. if Deleted f \<and> DeletedAt f = 0 then f\<lparr>DeletedAt := now\<rparr> else f) (row_of Name (files d) n)"
    and "map rr_key (repair_queue (db s)) = map rr_key (repair_queue d)"
    and "map rrMeta (repair_queue (db s)) = map rrMeta (repair_queue d)"
    and "last_version (db s) = max (last_version d) (max_or_zero (map Version (files d)))"
proof -
  obtain d1 where d1: "migrateNames nfc_fold (migrate now d) = Inr d1"
    using assms(2) by (auto simp: New_def db_read_def result_bind_Inr)
  note n = migrateNames_reserves [OF migrate_db_ok(1) [OF assms(1)] d1]
  have s: "files (db s) = files (migrate now d)" "repair_queue (db s) = repair_queue (migrate now d)"
    "last_version (db s) = max (last_version (migrate now d)) (max_or_zero (map Version (files (migrate now d))))"
    using assms(2) n by (auto simp: New_def db_read_def d1 Let_def loadOrCreateEpoch_def
        split: prod.splits option.splits if_splits)
  have m: "row_of Name (map f t) n = map_option f (row_of Name t n)" if "\<And>x. Name (f x) = Name x" for f t
    using that by (induction t) auto
  show "row_of Name (files (db s)) n =
      map_option (\<lambda>f. if Deleted f \<and> DeletedAt f = 0 then f\<lparr>DeletedAt := now\<rparr> else f) (row_of Name (files d) n)"
    unfolding s(1) by (simp add: migrate_def Let_def m)
  show "map rr_key (repair_queue (db s)) = map rr_key (repair_queue d)"
    "map rrMeta (repair_queue (db s)) = map rrMeta (repair_queue d)"
    unfolding s(2) by (auto simp: migrate_def migrateRepairLanes_def Let_def rr_key_def split: option.split)
  have "map Version (files (migrate now d)) = map Version (files d)" "last_version (migrate now d) = last_version d"
    by (auto simp: migrate_def Let_def)
  then show "last_version (db s) = max (last_version d) (max_or_zero (map Version (files d)))"
    using s(3) by simp
qed

section \<open>The demonstration store\<close>

lemma demo_reachable: "store_reachable ToLower demo_store"
proof (rule store_reachable.opened)
  show "db_ok ToLower empty_db" by (simp add: db_ok_def empty_db_def keyed_def)
  show "New ToLower None 10 ''e0'' ''n0'' empty_db = Inr demo_store"
    by (simp add: New_def db_read_def migrate_def migrateRepairLanes_def migrateNames_def empty_db_def
        loadOrCreateEpoch_def max_or_zero_def loadQueueSizes_def demo_store_def Let_def fun_eq_iff)
qed

lemma demo_meta_clock: "clock_ok demo_meta"
  by code_simp

lemma demo_put_reachable: "store_reachable ToLower demo_put"
  unfolding demo_put_def
  by (rule store_reachable.step [OF demo_reachable store_step.put [OF demo_meta_clock]])

lemma demo_put_files:
  "files (db demo_put) = [demo_meta\<lparr>Version := 1, Clock := 7\<rparr>]"
  by code_simp

end
