(* ===== verification/Store_Properties.thy ===== *)
theory Store_Properties
  imports Store_Machine
begin

text \<open>
  What the metadata store promises its callers, stated for every store reachable from an opened
  database by any sequence of calls, database failures and restarts.
\<close>

section \<open>Clocks and the order of states\<close>

text \<open>C1: \<open>CompareState\<close> is the comparison of a linear order: it equals the three-way comparison of
  the states' ranks, an absent state coming before every other.\<close>

theorem CompareState_linear:
  "CompareState x y = cmp_compare (map_option rank x) (map_option rank y)"
  by (rule CompareState_rank)

text \<open>C2: \<open>AdvanceClock\<close> computes on unbounded integers: whatever the clocks, the result is a valid
  clock whose value is the larger of the incoming clock and the previous clock plus one, also when
  the previous clock is the largest 64-bit integer or beyond it, and no other field changes.\<close>

theorem AdvanceClock_value:
  assumes "clock_ok f" "clock_ok p"
  shows "clock_ok (AdvanceClock f (Some p)) \<and>
    clock_value (AdvanceClock f (Some p)) = max (base_clock f) (clock_value p + 1) \<and>
    AdvanceClock f (Some p) = f\<lparr>Clock := Clock (AdvanceClock f (Some p)), BigClock := BigClock (AdvanceClock f (Some p))\<rparr>"
  using AdvanceClock_next [OF assms] AdvanceClock_fields by simp

theorem AdvanceClock_value_witness:
  "clock_value (AdvanceClock (zero_meta\<lparr>ModTime := 5\<rparr>) (Some (zero_meta\<lparr>Clock := MaxInt64\<rparr>))) = 9223372036854775808"
proof -
  have "clock_ok (zero_meta\<lparr>ModTime := 5\<rparr>)" "clock_ok (zero_meta\<lparr>Clock := MaxInt64\<rparr>)"
    by (simp_all add: clock_ok_def ValidateClock_def zero_meta_def in_int64_def)
  from AdvanceClock_value [OF this] show ?thesis
    by (simp add: base_clock_def clock_value_def StateClock_def zero_meta_def)
qed

section \<open>Reachable stores\<close>

text \<open>C7: Every reachable store satisfies the invariant: names and versions identify their rows, no
  version exceeds the counter, every clock is valid, every indexed name holds its reservation, the
  in-memory counters agree with the tables, and everything recorded as damaged is fenced.\<close>

theorem reachable_store_ok:
  assumes "store_reachable nfc_fold s"
  shows "store_ok nfc_fold s"
  using assms by (rule store_reachable_ok)

theorem reachable_store_ok_witness: "store_ok ToLower demo_put"
  by (rule reachable_store_ok [OF demo_put_reachable])

text \<open>C8: No two files of a reachable store have names that differ only by case folding and
  normalisation.\<close>

theorem reachable_spelling_unique:
  assumes "store_reachable nfc_fold s" "f \<in> set (files (db s))" "g \<in> set (files (db s))"
    "folded_name nfc_fold (Name f) = folded_name nfc_fold (Name g)"
  shows "f = g"
proof -
  have "store_ok nfc_fold s" using assms(1) by (rule store_reachable_ok)
  then have n: "names_reserved nfc_fold (db s)" "keyed Name (files (db s))"
    by (simp_all add: store_ok_def files_ok_def files_inv_def)
  then have "Name f = Name g"
    using reserved_unique [of nfc_fold "namespace_names (db s)"] assms by (simp add: names_reserved_def)
  then show ?thesis using n(2) assms(2,3) by (auto simp: keyed_def distinct_map inj_on_def)
qed

theorem reachable_spelling_unique_witness:
  "\<exists>f. f \<in> set (files (db demo_put)) \<and>
     (\<forall>g \<in> set (files (db demo_put)). folded_name ToLower (Name f) = folded_name ToLower (Name g) \<longrightarrow> f = g)"
  using reachable_spelling_unique [OF demo_put_reachable] by (simp add: demo_put_files)

text \<open>\<open>CheckName\<close> accepts a name exactly when writing it would not collide with a reserved
  spelling or be refused as malformed.\<close>

theorem CheckName_iff_bindName:
  "CheckName nfc_fold None s name = Inr () \<longleftrightarrow>
   (\<exists>t. bindName nfc_fold (namespace_names (db s)) name = Inr t)"
proof (cases "nameParts nfc_fold name")
  case (Inr parts)
  then show ?thesis
    using bind_parts_ok [OF nameParts_distinct [OF Inr], of "namespace_names (db s)"]
      check_parts_ok [of parts "namespace_names (db s)"]
    by (simp add: CheckName_def bindName_def db_read_def)
qed (simp add: CheckName_def bindName_def)

section \<open>Writing states\<close>

text \<open>C9: A local write supersedes everything it can displace: its clock exceeds the clock of every
  state, live or deleted, of the same name, of its ancestors and of its descendants.\<close>

theorem PutLocal_supersedes:
  assumes "store_reachable nfc_fold s" "clock_ok meta" "PutLocal nfc_fold e now s meta = (Inr v, s')"
    "r \<in> set (files (db s))" "Name r = Name meta \<or> NamespaceConflict (Name meta) (Name r)"
  shows "\<exists>row. row_of Name (files (db s')) (Name meta) = Some row \<and> clock_value r < clock_value row \<and>
    Hash row = Hash meta \<and> Deleted row = Deleted meta"
proof -
  have rows: "\<forall>x \<in> set (files (db s)). clock_ok x"
    using store_reachable_ok [OF assms(1)] by (auto simp: store_ok_def files_ok_def files_inv_def)
  from assms(3) [unfolded PutLocal_def] show ?thesis
  proof (cases rule: commitPut_cases)
    case (ok names m row ver)
    have "canonical_name (Name meta)"
      using ok(4) nameParts_ok by (auto simp: bindName_def result_bind_Inr)
    then have "in_namespace (Name meta) (Name r)" using assms(5) by (auto simp: in_namespace_iff)
    then have "clock_value r < clock_value m"
      using AdvanceClock_namespace(2) [OF rows assms(2,4)] ok(6) by simp
    then show ?thesis using ok by (simp add: row_of_upsert)
  qed simp
qed

theorem PutLocal_supersedes_witness:
  "\<exists>s' row. PutLocal ToLower None 30 demo_put (zero_meta\<lparr>Name := ''docs'', ModTime := 2\<rparr>) = (Inr 2, s') \<and>
     row_of Name (files (db s')) ''docs'' = Some row \<and> 7 < clock_value row"
proof -
  let ?m = "zero_meta\<lparr>Name := ''docs'', ModTime := 2\<rparr>"
  let ?r = "demo_meta\<lparr>Version := 1, Clock := 7\<rparr>"
  have c: "clock_ok ?m" by code_simp
  have p: "fst (PutLocal ToLower None 30 demo_put ?m) = Inr 2" by code_simp
  then obtain s' where s': "PutLocal ToLower None 30 demo_put ?m = (Inr 2, s')"
    by (metis prod.collapse)
  have "Name ?r = Name ?m \<or> NamespaceConflict (Name ?m) (Name ?r)" "clock_value ?r = 7" "Name ?m = ''docs''"
    by code_simp+
  then show ?thesis
    using PutLocal_supersedes [OF demo_put_reachable c s', of ?r] s' by (simp add: demo_put_files) metis
qed

text \<open>A write that succeeds takes the next version, above every version in use; one that fails,
  for whatever reason, leaves the store exactly as it was.\<close>

theorem commitPut_version:
  assumes "store_reachable nfc_fold s"
  shows "case commitPut nfc_fold e now s meta local of
     (Inl err, s') \<Rightarrow> s' = s
   | (Inr v, s') \<Rightarrow> v = MaxVersion s + 1 \<and> MaxVersion s' = v \<and> v = last_version (db s') \<and>
       (\<exists>row. row_of Name (files (db s')) (Name meta) = Some row \<and> Version row = v) \<and>
       (\<forall>f \<in> set (files (db s)). Version f < v) \<and>
       (\<forall>n. n \<noteq> Name meta \<longrightarrow> row_of Name (files (db s')) n = row_of Name (files (db s)) n)"
proof -
  obtain r s' where put: "commitPut nfc_fold e now s meta local = (r, s')" by fastforce
  have inv: "cachedNextVer s = last_version (db s) + 1" "0 \<le> last_version (db s)"
    "\<forall>f \<in> set (files (db s)). Version f \<le> last_version (db s)"
    using store_reachable_ok [OF assms]
    by (auto simp: store_ok_def files_ok_def files_inv_def count_inv_def)
  from put show ?thesis
  proof (cases rule: commitPut_cases)
    case (ok names m row ver)
    then show ?thesis using put inv by (auto simp: MaxVersion_def row_of_upsert)
  qed (use put in simp)
qed

theorem commitPut_version_witness:
  "fst (commitPut ToLower None 30 demo_put demo_meta False) = Inr (MaxVersion demo_put + 1) \<and>
   snd (commitPut ToLower None 30 demo_put (demo_meta\<lparr>Name := ''DOCS/b''\<rparr>) False) = demo_put"
proof -
  have "fst (commitPut ToLower None 30 demo_put demo_meta False) = Inr 2"
    "\<exists>x. fst (commitPut ToLower None 30 demo_put (demo_meta\<lparr>Name := ''DOCS/b''\<rparr>) False) = Inl x"
    by (code_simp, intro exI, code_simp)
  then show ?thesis
    using commitPut_version [OF demo_put_reachable, where e = None and now = 30 and meta = demo_meta and local = False]
      commitPut_version [OF demo_put_reachable, where e = None and now = 30 and local = False
        and meta = "demo_meta\<lparr>Name := ''DOCS/b''\<rparr>"]
    by (auto split: prod.splits sum.splits)
qed

section \<open>Reading the change stream\<close>

text \<open>A peer that reads the change stream page by page, whatever the page size, receives every
  row above its cursor exactly once, in version order.\<close>

theorem GetChanges_complete:
  assumes "store_reachable nfc_fold s" "0 < limit"
  shows "scan_pages (length (files (db s))) (\<lambda>since. rows_or_nil (GetChanges None s since limit)) Version since =
    filter (\<lambda>f. since < Version f) (sort_key Version (files (db s)))"
  using changes.scan_complete [of s "length (files (db s))" limit since] store_reachable_ok [OF assms(1)] assms(2)
  by (simp add: store_ok_def files_ok_def files_inv_def)

theorem GetChanges_complete_witness:
  "scan_pages 1 (\<lambda>since. rows_or_nil (GetChanges None demo_put since 500)) Version 0 =
   [demo_meta\<lparr>Version := 1, Clock := 7\<rparr>]"
  using GetChanges_complete [OF demo_put_reachable, of 500 0] by (simp add: demo_put_files)

text \<open>The manifest walk of reconciliation visits every name after its position exactly once, in
  name order, tombstones included.\<close>

theorem ListManifest_complete:
  assumes "store_reachable nfc_fold s" "0 < limit"
  shows "scan_pages (length (files (db s))) (\<lambda>after. rows_or_nil (ListManifest None s after limit)) Name after =
    filter (\<lambda>f. after < Name f) (sort_key Name (files (db s)))"
  using manifest.scan_complete [of s "length (files (db s))" limit after] store_reachable_ok [OF assms(1)] assms(2)
  by (simp add: store_ok_def files_ok_def files_inv_def)

theorem ListManifest_complete_witness:
  "scan_pages 1 (\<lambda>after. rows_or_nil (ListManifest None demo_put after 1000)) Name [] =
   [demo_meta\<lparr>Version := 1, Clock := 7\<rparr>]"
  using ListManifest_complete [OF demo_put_reachable, of 1000 "[]"]
  by (simp add: demo_put_files demo_meta_def nil_less)

text \<open>\<open>FileCount\<close> never returns a stale count: cached or not, the number it reports is the number
  of live files.\<close>

theorem FileCount_exact:
  assumes "store_reachable nfc_fold s" "fst (FileCount e s) = Inr n"
  shows "n = live_count (db s)"
  using FileCount_inv(2) [of s e n] store_reachable_ok [OF assms(1)] assms(2)
  by (simp add: store_ok_def files_ok_def files_inv_def)

theorem FileCount_exact_witness: "live_count (db (snd (FileCount None demo_put))) = 1"
proof -
  have r: "store_reachable ToLower (snd (FileCount None demo_put))"
    by (rule store_reachable.step [OF demo_put_reachable store_step.count])
  have "fst (FileCount None (snd (FileCount None demo_put))) = Inr 1" by code_simp
  from FileCount_exact [OF r this] show ?thesis by simp
qed

section \<open>Restarts\<close>

text \<open>C10: A restart always succeeds and forgets nothing: the database of a reachable store opens
  again, with the same rows (tombstones from before the deletion time was recorded are dated now),
  the same queued work and the same version counter.\<close>

theorem restart_keeps_everything:
  assumes "store_reachable nfc_fold s"
  shows "\<exists>s'. New nfc_fold None now fresh nonce (db s) = Inr s' \<and> MaxVersion s' = MaxVersion s \<and>
    (\<forall>n. row_of Name (files (db s')) n =
       map_option (\<lambda>f. if Deleted f \<and> DeletedAt f = 0 then f\<lparr>DeletedAt := now\<rparr> else f) (row_of Name (files (db s)) n)) \<and>
    map rr_key (repair_queue (db s')) = map rr_key (repair_queue (db s)) \<and>
    map rrMeta (repair_queue (db s')) = map rrMeta (repair_queue (db s))"
proof -
  have ok: "store_ok nfc_fold s" using assms by (rule store_reachable_ok)
  obtain s' where s': "New nfc_fold None now fresh nonce (db s) = Inr s'"
    using New_succeeds [OF ok] by blast
  note k = New_keeps [OF db_ok_store [OF ok] s']
  have "max_or_zero (map Version (files (db s))) \<le> last_version (db s)"
    using ok max_or_zero_mem [of "map Version (files (db s))"]
    by (cases "files (db s) = []") (auto simp: store_ok_def files_ok_def files_inv_def max_or_zero_def)
  then have "last_version (db s') = last_version (db s)" using k(4) by simp
  moreover have "store_ok nfc_fold s'" by (rule New_store_ok [OF db_ok_store [OF ok] s'])
  ultimately have "MaxVersion s' = MaxVersion s"
    using ok by (simp add: MaxVersion_def store_ok_def files_ok_def count_inv_def)
  then show ?thesis using s' k by blast
qed

theorem restart_keeps_everything_witness:
  "\<exists>s'. New ToLower None 50 ''e1'' ''n1'' (db demo_put) = Inr s' \<and> MaxVersion s' = MaxVersion demo_put"
  using restart_keeps_everything [OF demo_put_reachable, of 50 "''e1''" "''n1''"] by blast

text \<open>C11: Damage is never served: a name recorded as quarantined is fenced in memory in every
  reachable store, and \<open>SetQuarantined\<close> fences a name even when recording it fails.\<close>

theorem quarantine_fenced:
  assumes "store_reachable nfc_fold s"
  shows "(\<forall>n \<in> set (quarantine (db s)). IsQuarantined s n) \<and>
    IsQuarantined (snd (SetQuarantined e s name key)) name \<and> IsDamagedObject (snd (SetQuarantined e s name key)) key"
  using store_reachable_ok [OF assms] SetQuarantined_fences [of e s name key]
  by (auto simp: store_ok_def fenced_def IsQuarantined_def)

theorem quarantine_fenced_witness:
  "IsQuarantined (snd (SetQuarantined (Some ''disk full'') demo_put ''docs/a'' ''k'')) ''docs/a''"
  using quarantine_fenced [OF demo_put_reachable, of "Some ''disk full''" "''docs/a''" "''k''"] by blast

section \<open>The repair queue\<close>

text \<open>When \<open>EnqueueChanges\<close> reports no error, every change of the page is held by the queue in
  the announced state or a newer one, so the caller may advance its cursor.\<close>

theorem EnqueueChanges_records:
  assumes "EnqueueChanges e now s peer metas reason = ((n, None), s')" "m \<in> set metas"
  shows "holds_at_least (repair_queue (db s')) peer m"
  using assms by (rule EnqueueChanges_holds)

theorem EnqueueChanges_records_witness:
  "holds_at_least (repair_queue (db (snd (EnqueueChanges None 40 demo_put ''p'' [demo_meta] ''polled'')))) ''p'' demo_meta"
proof -
  have "fst (EnqueueChanges None 40 demo_put ''p'' [demo_meta] ''polled'') = (1, None)" by code_simp
  then show ?thesis
    using EnqueueChanges_records [of None 40 demo_put "''p''" "[demo_meta]" "''polled''" 1 _ demo_meta]
    by (metis list.set_intros(1) prod.collapse)
qed

text \<open>C12: A state in the queue is only ever replaced by a newer one: whatever is enqueued afterwards,
  for whatever peer and with whatever outcome, the queue still holds it or something newer.\<close>

theorem enqueue_never_regresses:
  assumes "holds_at_least (repair_queue (db s)) peer m"
  shows "holds_at_least (repair_queue (db (snd (enqueue e now s peer' reason batch)))) peer m"
  using assms
    enqueue_loop_monotone [of "enqueue_start s" peer m peer' reason now "repairLimit s" "queuedFor s peer'" batch]
  by (simp add: enqueue_def Let_def addQueueSize_def invalidateQueueStats_def split: option.split)

theorem enqueue_never_regresses_witness:
  "\<exists>s. holds_at_least (repair_queue (db s)) ''p'' demo_meta \<and>
     holds_at_least (repair_queue (db (snd (enqueue None 50 s ''p'' ''x'' [change_of (demo_meta\<lparr>ModTime := 3\<rparr>)])))) ''p'' demo_meta"
proof -
  let ?s = "snd (EnqueueChanges None 40 demo_put ''p'' [demo_meta] ''polled'')"
  have "row_of rr_key (repair_queue (db ?s)) (''p'', Name demo_meta) = Some
      \<lparr> rrPeer = ''p'', rrName = ''docs/a'', rrVersion = 0, rrAttempts = 0, rrNextAttempt = 40, rrFirstSeen = 40,
        rrLastError = ''polled'', rrMeta = Some demo_meta, rrRevision = 1, rrLarge = False \<rparr>"
    by code_simp
  then have "holds_at_least (repair_queue (db ?s)) ''p'' demo_meta"
    by (simp add: holds_at_least_def CompareState_refl)
  then show ?thesis using enqueue_never_regresses [of ?s] by blast
qed

text \<open>C13: The cap holds: a peer within its limit is within it after any batch, and the count the
  queue maintains is the number of its rows.\<close>

theorem enqueue_within_limit:
  assumes "store_reachable nfc_fold s" "0 < repairLimit s" "PendingRepairCount s peer \<le> repairLimit s"
  shows "let s' = snd (enqueue e now s peer reason batch)
    in PendingRepairCount s' peer \<le> repairLimit s \<and> PendingRepairCount s' peer = queue_count (repair_queue (db s')) peer"
proof -
  have q: "queue_ok s" using store_reachable_ok [OF assms(1)] by (simp add: store_ok_def)
  then have q': "queue_ok (snd (enqueue e now s peer reason batch))" by (rule enqueue_queue_ok)
  have nn: "0 \<le> queuedFor s peer" using q by (simp add: queue_ok_def queuedFor_def queue_count_def)
  have "queuedFor s peer + eqFresh (enqueue_loop peer reason now (repairLimit s) (queuedFor s peer) batch (enqueue_start s))
      \<le> repairLimit s"
    using assms(2,3) by (intro enqueue_loop_limit) (simp_all add: PendingRepairCount_def)
  then have "queuedFor (snd (enqueue e now s peer reason batch)) peer \<le> repairLimit s"
    using assms(2,3) nn
    by (auto simp: Let_def PendingRepairCount_def queuedFor_def enqueue_def addQueueSize_def
        invalidateQueueStats_def split: option.split)
  then show ?thesis using q' by (simp add: Let_def PendingRepairCount_def queuedFor_def queue_ok_def)
qed

theorem enqueue_within_limit_witness:
  "PendingRepairCount (snd (EnqueueChanges None 40 demo_put ''p'' [demo_meta] ''polled'')) ''p'' \<le> 100000"
proof -
  have "0 < repairLimit demo_put" "PendingRepairCount demo_put ''p'' \<le> repairLimit demo_put" "repairLimit demo_put = 100000"
    by code_simp+
  then show ?thesis
    using enqueue_within_limit [OF demo_put_reachable, of "''p''" None 40 "''polled''" "[change_of demo_meta]"]
    by (simp add: EnqueueChanges_def Let_def)
qed

text \<open>C14: A worker that finishes an item cannot erase work recorded while it ran: if a newer state of
  the name was written to the queue after the item was read, resolving the item leaves it there.\<close>

theorem ResolveRepairItem_keeps_newer:
  assumes "queue_ok s" "item_row \<in> set (repair_queue (db s))" "rrMeta item_row = Some k"
    "rrPeer item_row = peer" "rrName item_row = Name m" "CompareState (Some k) (Some m) < 0"
    "EnqueueChange e now s peer m reason = (None, s')"
  shows "holds_at_least (repair_queue (db (snd (ResolveRepairItem e' s' (item_of_row item_row))))) peer m"
proof -
  have q: "keyed rr_key (repair_queue (db s))" "\<forall>r \<in> set (repair_queue (db s)). rrRevision r \<le> repair_revision (db s)"
    using assms(1) by (auto simp: queue_ok_def queue_db_inv_def)
  have old: "row_of rr_key (repair_queue (db s)) (peer, Name m) = Some item_row"
    using q(1) assms(2,4,5) by (simp add: row_of_Some rr_key_def)
  have nle: "\<not> CompareState (Some m) (Some k) \<le> 0" using assms(6) CompareState_swap [of "Some k" "Some m"] by simp
  let ?row = "queue_row peer reason now (change_of m) (Some (json_meta m)) (repair_revision (db s) + 1)
      (IsLargeRepair (Some m)) (Some item_row)"
  have "e = None" using assms(7) by (auto simp: EnqueueChange_def enqueueRepair_def enqueue_def split: option.splits)
  then have s': "repair_queue (db s') = upsert rr_key ?row (repair_queue (db s))"
    using assms(3,7) old nle
    by (auto simp: EnqueueChange_def enqueueRepair_def enqueue_def change_of_def Let_def
        addQueueSize_def invalidateQueueStats_def split: if_splits)
  have key: "rr_key ?row = (peer, Name m)"
    using queue_row_key [of "Some item_row" peer "change_of m"] assms(4,5) by (simp add: change_of_def rr_key_def)
  have kq: "keyed rr_key (repair_queue (db s'))" unfolding s' by (rule keyed_upsert [OF q(1)])
  have rows: "row_of rr_key (repair_queue (db s')) (peer, Name m) = Some ?row"
    unfolding s' by (simp add: row_of_upsert key)
  have rev: "rrRevision ?row \<noteq> rrRevision item_row" using q(2) assms(2) by fastforce
  have "row_of rr_key (repair_queue (db (snd (ResolveRepairItem e' s' (item_of_row item_row))))) (peer, Name m) = Some ?row"
    using rows rev kq
    by (auto simp: ResolveRepairItem_def delete_rows_def addQueueSize_def item_of_row_def row_of_filter Let_def
        simp del: queue_row_fields split: option.split)
  then show ?thesis by (simp add: holds_at_least_def CompareState_refl)
qed

theorem ResolveRepairItem_keeps_newer_witness:
  "\<exists>s s' r. EnqueueChange None 60 s ''p'' (demo_meta\<lparr>ModTime := 9\<rparr>) ''x'' = (None, s') \<and>
     holds_at_least (repair_queue (db (snd (ResolveRepairItem None s' (item_of_row r))))) ''p'' (demo_meta\<lparr>ModTime := 9\<rparr>)"
proof -
  let ?s = "snd (EnqueueChanges None 40 demo_put ''p'' [demo_meta] ''polled'')"
  let ?r = "\<lparr> rrPeer = ''p'', rrName = ''docs/a'', rrVersion = 0, rrAttempts = 0, rrNextAttempt = 40, rrFirstSeen = 40,
        rrLastError = ''polled'', rrMeta = Some demo_meta, rrRevision = 1, rrLarge = False \<rparr>"
  have q: "queue_ok ?s"
    unfolding EnqueueChanges_def
    using enqueue_queue_ok store_reachable_ok [OF demo_put_reachable] by (simp add: store_ok_def)
  have r: "?r \<in> set (repair_queue (db ?s))" by code_simp
  have e: "fst (EnqueueChange None 60 ?s ''p'' (demo_meta\<lparr>ModTime := 9\<rparr>) ''x'') = None" by code_simp
  then obtain s' where s': "EnqueueChange None 60 ?s ''p'' (demo_meta\<lparr>ModTime := 9\<rparr>) ''x'' = (None, s')"
    by (metis prod.collapse)
  have c: "rrName ?r = Name (demo_meta\<lparr>ModTime := 9\<rparr>)" "CompareState (Some demo_meta) (Some (demo_meta\<lparr>ModTime := 9\<rparr>)) < 0"
    by code_simp+
  show ?thesis
    using ResolveRepairItem_keeps_newer [OF q r _ _ c s'] s' by (metis repair_row.select_convs(1,8))
qed



end
