(* ===== verification/Namespace_Rules.thy ===== *)
theory Namespace_Rules
  imports Go_Paths
begin

text \<open>
  Which names the node indexes, replicates and serves: ignore patterns (\<open>ShouldIgnore\<close> of
  watcher/watcher.go, with the glob matching of \<open>filepath.Match\<close>), and the reserved namespace of
  the gateways (gateway/gateway.go: \<open>IsReserved\<close>, \<open>IsScratchFile\<close>, \<open>validateClientPath\<close>,
  \<open>ClientVisibleName\<close>, \<open>SafePath\<close>). What the operating system says about symbolic links is a
  parameter of \<open>SafePath\<close>.
\<close>

section \<open>Glob patterns\<close>

datatype glob_tok = GStar | GAny | GLit char | GClass bool "(nat \<times> nat) list"

text \<open>\<open>utf8.DecodeRuneInString\<close>: the code point at the front and its width; an invalid encoding is
  U+FFFD of width one.\<close>

fun utf8_tail_ok :: "(nat \<times> nat) list \<Rightarrow> string \<Rightarrow> bool" where
  "utf8_tail_ok [] s = True"
| "utf8_tail_ok (r # rs) [] = False"
| "utf8_tail_ok (r # rs) (a # s) = (fst r \<le> (of_char a :: nat) \<and> (of_char a :: nat) \<le> snd r \<and> utf8_tail_ok rs s)"

definition decode_rune :: "string \<Rightarrow> nat \<times> nat" where
  "decode_rune s =
     (case s of
        [] \<Rightarrow> (0xFFFD, 0)
      | a # r \<Rightarrow>
          (case utf8_lead (of_char a) of
             None \<Rightarrow> (0xFFFD, 1)
           | Some rs \<Rightarrow>
               if utf8_tail_ok rs r
               then (foldl (\<lambda>v c. v * 64 + (of_char c - 0x80))
                       (case length rs of 0 \<Rightarrow> of_char a | Suc 0 \<Rightarrow> of_char a - 0xC0
                        | Suc (Suc 0) \<Rightarrow> of_char a - 0xE0 | _ \<Rightarrow> of_char a - 0xF0)
                       (take (length rs) r), 1 + length rs)
               else (0xFFFD, 1)))"

text \<open>\<open>getEsc\<close>: one possibly escaped code point of a character class and the pattern after it.\<close>

definition get_esc :: "string \<Rightarrow> (nat \<times> string) option" where
  "get_esc p =
     (case p of
        [] \<Rightarrow> None
      | c # r \<Rightarrow>
          if c = CHR ''-'' \<or> c = CHR '']'' then None
          else let q = (if c = CHR 0x5C then r else p)
               in if q = [] then None
                  else let (v, n) = decode_rune q; rest = drop (max 1 n) q
                       in if v = 0xFFFD \<and> n = 1 \<or> rest = [] then None else Some (v, rest))"

text \<open>The ranges of a character class up to its closing bracket, at least one.\<close>

fun class_ranges :: "nat \<Rightarrow> string \<Rightarrow> (nat \<times> nat) list \<Rightarrow> ((nat \<times> nat) list \<times> string) option" where
  "class_ranges 0 p acc = None"
| "class_ranges (Suc k) p acc =
     (if p \<noteq> [] \<and> hd p = CHR '']'' \<and> acc \<noteq> [] then Some (rev acc, tl p)
      else case get_esc p of
             None \<Rightarrow> None
           | Some (lo, r) \<Rightarrow>
               if hd r = CHR ''-''
               then (case get_esc (tl r) of
                       None \<Rightarrow> None
                     | Some (hi, r') \<Rightarrow> class_ranges k r' ((lo, hi) # acc))
               else class_ranges k r ((lo, lo) # acc))"

fun glob_parse :: "nat \<Rightarrow> string \<Rightarrow> glob_tok list option" where
  "glob_parse k [] = Some []"
| "glob_parse 0 (c # p) = None"
| "glob_parse (Suc k) (c # p) =
     (if c = CHR ''*'' then map_option ((#) GStar) (glob_parse k p)
      else if c = CHR ''?'' then map_option ((#) GAny) (glob_parse k p)
      else if c = CHR 0x5C then (case p of [] \<Rightarrow> None | d # q \<Rightarrow> map_option ((#) (GLit d)) (glob_parse k q))
      else if c = CHR ''['' then
        (let neg = (p \<noteq> [] \<and> hd p = CHR ''^'')
         in case class_ranges (Suc (length p)) (if neg then tl p else p) [] of
              None \<Rightarrow> None
            | Some (rs, q) \<Rightarrow> map_option ((#) (GClass neg rs)) (glob_parse k q))
      else map_option ((#) (GLit c)) (glob_parse k p))"

fun glob_match :: "glob_tok list \<Rightarrow> string \<Rightarrow> bool" where
  "glob_match [] s = (s = [])"
| "glob_match (GStar # ts) [] = glob_match ts []"
| "glob_match (GStar # ts) (c # s) =
     (glob_match ts (c # s) \<or> (c \<noteq> CHR ''/'' \<and> glob_match (GStar # ts) s))"
| "glob_match (GAny # ts) [] = False"
| "glob_match (GAny # ts) (c # s) =
     (c \<noteq> CHR ''/'' \<and> glob_match ts (drop (snd (decode_rune (c # s))) (c # s)))"
| "glob_match (GLit a # ts) [] = False"
| "glob_match (GLit a # ts) (c # s) = (a = c \<and> glob_match ts s)"
| "glob_match (GClass neg rs # ts) [] = False"
| "glob_match (GClass neg rs # ts) (c # s) =
     (list_ex (\<lambda>r. fst r \<le> fst (decode_rune (c # s)) \<and> fst (decode_rune (c # s)) \<le> snd r) rs \<noteq> neg \<and>
      glob_match ts (drop (snd (decode_rune (c # s))) (c # s)))"

text \<open>The first result of \<open>filepath.Match\<close>: a malformed pattern matches nothing.\<close>

definition Match :: "string \<Rightarrow> string \<Rightarrow> bool" where
  "Match pattern name =
     (case glob_parse (length pattern) pattern of None \<Rightarrow> False | Some ts \<Rightarrow> glob_match ts name)"

section \<open>Ignored and reserved names\<close>

definition isOutsideSyncDir :: "string \<Rightarrow> bool" where
  "isOutsideSyncDir relPath \<longleftrightarrow> HasPrefix relPath ''../'' \<or> relPath = ''..''"

definition ShouldIgnore :: "string \<Rightarrow> string list \<Rightarrow> bool" where
  "ShouldIgnore relPath patterns =
     (let parts = Split relPath CHR ''/'';
          base = path_Base relPath
      in if hd parts = ''.birak'' then True
         else if Match ''.birak-tmp-*'' base then True
         else if Match ''.birak-bak-*'' base then True
         else if list_ex (\<lambda>p. Match p base) patterns then True
         else list_ex (\<lambda>part. list_ex (\<lambda>p. Match p part) patterns) (butlast parts))"

definition ReservedDirName :: string where
  "ReservedDirName = ''.birak''"

definition IsReserved :: "string \<Rightarrow> bool" where
  "IsReserved name = EqualFold name ReservedDirName"

definition tempFilePrefix :: string where
  "tempFilePrefix = ''.birak-tmp-''"

definition backupFilePrefix :: string where
  "backupFilePrefix = ''.birak-bak-''"

definition IsScratchFile :: "string \<Rightarrow> bool" where
  "IsScratchFile name \<longleftrightarrow> HasPrefix name tempFilePrefix \<or> HasPrefix name backupFilePrefix"

definition hasPrefixFold :: "string \<Rightarrow> string \<Rightarrow> bool" where
  "hasPrefixFold s p \<longleftrightarrow> length s \<ge> length p \<and> EqualFold (take (length p) s) p"

definition isScratchSpelling :: "string \<Rightarrow> bool" where
  "isScratchSpelling name \<longleftrightarrow> hasPrefixFold name tempFilePrefix \<or> hasPrefixFold name backupFilePrefix"

datatype path_error = IgnoredPath | InvalidName | ReservedPath | PathTraversal

definition validateClientPath :: "string \<Rightarrow> string list \<Rightarrow> (path_error, unit) result" where
  "validateClientPath rel ignorePatterns =
     (if rel \<noteq> [] \<and> ignorePatterns \<noteq> [] \<and> ShouldIgnore rel ignorePatterns then Inl IgnoredPath
      else if CHR 0x00 \<in> set rel then Inl InvalidName
      else if IsReserved (case Cut rel CHR ''/'' of None \<Rightarrow> rel | Some (a, _) \<Rightarrow> a) then Inl ReservedPath
      else if list_ex isScratchSpelling (Split rel CHR ''/'') then Inl ReservedPath
      else Inr ())"

definition ClientVisibleName :: "string \<Rightarrow> string \<Rightarrow> string list \<Rightarrow> bool" where
  "ClientVisibleName dirRel name ignorePatterns =
     (if dirRel = [] \<and> IsReserved name then False
      else if CHR 0x00 \<in> set name \<or> isScratchSpelling name then False
      else if list_ex (\<lambda>p. Match p name) ignorePatterns then False
      else True)"

section \<open>Resolving a client path\<close>

text \<open>What \<open>SafePath\<close> asks of the operating system, for an absolute root: the root with symbolic links
  resolved, when it can be, and the target of a path resolved through its deepest existing
  ancestor.\<close>

record link_view =
  realRoot :: "string option"
  evalDeepestAncestor :: "string \<Rightarrow> string"

definition resolveNoSymlinkEscape ::
    "link_view \<Rightarrow> string \<Rightarrow> string \<Rightarrow> (path_error, string \<times> string \<times> bool) result" where
  "resolveNoSymlinkEscape fs rootDir full =
     (let absRoot = path_Clean rootDir; absFull = path_Clean full
      in case realRoot fs of
           None \<Rightarrow> Inr (absFull, absRoot, False)
         | Some real \<Rightarrow>
             let resolved = evalDeepestAncestor fs absFull
             in if resolved \<noteq> real \<and> \<not> HasPrefix resolved (real @ ''/'') then Inl PathTraversal
                else Inr (resolved, real, True))"

text \<open>\<open>filepath.Rel\<close> for a target that is the base or below it.\<close>

definition path_Rel_below :: "string \<Rightarrow> string \<Rightarrow> string" where
  "path_Rel_below base targ = (if targ = base then ''.'' else TrimPrefix targ (base @ ''/''))"

definition clean_request :: "string \<Rightarrow> string" where
  "clean_request reqPath =
     (let cleaned = path_Clean reqPath
      in TrimPrefix (if cleaned = ''.'' \<or> cleaned = ''/'' then [] else cleaned) ''/'')"

definition SafePath ::
    "link_view \<Rightarrow> string \<Rightarrow> string \<Rightarrow> string list \<Rightarrow> (path_error, string \<times> string) result" where
  "SafePath fs rootDir reqPath ignorePatterns =
     (let cleaned = clean_request reqPath
      in if HasPrefix cleaned ''../'' \<or> cleaned = ''..'' then Inl PathTraversal
         else if cleaned = [] then Inr ([], rootDir)
         else result_bind (validateClientPath cleaned ignorePatterns) (\<lambda>_.
           let full = path_Join [rootDir, cleaned]
           in if \<not> HasPrefix (path_Clean full) (path_Clean rootDir @ ''/'') then Inl PathTraversal
              else result_bind (resolveNoSymlinkEscape fs rootDir full) (\<lambda>(resolved, real, rootResolved).
                if \<not> rootResolved then Inr (cleaned, full)
                else
                  let rel0 = path_Rel_below real resolved;
                      rel = (if rel0 = ''.'' then [] else rel0)
                  in result_bind (validateClientPath rel ignorePatterns) (\<lambda>_. Inr (cleaned, full)))))"

definition CheckBasicAuth :: "(string \<times> string) option \<Rightarrow> string \<Rightarrow> string \<Rightarrow> bool" where
  "CheckBasicAuth given username password =
     (if username = [] \<and> password = [] then True
      else if username = [] \<or> password = [] then False
      else case given of
             None \<Rightarrow> False
           | Some (user, pass) \<Rightarrow> user = username \<and> pass = password)"

text \<open>Status classes of the request counter; Go's division truncates, so -99 to 99 is the first.\<close>

definition status_class :: "int \<Rightarrow> string" where
  "status_class status =
     (let c = (if status < 0 then - ((- status) div 100) else status div 100)
      in if c \<ge> 0 \<and> c < 6 then [''0xx'', ''1xx'', ''2xx'', ''3xx'', ''4xx'', ''5xx''] ! nat c else ''other'')"

section \<open>Lemmas\<close>

lemma clean_parts_shape:
  "\<forall>p \<in> set ps. CHR ''/'' \<notin> set p \<Longrightarrow> list_all good_part hs \<Longrightarrow> (rooted \<longrightarrow> k = 0) \<Longrightarrow>
   \<exists>j gs. clean_parts rooted ps (hs @ replicate k ''..'') = replicate j ''..'' @ gs \<and>
     list_all good_part gs \<and> (rooted \<longrightarrow> j = 0)"
proof (induction ps arbitrary: hs k)
  case Nil
  then show ?case by (intro exI [of _ k] exI [of _ "rev hs"]) simp
next
  case (Cons p ps)
  note IH = Cons.IH [OF _ _ _]
  have ps: "\<forall>q \<in> set ps. CHR ''/'' \<notin> set q" using Cons.prems by simp
  consider "p = [] \<or> p = ''.''" | "p = ''..''" "hs = []" "k = 0" "rooted"
    | "p = ''..''" "hs = []" "\<not> rooted"
    | h hs' where "p = ''..''" "hs = h # hs'" | "good_part p"
    using Cons.prems by (cases hs) (auto simp: good_part_def)
  then show ?case
  proof cases
    case 1
    then show ?thesis using Cons.IH [OF ps Cons.prems(2,3)] by simp
  next
    case 2
    then show ?thesis using Cons.IH [OF ps, of "[]" 0] by simp
  next
    case 3
    have "clean_parts rooted (p # ps) (hs @ replicate k ''..'') = clean_parts rooted ps ([] @ replicate (Suc k) ''..'')"
      using 3 by (cases k) simp_all
    then show ?thesis using Cons.IH [OF ps, of "[]" "Suc k"] 3 by simp
  next
    case (4 h hs')
    then have "h \<noteq> ''..''" using Cons.prems(2) by (simp add: good_part_def)
    then show ?thesis using Cons.IH [OF ps, of hs' k] 4 Cons.prems by simp
  next
    case 5
    then show ?thesis using Cons.IH [OF ps, of "p # hs" k] Cons.prems by (simp add: good_part_def)
  qed
qed

lemma path_Clean_unrooted:
  assumes "\<not> HasPrefix p ''/''"
  obtains j gs where "path_Clean p = (if j = 0 \<and> gs = [] then ''.'' else Join (replicate j ''..'' @ gs) ''/'')"
    "list_all good_part gs"
proof -
  obtain j gs where "clean_parts False (Split p CHR ''/'') [] = replicate j ''..'' @ gs" "list_all good_part gs"
    using clean_parts_shape [of "Split p CHR ''/''" "[]" False 0] Split_parts by auto
  moreover have "Join (replicate j ''..'' @ gs) ''/'' = [] \<longleftrightarrow> j = 0 \<and> gs = []"
  proof (cases j)
    case 0
    then show ?thesis using calculation(2) Join_Nil by simp
  next
    case (Suc i)
    then show ?thesis by (cases "replicate i ''..'' @ gs") (auto simp: Suc)
  qed
  ultimately have "path_Clean p = (if j = 0 \<and> gs = [] then ''.'' else Join (replicate j ''..'' @ gs) ''/'')"
    using assms by (simp add: path_Clean_def Let_def)
  then show ?thesis using that \<open>list_all good_part gs\<close> by blast
qed

lemma path_Clean_rooted:
  assumes "HasPrefix p ''/''"
  obtains gs where "path_Clean p = ''/'' @ Join gs ''/''" "list_all good_part gs"
proof -
  obtain gs where "clean_parts True (Split p CHR ''/'') [] = gs" "list_all good_part gs"
    using clean_parts_shape [of "Split p CHR ''/''" "[]" True 0] Split_parts by auto
  then show ?thesis using that assms by (simp add: path_Clean_def Let_def)
qed

text \<open>A cleaned request path that does not climb is empty or a canonical name.\<close>

lemma cleaned_canonical:
  assumes "\<not> HasPrefix (clean_request p) ''../''" "clean_request p \<noteq> ''..''" "clean_request p \<noteq> []"
  shows "canonical_name (clean_request p)"
proof (cases "HasPrefix p ''/''")
  case True
  then obtain gs where g: "path_Clean p = ''/'' @ Join gs ''/''" "list_all good_part gs"
    by (rule path_Clean_rooted)
  then have "clean_request p = Join gs ''/''" by (simp add: clean_request_def Let_def TrimPrefix_def HasPrefix_def)
  then show ?thesis using g(2) assms(3) by (cases "gs = []") (auto simp: canonical_name_iff)
next
  case False
  then obtain j gs where g: "path_Clean p = (if j = 0 \<and> gs = [] then ''.'' else Join (replicate j ''..'' @ gs) ''/'')"
    "list_all good_part gs" by (rule path_Clean_unrooted)
  show ?thesis
  proof (cases j)
    case 0
    then have ne: "gs \<noteq> []" and cl: "path_Clean p = Join gs ''/''"
      using g assms(3) by (auto simp: clean_request_def Let_def TrimPrefix_def HasPrefix_def split: if_splits)
    have can: "canonical_name (path_Clean p)" using ne cl g(2) by (auto simp: canonical_name_iff)
    then have "path_Clean p \<noteq> ''.''" "\<not> HasPrefix (path_Clean p) ''/''"
      using canonical_not_rooted by (auto simp: canonical_name_def good_part_def)
    then show ?thesis using can by (auto simp: clean_request_def Let_def TrimPrefix_def HasPrefix_def)
  next
    case (Suc i)
    then have "path_Clean p = ''..'' \<or> HasPrefix (path_Clean p) ''../''"
      using g(1) by (cases "replicate i ''..'' @ gs") (auto simp: HasPrefix_def Join_Cons)
    moreover from this have "\<not> HasPrefix (path_Clean p) ''/''" "path_Clean p \<noteq> ''.''"
      by (auto simp: HasPrefix_def prefix_def)
    then have "clean_request p = path_Clean p" by (auto simp: clean_request_def Let_def TrimPrefix_def HasPrefix_def)
    ultimately show ?thesis using assms by auto
  qed
qed

section \<open>Scratch files\<close>

lemma glob_match_star: "glob_match [GStar] s \<longleftrightarrow> CHR ''/'' \<notin> set s"
  by (induction s) auto

lemma Match_scratch:
  assumes "CHR ''/'' \<notin> set s"
  shows "Match ''.birak-tmp-*'' s \<longleftrightarrow> HasPrefix s tempFilePrefix"
    and "Match ''.birak-bak-*'' s \<longleftrightarrow> HasPrefix s backupFilePrefix"
proof -
  have lits: "glob_match (map GLit p @ [GStar]) s \<longleftrightarrow> prefix p s" if "CHR ''/'' \<notin> set s" for p s
    using that
  proof (induction p arbitrary: s)
    case (Cons a p)
    then show ?case by (cases s) auto
  qed (simp add: glob_match_star)
  show "Match ''.birak-tmp-*'' s \<longleftrightarrow> HasPrefix s tempFilePrefix"
    using lits [OF assms, of tempFilePrefix] by (simp add: Match_def tempFilePrefix_def HasPrefix_def)
  show "Match ''.birak-bak-*'' s \<longleftrightarrow> HasPrefix s backupFilePrefix"
    using lits [OF assms, of backupFilePrefix] by (simp add: Match_def backupFilePrefix_def HasPrefix_def)
qed

lemma EqualFold_refl [simp]: "EqualFold s s"
  by (simp add: EqualFold_def)

lemma HasPrefix_fold: "HasPrefix s p \<Longrightarrow> hasPrefixFold s p"
  by (auto simp: HasPrefix_def hasPrefixFold_def prefix_def)

lemma IsScratchFile_spelling: "IsScratchFile s \<Longrightarrow> isScratchSpelling s"
  by (auto simp: IsScratchFile_def isScratchSpelling_def HasPrefix_fold)

section \<open>One entry of a directory\<close>

lemma TrimRightChar_part: "good_part b \<Longrightarrow> TrimRightChar CHR ''/'' (a @ b) = a @ b"
  by (cases b rule: rev_cases) (auto simp: TrimRightChar_def good_part_def)

lemma path_Base_part: "good_part b \<Longrightarrow> path_Base b = b"
proof -
  assume b: "good_part b"
  have tw: "takeWhile (\<lambda>c. c \<noteq> CHR ''/'') (rev b) = rev b"
    using b by (auto simp: good_part_def takeWhile_eq_all_conv)
  show ?thesis using b TrimRightChar_part [OF b, of "[]"]
    by (simp add: tw path_Base_def good_part_def Let_def)
qed

lemma path_Base_below: "good_part b \<Longrightarrow> path_Base (a @ ''/'' @ b) = b"
proof -
  assume b: "good_part b"
  then have "TrimRightChar CHR ''/'' (a @ ''/'' @ b) = a @ ''/'' @ b"
    using TrimRightChar_part [OF b, of "a @ ''/''"] by simp
  moreover have "takeWhile (\<lambda>c. c \<noteq> CHR ''/'') (rev (a @ ''/'' @ b)) = rev b"
    using b by (simp add: takeWhile_append good_part_def)
  ultimately show ?thesis using b by (simp add: path_Base_def good_part_def Let_def)
qed

lemma ShouldIgnore_parts:
  assumes "canonical_name a"
  shows "ShouldIgnore a pats \<longleftrightarrow> hd (Split a CHR ''/'') = ''.birak'' \<or> IsScratchFile (last (Split a CHR ''/'')) \<or>
     list_ex (\<lambda>part. list_ex (\<lambda>p. Match p part) pats) (Split a CHR ''/'')"
proof -
  have base: "path_Base a = last (Split a CHR ''/'')"
    using assms
  proof (cases rule: canonical_cases)
    case 1
    then show ?thesis by (simp add: path_Base_part Split_single)
  next
    case (2 x b)
    then show ?thesis using path_Base_below [of b x] Split_snoc [of "CHR ''/''" b x] by simp
  qed
  have l: "good_part (last (Split a CHR ''/''))"
    using assms by (simp add: canonical_name_def list_all_iff)
  have sp: "Split a CHR ''/'' = butlast (Split a CHR ''/'') @ [last (Split a CHR ''/'')]" by simp
  have ex: "list_ex P (Split a CHR ''/'') \<longleftrightarrow> list_ex P (butlast (Split a CHR ''/'')) \<or> P (last (Split a CHR ''/''))" for P
    by (subst sp) (simp del: append_butlast_last_id)
  show ?thesis
    unfolding ShouldIgnore_def Let_def base ex
    using Match_scratch [OF good_part_simps(4) [OF l]] by (auto simp: IsScratchFile_def)
qed

lemma first_part: "(case Cut a c of None \<Rightarrow> a | Some (x, _) \<Rightarrow> x) = hd (Split a c)"
proof (cases "Cut a c")
  case None
  then have "c \<notin> set a" by (simp add: Cut_None)
  then show ?thesis using None by (simp add: Split_single)
next
  case (Some xy)
  obtain x y where xy: "xy = (x, y)" by fastforce
  then have "a = x @ c # y" "c \<notin> set x" using Some Cut_Some by auto
  then show ?thesis using Some xy by (simp add: Split_append)
qed

lemma validateClientPath_ok:
  assumes "canonical_name a"
  shows "is_ok (validateClientPath a pats) \<longleftrightarrow>
     \<not> IsReserved (hd (Split a CHR ''/'')) \<and> CHR 0x00 \<notin> set a \<and>
     (\<forall>part \<in> set (Split a CHR ''/''). \<not> isScratchSpelling part \<and> (\<forall>p \<in> set pats. \<not> Match p part))"
proof -
  have "hd (Split a CHR ''/'') = ''.birak'' \<Longrightarrow> IsReserved (hd (Split a CHR ''/''))"
    by (simp add: IsReserved_def ReservedDirName_def)
  moreover have "IsScratchFile (last (Split a CHR ''/'')) \<Longrightarrow> \<exists>part \<in> set (Split a CHR ''/''). isScratchSpelling part"
    using IsScratchFile_spelling last_in_set Split_nonempty by blast
  ultimately show ?thesis
    using canonical_nonempty [OF assms]
    by (auto simp: validateClientPath_def ShouldIgnore_parts [OF assms] first_part list_ex_iff)
qed

section \<open>Properties\<close>

text \<open>A listing's per-entry check agrees with the full check: below a directory that passes
  \<open>validateClientPath\<close>, \<open>ClientVisibleName\<close> accepts an entry exactly when \<open>validateClientPath\<close> accepts
  the entry's path.\<close>

theorem ClientVisibleName_agrees:
  assumes "good_part name"
    and "dirRel = [] \<or> canonical_name dirRel \<and> is_ok (validateClientPath dirRel pats)"
  shows "ClientVisibleName dirRel name pats \<longleftrightarrow>
    is_ok (validateClientPath (if dirRel = [] then name else dirRel @ ''/'' @ name) pats)"
proof (cases "dirRel = []")
  case True
  have "canonical_name name" using assms(1) by (simp add: canonical_name_def Split_single good_part_def)
  from validateClientPath_ok [OF this, of pats] True assms(1) show ?thesis
    by (auto simp: ClientVisibleName_def Split_single good_part_def list_ex_iff)
next
  case False
  then have d: "canonical_name dirRel" "is_ok (validateClientPath dirRel pats)" using assms(2) by auto
  have c: "canonical_name (dirRel @ ''/'' @ name)"
    using d(1) assms(1) canonical_append [of name dirRel] by (simp add: good_part_def)
  have sp: "Split (dirRel @ ''/'' @ name) CHR ''/'' = Split dirRel CHR ''/'' @ [name]"
    using assms(1) Split_snoc [of "CHR ''/''" name dirRel] by (simp add: good_part_def)
  show ?thesis
    using False d validateClientPath_ok [OF c, of pats] validateClientPath_ok [OF d(1), of pats]
    unfolding sp by (auto simp: ClientVisibleName_def list_ex_iff hd_append)
qed

theorem ClientVisibleName_agrees_witness:
  "ClientVisibleName ''photos'' ''a.jpg'' [''*.tmp''] \<and> \<not> ClientVisibleName ''photos'' ''a.tmp'' [''*.tmp'']"
  using ClientVisibleName_agrees [of "''a.jpg''" "''photos''" "[''*.tmp'']"]
    ClientVisibleName_agrees [of "''a.tmp''" "''photos''" "[''*.tmp'']"]
  by code_simp

lemma SafePath_inside:
  assumes "SafePath fs root req pats = Inr (rel, full)" "rel \<noteq> []"
  shows "canonical_name rel \<and> full = path_Join [root, rel] \<and> is_ok (validateClientPath rel pats) \<and>
    HasPrefix (path_Clean full) (path_Clean root @ ''/'') \<and>
    (\<forall>real. realRoot fs = Some real \<longrightarrow>
       (let t = evalDeepestAncestor fs (path_Clean full)
        in (t = real \<or> HasPrefix t (real @ ''/'')) \<and>
           is_ok (validateClientPath (if path_Rel_below real t = ''.'' then [] else path_Rel_below real t) pats)))"
proof -
  have "\<not> HasPrefix (clean_request req) ''../''" "clean_request req \<noteq> ''..''"
    "clean_request req \<noteq> []" "rel = clean_request req"
    using assms by (auto simp: SafePath_def Let_def result_bind_Inr split: if_splits)
  then have "canonical_name rel" using cleaned_canonical [of req] by simp
  with assms show ?thesis
    by (auto simp: SafePath_def Let_def result_bind_Inr resolveNoSymlinkEscape_def
        split: if_splits option.splits)
qed



text \<open>The two reserved namespaces treat one spelling differently: written with the Kelvin sign,
  the state directory is still recognised as reserved, but a scratch-file name is not.\<close>

theorem kelvin_spelling:
  "IsReserved (''.bira'' @ [CHR 0xE2, CHR 0x84, CHR 0xAA]) \<and>
   EqualFold (''.bira'' @ [CHR 0xE2, CHR 0x84, CHR 0xAA] @ ''-tmp-'') tempFilePrefix \<and>
   \<not> isScratchSpelling (''.bira'' @ [CHR 0xE2, CHR 0x84, CHR 0xAA] @ ''-tmp-x'')"
  by code_simp

end
