(* ===== verification/Sync_Rules.thy ===== *)
theory Sync_Rules
  imports Store_Machine Namespace_Rules
begin

text \<open>
  The pure rules of the syncer (syncer/syncer.go): which peer metadata is usable, which state wins,
  when a stream position is reset, how a page is collapsed, the retry delay, and the small header
  and URL helpers. \<open>sha256_hex\<close> stands for the SHA-256 digest in hexadecimal.
\<close>

section \<open>Definitions\<close>

subsection \<open>Headers and URLs\<close>

definition parseInt64Header :: "string \<Rightarrow> int option" where
  "parseInt64Header v = (if v = [] then None else ParseInt v)"

definition octal_value :: "string \<Rightarrow> int option" where
  "octal_value v =
     (if v \<noteq> [] \<and> list_all (\<lambda>c. is_digit c \<and> digit_val c < 8) v
      then Some (int (foldl (\<lambda>n c. 8 * n + digit_val c) 0 v)) else None)"

text \<open>\<open>strconv.ParseUint(v, 8, 32)\<close> fails beyond 32 bits; the permission bound is smaller.\<close>

definition parseFileMode :: "string \<Rightarrow> int option" where
  "parseFileMode v =
     (case octal_value v of
        None \<Rightarrow> None
      | Some n \<Rightarrow> if n > 4294967295 \<or> n = 0 \<or> n > 511 then None else Some n)"

definition is_hex :: "char \<Rightarrow> bool" where
  "is_hex c \<longleftrightarrow> is_lower_hex c \<or> (65 \<le> (of_char c :: nat) \<and> (of_char c :: nat) \<le> 70)"

definition isSHA256Hex :: "string \<Rightarrow> bool" where
  "isSHA256Hex v \<longleftrightarrow> \<not> (length v \<noteq> 64 \<or> v \<noteq> ToLower v) \<and> list_all is_hex v"

text \<open>\<open>url.PathEscape\<close>: the bytes a path segment keeps, and the escape of the others.\<close>

definition path_unreserved :: "char \<Rightarrow> bool" where
  "path_unreserved c \<longleftrightarrow>
     (let n = (of_char c :: nat)
      in 97 \<le> n \<and> n \<le> 122 \<or> 65 \<le> n \<and> n \<le> 90 \<or> 48 \<le> n \<and> n \<le> 57 \<or> c \<in> set ''-_.~$&+=:@'')"

definition escape_byte :: "char \<Rightarrow> string" where
  "escape_byte c =
     (if path_unreserved c then [c]
      else [CHR ''%'', upper_hex (of_char c div 16), upper_hex (of_char c mod 16)])"

definition PathEscape :: "string \<Rightarrow> string" where
  "PathEscape s = concat (map escape_byte s)"

definition encodePathSegments :: "string \<Rightarrow> string" where
  "encodePathSegments name = Join (map PathEscape (Split name CHR ''/'')) ''/''"

text \<open>\<open>url.PathUnescape\<close>, which the receiving server applies to the request path.\<close>

fun PathUnescape :: "string \<Rightarrow> string option" where
  "PathUnescape [] = Some []"
| "PathUnescape (c # s) =
     (if c = CHR ''%'' then
        (case s of
           a # b # r \<Rightarrow>
             (case (unhex a, unhex b) of
                (Some x, Some y) \<Rightarrow> map_option ((#) (char_of (16 * x + y))) (PathUnescape r)
              | _ \<Rightarrow> None)
         | _ \<Rightarrow> None)
      else map_option ((#) c) (PathUnescape s))"

subsection \<open>Usable metadata\<close>

datatype meta_error =
    NonCanonicalPath | ReservedSyncPath | MalformedMetadata | BadClock clock_error
  | MalformedTombstone | MalformedConflictCopy | IgnoredSyncPath

definition validateSyncName :: "string \<Rightarrow> (meta_error, unit) result" where
  "validateSyncName name =
     (if name = ''.'' \<or> \<not> path_IsLocal name \<or> path_Clean name \<noteq> name \<or> CHR 0x00 \<in> set name
      then Inl NonCanonicalPath
      else if ShouldIgnore name [] then Inl ReservedSyncPath
      else if list_ex IsScratchFile (Split name CHR ''/'') then Inl ReservedSyncPath
      else Inr ())"

definition validateMetadata :: "(string \<Rightarrow> string) \<Rightarrow> FileMeta \<Rightarrow> (meta_error, unit) result" where
  "validateMetadata sha256_hex c =
     result_bind (validateSyncName (Name c)) (\<lambda>_.
     if \<not> Deleted c \<and> (Size c < 0 \<or> Size c = MaxInt64 \<or> \<not> isSHA256Hex (Hash c)) then Inl MalformedMetadata
     else case ValidateClock c of
       Inl e \<Rightarrow> Inl (BadClock e)
     | Inr _ \<Rightarrow>
         result_bind
           (if SupersededBy c \<noteq> [] then
              (if \<not> Deleted c \<or> Size c \<noteq> 0 \<or> \<not> isSHA256Hex (Hash c) \<or>
                  \<not> NamespaceConflict (Name c) (SupersededBy c)
               then Inl MalformedTombstone else validateSyncName (SupersededBy c))
            else Inr ())
           (\<lambda>_. if ConflictOf c \<noteq> [] then
                  (if Deleted c \<or> Name c \<noteq> ConflictCopyName sha256_hex (ConflictOf c) (Hash c)
                   then Inl MalformedConflictCopy else validateSyncName (ConflictOf c))
                else Inr ()))"

definition validateChange :: "(string \<Rightarrow> string) \<Rightarrow> string list \<Rightarrow> FileMeta \<Rightarrow> (meta_error, unit) result" where
  "validateChange sha256_hex ignorePatterns c =
     result_bind (validateMetadata sha256_hex c) (\<lambda>_.
       if list_ex (\<lambda>name. name \<noteq> [] \<and> ShouldIgnore name ignorePatterns) [Name c, SupersededBy c, ConflictOf c]
       then Inl IgnoredSyncPath else Inr ())"

subsection \<open>Conflict resolution and the change stream\<close>

definition remoteWins :: "FileMeta option \<Rightarrow> FileMeta \<Rightarrow> bool" where
  "remoteWins local remote \<longleftrightarrow> CompareState (Some remote) local > 0"

definition needsCursorReset :: "PeerState \<Rightarrow> string \<Rightarrow> int option \<Rightarrow> bool" where
  "needsCursorReset state ep peerMax =
     (if psVersion state = 0 then False
      else if ep \<noteq> [] \<and> psEpoch state \<noteq> [] \<and> ep \<noteq> psEpoch state then True
      else case peerMax of None \<Rightarrow> False | Some m \<Rightarrow> m < psVersion state)"

text \<open>The loop of \<open>collapseByName\<close>: the kept entries in the order their names first appeared, and the
  highest version so far.\<close>

fun collapse_into :: "FileMeta \<Rightarrow> FileMeta list \<Rightarrow> FileMeta list" where
  "collapse_into c [] = [c]"
| "collapse_into c (x # out) =
     (if Name x = Name c then (if Version c > Version x then c # out else x # out)
      else x # collapse_into c out)"

fun collapse_loop :: "FileMeta list \<Rightarrow> FileMeta list \<Rightarrow> int \<Rightarrow> FileMeta list \<times> int" where
  "collapse_loop [] out batchMax = (out, batchMax)"
| "collapse_loop (c # cs) out batchMax =
     collapse_loop cs (collapse_into c out) (if Version c > batchMax then Version c else batchMax)"

definition collapseByName :: "FileMeta list \<Rightarrow> FileMeta list \<times> int" where
  "collapseByName changes = collapse_loop changes [] 0"

text \<open>Every version of a page follows the one before it, the first one the cursor.\<close>

fun versions_follow :: "int \<Rightarrow> FileMeta list \<Rightarrow> bool" where
  "versions_follow prev [] = True"
| "versions_follow prev (c # cs) = (if Version c \<le> prev then False else versions_follow (Version c) cs)"

fun names_follow :: "string \<Rightarrow> FileMeta list \<Rightarrow> bool" where
  "names_follow prev [] = True"
| "names_follow prev (c # cs) = (if Name c \<le> prev then False else names_follow (Name c) cs)"

subsection \<open>Retry delay\<close>

abbreviation (input) minRepairBackoff :: int where
  "minRepairBackoff \<equiv> 500000000"

abbreviation (input) maxRepairBackoff :: int where
  "maxRepairBackoff \<equiv> 900000000000"

definition repair_backoff :: "int \<Rightarrow> int" where
  "repair_backoff attempts =
     (let backoff = wrap64 (minRepairBackoff * 2 ^ nat (min attempts 12))
      in if backoff > maxRepairBackoff \<or> backoff \<le> 0 then maxRepairBackoff else backoff)"

text \<open>The delay before the next poll after a failure: doubled up to a minute.\<close>

definition poll_backoff :: "int \<Rightarrow> int" where
  "poll_backoff backoff = min (wrap64 (backoff * 2)) 60000000000"

text \<open>The bytes \<open>decodePage\<close> accepts of a reply sized for \<open>entries\<close> records.\<close>

definition page_budget :: "int \<Rightarrow> int" where
  "page_budget entries = (if entries < 1 then 1 else entries) * 8192 + 1048576"

definition cappedRead :: "int \<Rightarrow> nat \<Rightarrow> string \<Rightarrow> (string \<times> int) option" where
  "cappedRead left n src =
     (if left \<le> 0 then None
      else let k = (if int n > left then nat left else n); got = take k src
           in Some (got, left - int (length got)))"

text \<open>The list of peers \<open>New\<close> keeps: trimmed, without trailing slashes, first occurrences.\<close>

definition normalize_peers :: "string list \<Rightarrow> string list" where
  "normalize_peers peers =
     foldl (\<lambda>u p. let q = TrimRightChar CHR ''/'' (TrimSpace p) in if q \<in> set u then u else u @ [q]) [] peers"

section \<open>Lemmas\<close>

lemma validateSyncName_canonical:
  assumes "validateSyncName name = Inr ()"
  shows "canonical_name name" "CHR 0x00 \<notin> set name" "\<not> ShouldIgnore name []"
    "\<forall>part \<in> set (Split name CHR ''/''). \<not> IsScratchFile part"
proof -
  have v: "name \<noteq> ''.''" "path_IsLocal name" "path_Clean name = name" "CHR 0x00 \<notin> set name"
    "\<not> ShouldIgnore name []" "\<not> list_ex IsScratchFile (Split name CHR ''/'')"
    using assms by (auto simp: validateSyncName_def split: if_splits)
  then show "CHR 0x00 \<notin> set name" "\<not> ShouldIgnore name []"
    "\<forall>part \<in> set (Split name CHR ''/''). \<not> IsScratchFile part" by (auto simp: list_ex_iff)
  have l: "\<not> HasPrefix name ''/''" "name \<noteq> []" "name \<noteq> ''..''" "\<not> HasPrefix name ''../''"
    using v(2,3) by (auto simp: path_IsLocal_def Let_def split: if_splits)
  have "clean_request name = name"
    using v(1,3) l by (simp add: clean_request_def Let_def TrimPrefix_def HasPrefix_def)
  then show "canonical_name name" using cleaned_canonical [of name] l by simp
qed

lemma validateMetadata_names:
  assumes "validateMetadata sha256_hex c = Inr ()"
  shows "validateSyncName (Name c) = Inr ()"
    "SupersededBy c \<noteq> [] \<Longrightarrow> validateSyncName (SupersededBy c) = Inr ()"
    "ConflictOf c \<noteq> [] \<Longrightarrow> validateSyncName (ConflictOf c) = Inr ()"
  using assms by (simp_all add: validateMetadata_def result_bind_Inr split: if_splits sum.splits)

lemma remoteWins_rank: "remoteWins l r \<longleftrightarrow> map_option rank l < Some (rank r)"
  by (simp add: remoteWins_def CompareState_rank)

lemma remoteWins_keep_newer: "keep_newer CompareState l r = (if remoteWins l r then Some r else l)"
  using CompareState_swap [of "Some r" l] by (simp add: keep_newer_def remoteWins_def)

subsection \<open>Collapsing\<close>

lemma collapse_into_names: "Name ` set (collapse_into c out) = insert (Name c) (Name ` set out)"
  by (induction out) auto

lemma collapse_into_distinct: "distinct (map Name out) \<Longrightarrow> distinct (map Name (collapse_into c out))"
proof (induction out)
  case (Cons x out)
  then show ?case using collapse_into_names [of c out] by auto
qed simp

lemma collapse_into_subset: "set (collapse_into c out) \<subseteq> insert c (set out)"
  by (induction out) auto

lemma collapse_into_newest:
  "\<exists>x \<in> set (collapse_into c out). Name x = Name c \<and> Version c \<le> Version x"
  "y \<in> set out \<Longrightarrow> \<exists>x \<in> set (collapse_into c out). Name x = Name y \<and> Version y \<le> Version x"
  by (induction out) auto

lemma collapse_loop_keeps:
  "y \<in> set out \<Longrightarrow> \<exists>x \<in> set (fst (collapse_loop cs out m)). Name x = Name y \<and> Version y \<le> Version x"
proof (induction cs arbitrary: out m y)
  case (Cons c cs)
  obtain x where x: "x \<in> set (collapse_into c out)" "Name x = Name y" "Version y \<le> Version x"
    using collapse_into_newest(2) [OF Cons.prems] by blast
  show ?case using Cons.IH [OF x(1)] x(2,3) by fastforce
qed auto

lemma collapse_loop_spec:
  "distinct (map Name out) \<Longrightarrow>
   distinct (map Name (fst (collapse_loop cs out m))) \<and> set (fst (collapse_loop cs out m)) \<subseteq> set cs \<union> set out \<and>
   (\<forall>c \<in> set cs. \<exists>x \<in> set (fst (collapse_loop cs out m)). Name x = Name c \<and> Version c \<le> Version x) \<and>
   snd (collapse_loop cs out m) = Max (insert m (Version ` set cs))"
proof (induction cs arbitrary: out m)
  case (Cons c cs)
  let ?o = "collapse_into c out" and ?m = "if Version c > m then Version c else m"
  note IH = Cons.IH [OF collapse_into_distinct [OF Cons.prems], of c ?m]
  obtain x where x: "x \<in> set ?o" "Name x = Name c" "Version c \<le> Version x"
    using collapse_into_newest(1) by blast
  have "\<exists>z \<in> set (fst (collapse_loop cs ?o ?m)). Name z = Name c \<and> Version c \<le> Version z"
    using collapse_loop_keeps [OF x(1), of cs ?m] x(2,3) by fastforce
  moreover have "Max (insert ?m (Version ` set cs)) = Max (insert m (Version ` set (c # cs)))"
  proof -
    have "?m = max m (Version c)" by auto
    then show ?thesis by (cases "cs = []") (auto simp: max.left_commute max.assoc)
  qed
  moreover have "set (fst (collapse_loop cs ?o ?m)) \<subseteq> set (c # cs) \<union> set out"
    using IH collapse_into_subset [of c out] by auto
  ultimately show ?case using IH by simp
qed simp

subsection \<open>Round trip of a path in a URL\<close>

lemma PathUnescape_escape: "PathUnescape (escape_byte c @ s) = map_option ((#) c) (PathUnescape s)"
proof (cases "path_unreserved c")
  case True
  then have "c \<noteq> CHR ''%''" by (auto simp: path_unreserved_def)
  then show ?thesis using True by (simp add: escape_byte_def)
next
  case False
  have "unhex (upper_hex (of_char c div 16)) = Some (of_char c div 16)"
    "unhex (upper_hex (of_char c mod 16)) = Some (of_char c mod 16)"
    using of_char_digit [of c] by (simp_all add: unhex_upper_hex)
  moreover have "char_of (16 * (of_char c div 16) + of_char c mod 16 :: nat) = c" by simp
  ultimately show ?thesis using False by (simp add: escape_byte_def)
qed

lemma PathUnescape_PathEscape: "PathUnescape (PathEscape s @ t) = map_option ((@) s) (PathUnescape t)"
  by (induction s) (simp_all add: PathEscape_def PathUnescape_escape option.map_comp comp_def option.map_ident)

lemma PathUnescape_encode:
  "PathUnescape (Join (map PathEscape ps) ''/'') = Some (Join ps ''/'')"
proof (induction ps)
  case (Cons p ps)
  show ?case
  proof (cases "ps = []")
    case True
    then show ?thesis using PathUnescape_PathEscape [of p "[]"] by simp
  next
    case False
    then show ?thesis using Cons by (simp add: Join_Cons PathUnescape_PathEscape)
  qed
qed simp

lemma encodePathSegments_bytes:
  "set (encodePathSegments name) \<subseteq> {c. path_unreserved c} \<union> {CHR ''%'', CHR ''/''}"
proof -
  have hex: "path_unreserved (upper_hex n)" if "n < 16" for n
    using that by (auto simp: path_unreserved_def upper_hex_def Let_def)
  have b: "set (escape_byte c) \<subseteq> {c. path_unreserved c} \<union> {CHR ''%''}" for c
    using hex [OF of_char_digit [of c]] hex [of "of_char c mod 16"] by (auto simp: escape_byte_def)
  have "set (Join (map PathEscape ps) ''/'') \<subseteq> {c. path_unreserved c} \<union> {CHR ''%'', CHR ''/''}" for ps
  proof (induction ps)
    case (Cons p ps)
    have "set (PathEscape p) \<subseteq> {c. path_unreserved c} \<union> {CHR ''%''}"
      using b by (auto simp: PathEscape_def)
    then show ?case using Cons by (cases "ps = []") (auto simp: Join_Cons)
  qed simp
  then show ?thesis by (simp add: encodePathSegments_def)
qed

subsection \<open>Delays\<close>

lemma repair_backoff_value:
  assumes "0 \<le> a"
  shows "repair_backoff a = min maxRepairBackoff (minRepairBackoff * 2 ^ nat (min a 12))"
proof -
  define k where "k = nat (min a 12)"
  have "k \<le> 12" by (simp add: k_def)
  then have "(2 :: int) ^ k \<le> 2 ^ 12" by (rule power_increasing) simp
  then have "minRepairBackoff * 2 ^ k \<le> 4096 * minRepairBackoff" "0 < minRepairBackoff * (2 :: int) ^ k" by simp_all
  then have "wrap64 (minRepairBackoff * 2 ^ k) = minRepairBackoff * 2 ^ k"
    by (intro wrap64_id) (unfold in_int64_def, linarith)
  then show ?thesis by (auto simp: repair_backoff_def Let_def min_def k_def)
qed

end
