(* ===== verification/Sync_Stream.thy ===== *)
theory Sync_Stream
  imports Sync_Rules
begin

text \<open>
  Discovery in the syncer (syncer/syncer.go, readiness.go): the per-peer statistics, the identity
  check of a reply, one poll of a peer's change stream (\<open>syncBatch\<close>, \<open>syncOnce\<close>, an iteration of
  \<open>pollPeer\<close>), the manifest comparison (\<open>reconcileOnce\<close>, an iteration of \<open>reconcilePeer\<close>) and the
  initial-admission flag. The network and the database answer through arguments: the reply of each
  request and the failure of each statement. The body of a reply is the value its JSON holds, with
  the number of bytes of that JSON; the text of a peer's last error is kept as whether there is one.
\<close>

section \<open>State\<close>

record peerStat =
  stCursor :: int
  stPeerMax :: int
  stEpoch :: string
  stLastSuccess :: "int option"
  stLastReconcile :: "int option"
  stSelf :: bool
  stDuplicate :: bool
  stLastError :: bool
  stErrs :: int

definition zero_stat :: peerStat where
  "zero_stat = \<lparr> stCursor = 0, stPeerMax = 0, stEpoch = [], stLastSuccess = None, stLastReconcile = None,
     stSelf = False, stDuplicate = False, stLastError = False, stErrs = 0 \<rparr>"

record Syncer =
  syStore :: Store
  syNodeID :: string
  syPeers :: "string list"
  syIgnore :: "string list"
  syPollInterval :: int
  syBatchLimit :: int
  syMaxDownloads :: int
  syRepairInterval :: int
  syReconcileInterval :: int
  syPageBudget :: int
  syPeerIDs :: "string list"
  syStats :: "(string \<times> peerStat) list"
  sySkipped :: int
  syInitialized :: bool

datatype sync_error =
    SyStore store_error | SyRequest string | SyProtocol string | SySelfPeer | SyDuplicateNode string
  | SyStatus int | SyPageTooLarge | SyDecode | SyTooMany int | SyOrder | SyCancelled
  | SyMeta meta_error | SyOtherName string | SyJoin sync_error store_error

fun is_queue_full :: "sync_error \<Rightarrow> bool" where
  "is_queue_full (SyStore (ErrRepairQueueFull p n)) = True"
| "is_queue_full (SyJoin a b) = (is_queue_full a \<or> (case b of ErrRepairQueueFull p n \<Rightarrow> True | _ \<Rightarrow> False))"
| "is_queue_full _ = False"

fun is_self_peer :: "sync_error \<Rightarrow> bool" where
  "is_self_peer SySelfPeer = True"
| "is_self_peer (SyJoin a b) = is_self_peer a"
| "is_self_peer _ = False"

record 'b response =
  rspStatus :: int
  rspProtocol :: string
  rspNodeID :: string
  rspEpoch :: string
  rspMaxVersion :: string
  rspSize :: int
  rspValue :: "'b option"

section \<open>Operations\<close>

definition Options_defaults :: "Syncer \<Rightarrow> Syncer" where
  "Options_defaults sy = sy
     \<lparr>syMaxDownloads := (if syMaxDownloads sy \<le> 0 then 1 else syMaxDownloads sy),
      syBatchLimit := (if syBatchLimit sy \<le> 0 then 1000 else syBatchLimit sy),
      syRepairInterval := (if syRepairInterval sy \<le> 0 then 30000000000 else syRepairInterval sy)\<rparr>"

definition withStat :: "Syncer \<Rightarrow> string \<Rightarrow> (peerStat \<Rightarrow> peerStat) \<Rightarrow> Syncer" where
  "withStat sy peer f =
     sy\<lparr>syStats := upsert fst (peer, f (case row_of fst (syStats sy) peer of None \<Rightarrow> zero_stat | Some ps \<Rightarrow> snd ps)) (syStats sy)\<rparr>"

definition retireSelfPeer :: "Syncer \<Rightarrow> string \<Rightarrow> Syncer" where
  "retireSelfPeer sy peer = withStat sy peer (\<lambda>st. st\<lparr>stSelf := True\<rparr>)"

definition isSelfPeer :: "Syncer \<Rightarrow> string \<Rightarrow> bool" where
  "isSelfPeer sy peer = (case row_of fst (syStats sy) peer of None \<Rightarrow> False | Some ps \<Rightarrow> stSelf (snd ps))"

definition ProtocolVersion :: string where
  "ProtocolVersion = ''4''"

definition checkPeerIdentity :: "Syncer \<Rightarrow> 'b response \<Rightarrow> (sync_error, unit) result \<times> Syncer" where
  "checkPeerIdentity sy resp =
     (if rspProtocol resp \<noteq> ProtocolVersion then (Inl (SyProtocol (rspProtocol resp)), sy)
      else let i = rspNodeID resp
        in if i \<noteq> [] \<and> i = syNodeID sy then
             (if rspEpoch resp = incarnation (syStore sy) then (Inl SySelfPeer, sy)
              else (Inl (SyDuplicateNode i), sy))
           else (Inr (), if i \<noteq> [] then sy\<lparr>syPeerIDs := insert_key i (syPeerIDs sy)\<rparr> else sy))"

definition doRequest :: "Syncer \<Rightarrow> string + 'b response \<Rightarrow> (sync_error, 'b response) result \<times> Syncer" where
  "doRequest sy reply =
     (case reply of
        Inl x \<Rightarrow> (Inl (SyRequest x), sy)
      | Inr resp \<Rightarrow>
          (case checkPeerIdentity sy resp of
             (Inl x, sy1) \<Rightarrow> (Inl x, sy1)
           | (Inr _, sy1) \<Rightarrow> (Inr resp, sy1)))"

definition decodePage :: "'b response \<Rightarrow> int \<Rightarrow> (sync_error, 'b) result" where
  "decodePage resp entries =
     (if rspSize resp > page_budget entries then Inl SyPageTooLarge
      else case rspValue resp of None \<Rightarrow> Inl SyDecode | Some v \<Rightarrow> Inr v)"

abbreviation (input) NeedsRepair :: "Syncer \<Rightarrow> string \<Rightarrow> bool" where
  "NeedsRepair sy name \<equiv> IsQuarantined (syStore sy) name"

text \<open>The test of \<open>newerThanLocal\<close> on one entry.\<close>

definition wanted_here :: "Syncer \<Rightarrow> FileMeta option \<Rightarrow> FileMeta \<Rightarrow> bool" where
  "wanted_here sy mine entry \<longleftrightarrow>
     remoteWins mine entry \<or> (NeedsRepair sy (Name entry) \<and> CompareState (Some entry) mine = 0)"

definition newerThanLocal ::
    "string option \<Rightarrow> Syncer \<Rightarrow> FileMeta list \<Rightarrow> (store_error, FileMeta list) result" where
  "newerThanLocal e sy entries =
     (if entries = [] then Inr []
      else result_bind (GetFilesBatch e (syStore sy) (map Name entries)) (\<lambda>local.
        Inr (filter (\<lambda>entry. wanted_here sy (local (Name entry)) entry) entries)))"

definition usable :: "(string \<Rightarrow> string) \<Rightarrow> Syncer \<Rightarrow> FileMeta \<Rightarrow> bool" where
  "usable sha256_hex sy c \<longleftrightarrow> is_ok (validateChange sha256_hex (syIgnore sy) c)"

text \<open>The part \<open>enqueueBatch\<close> and \<open>reconcilePage\<close> share: skip unusable entries, compare the rest with the
  index and queue what this node needs.\<close>

definition recordPage ::
    "(string \<Rightarrow> string) \<Rightarrow> string option \<Rightarrow> string option \<Rightarrow> int \<Rightarrow> Syncer \<Rightarrow> string \<Rightarrow> FileMeta list \<Rightarrow> string
     \<Rightarrow> (sync_error, int) result \<times> Syncer" where
  "recordPage sha256_hex eFiles eQueue now sy peer page reason =
     (let good = filter (usable sha256_hex sy) page;
          sy1 = sy\<lparr>sySkipped := sySkipped sy + int (length (filter (\<lambda>c. \<not> usable sha256_hex sy c) page))\<rparr>
      in case newerThanLocal eFiles sy1 good of
           Inl x \<Rightarrow> (Inl (SyStore x), sy1)
         | Inr wanted \<Rightarrow>
             (case EnqueueChanges eQueue now (syStore sy1) peer wanted reason of
                ((n, None), s') \<Rightarrow> (Inr n, sy1\<lparr>syStore := s'\<rparr>)
              | ((n, Some x), s') \<Rightarrow> (Inl (SyStore x), sy1\<lparr>syStore := s'\<rparr>)))"

definition enqueueBatch ::
    "(string \<Rightarrow> string) \<Rightarrow> bool \<Rightarrow> string option \<Rightarrow> string option \<Rightarrow> int \<Rightarrow> Syncer \<Rightarrow> string \<Rightarrow> FileMeta list
     \<Rightarrow> (sync_error, unit) result \<times> Syncer" where
  "enqueueBatch sha256_hex cancelled eFiles eQueue now sy peer changes =
     (if cancelled then (Inl SyCancelled, sy)
      else let (r, sy1) = recordPage sha256_hex eFiles eQueue now sy peer changes ''polled''
        in (result_bind r (\<lambda>_. Inr ()), sy1))"

definition reconcilePage ::
    "(string \<Rightarrow> string) \<Rightarrow> string option \<Rightarrow> string option \<Rightarrow> int \<Rightarrow> Syncer \<Rightarrow> string \<Rightarrow> FileMeta list
     \<Rightarrow> (sync_error, int) result \<times> Syncer" where
  "reconcilePage sha256_hex eFiles eQueue now sy peer page =
     recordPage sha256_hex eFiles eQueue now sy peer page ''reconcile''"

text \<open>What the outside does during one poll.\<close>

record batch_env =
  beState :: "string option"
  beReply :: "string + FileMeta list response"
  beReset :: "string option"
  beEpoch :: "string option"
  beCancelled :: bool
  beFiles :: "string option"
  beQueue :: "string option"
  beCursor :: "string option"
  beNow :: int

definition put_peer_state ::
    "string option \<Rightarrow> Syncer \<Rightarrow> string \<Rightarrow> PeerState \<Rightarrow> (sync_error, unit) result \<times> Syncer" where
  "put_peer_state e sy peer ps =
     (case SetPeerState e (syStore sy) peer ps of
        (Inl x, s') \<Rightarrow> (Inl (SyStore x), sy\<lparr>syStore := s'\<rparr>)
      | (Inr _, s') \<Rightarrow> (Inr (), sy\<lparr>syStore := s'\<rparr>))"

text \<open>\<open>syncBatch\<close> after the reply passed its checks: decode, validate the order, record, advance.\<close>

definition takePage ::
    "(string \<Rightarrow> string) \<Rightarrow> batch_env \<Rightarrow> Syncer \<Rightarrow> string \<Rightarrow> PeerState \<Rightarrow> FileMeta list response
     \<Rightarrow> (sync_error, int \<times> bool) result \<times> Syncer" where
  "takePage sha256_hex env sy peer state resp =
     (case decodePage resp (syBatchLimit sy) of
        Inl x \<Rightarrow> (Inl x, sy)
      | Inr changes \<Rightarrow>
          if int (length changes) > syBatchLimit sy then (Inl (SyTooMany (int (length changes))), sy)
          else if \<not> versions_follow (psVersion state) changes then (Inl SyOrder, sy)
          else if changes = [] then (Inr (0, False), sy)
          else
            let (latest, batchMax) = collapseByName changes
            in case enqueueBatch sha256_hex (beCancelled env) (beFiles env) (beQueue env) (beNow env) sy peer latest of
                 (Inl x, sy1) \<Rightarrow> (Inl x, sy1)
               | (Inr _, sy1) \<Rightarrow>
                   if batchMax > psVersion state then
                     (case put_peer_state (beCursor env) sy1 peer \<lparr> psVersion = batchMax, psEpoch = rspEpoch resp \<rparr> of
                        (Inl x, sy2) \<Rightarrow> (Inl x, sy2)
                      | (Inr _, sy2) \<Rightarrow>
                          (Inr (int (length changes), False), withStat sy2 peer (\<lambda>st. st\<lparr>stCursor := batchMax\<rparr>)))
                   else (Inr (int (length changes), False), sy1))"

text \<open>First contact, or an upgrade from a version that had no epoch.\<close>

definition adoptEpoch ::
    "string option \<Rightarrow> Syncer \<Rightarrow> string \<Rightarrow> PeerState \<Rightarrow> string \<Rightarrow> (sync_error, unit) result \<times> Syncer" where
  "adoptEpoch e sy peer state ep =
     (if psEpoch state \<noteq> ep \<and> ep \<noteq> []
      then put_peer_state e sy peer \<lparr> psVersion = psVersion state, psEpoch = ep \<rparr>
      else (Inr (), sy))"

definition syncBatch ::
    "(string \<Rightarrow> string) \<Rightarrow> batch_env \<Rightarrow> Syncer \<Rightarrow> string \<Rightarrow> (sync_error, int \<times> bool) result \<times> Syncer" where
  "syncBatch sha256_hex env sy peer =
     (case GetPeerState (beState env) (syStore sy) peer of
        Inl x \<Rightarrow> (Inl (SyStore x), sy)
      | Inr state \<Rightarrow>
          case doRequest sy (beReply env) of
            (Inl x, sy1) \<Rightarrow> (Inl x, sy1)
          | (Inr resp, sy1) \<Rightarrow>
              if rspStatus resp \<noteq> 200 then (Inl (SyStatus (rspStatus resp)), sy1)
              else
                let ep = rspEpoch resp;
                    peerMax = parseInt64Header (rspMaxVersion resp);
                    sy2 = withStat sy1 peer (\<lambda>st. st\<lparr>stCursor := psVersion state, stEpoch := ep,
                            stPeerMax := (case peerMax of None \<Rightarrow> stPeerMax st | Some m \<Rightarrow> m)\<rparr>)
                in if needsCursorReset state ep peerMax then
                     (case put_peer_state (beReset env) sy2 peer \<lparr> psVersion = 0, psEpoch = ep \<rparr> of
                        (Inl x, sy3) \<Rightarrow> (Inl x, sy3)
                      | (Inr _, sy3) \<Rightarrow> (Inr (0, True), sy3))
                   else
                     case adoptEpoch (beEpoch env) sy2 peer state ep of
                       (Inl x, sy3) \<Rightarrow> (Inl x, sy3)
                     | (Inr _, sy3) \<Rightarrow> takePage sha256_hex env sy3 peer state resp)"

text \<open>At most one extra pass, with its own environment.\<close>

definition syncOnce ::
    "(string \<Rightarrow> string) \<Rightarrow> batch_env \<Rightarrow> batch_env \<Rightarrow> Syncer \<Rightarrow> string \<Rightarrow> (sync_error, int) result \<times> Syncer" where
  "syncOnce sha256_hex env1 env2 sy peer =
     (case syncBatch sha256_hex env1 sy peer of
        (Inl x, sy1) \<Rightarrow> (Inl x, sy1)
      | (Inr (n, reset), sy1) \<Rightarrow>
          if \<not> reset then (Inr n, sy1)
          else let (r, sy2) = syncBatch sha256_hex env2 sy1 peer in (result_bind r (\<lambda>nr. Inr (fst nr)), sy2))"

subsection \<open>Manifest comparison\<close>

record page_env =
  peCancelled :: bool
  peReply :: "string + FileMeta list response"
  peFiles :: "string option"
  peQueue :: "string option"
  peSave :: "string option"
  peNow :: int

abbreviation (input) manifestPageSize :: int where
  "manifestPageSize \<equiv> 1000"

definition reconcilePositionKey :: "string \<Rightarrow> string" where
  "reconcilePositionKey peer = PerPeerKeyPrefix @ peer"

definition save_position :: "string option \<Rightarrow> Syncer \<Rightarrow> string \<Rightarrow> string \<Rightarrow> (store_error, unit) result \<times> Syncer" where
  "save_position e sy peer after =
     (let (r, s') = SetNodeValue e (syStore sy) (reconcilePositionKey peer) after in (r, sy\<lparr>syStore := s'\<rparr>))"

definition interrupted ::
    "string option \<Rightarrow> Syncer \<Rightarrow> string \<Rightarrow> string \<Rightarrow> sync_error \<Rightarrow> (sync_error, bool) result \<times> Syncer" where
  "interrupted e sy peer after cause =
     (case save_position e sy peer after of
        (Inl x, sy') \<Rightarrow> (Inl (SyJoin cause x), sy')
      | (Inr _, sy') \<Rightarrow> (Inl cause, sy'))"

definition position_saved ::
    "bool \<Rightarrow> (store_error, unit) result \<times> Syncer \<Rightarrow> (sync_error, bool) result \<times> Syncer" where
  "position_saved completed out =
     (case out of (Inl x, sy') \<Rightarrow> (Inl (SyStore x), sy') | (Inr _, sy') \<Rightarrow> (Inr completed, sy'))"

text \<open>One page: \<open>Inl\<close> is the result of the pass, \<open>Inr\<close> the position after a recorded page.\<close>

definition reconcileStep ::
    "(string \<Rightarrow> string) \<Rightarrow> page_env \<Rightarrow> Syncer \<Rightarrow> string \<Rightarrow> string \<Rightarrow> int
     \<Rightarrow> ((sync_error, bool) result \<times> Syncer) + (string \<times> Syncer)" where
  "reconcileStep sha256_hex env sy peer after pages =
     (if peCancelled env then Inl (Inl SyCancelled, sy)
      else if syPageBudget sy > 0 \<and> pages \<ge> syPageBudget sy then
        Inl (position_saved False (save_position (peSave env) sy peer after))
      else
        case doRequest sy (peReply env) of
          (Inl x, sy1) \<Rightarrow> Inl (interrupted (peSave env) sy1 peer after x)
        | (Inr resp, sy1) \<Rightarrow>
            if rspStatus resp = 404 then Inl (position_saved False (save_position (peSave env) sy1 peer []))
            else if rspStatus resp \<noteq> 200 then Inl (interrupted (peSave env) sy1 peer after (SyStatus (rspStatus resp)))
            else
              case decodePage resp manifestPageSize of
                Inl x \<Rightarrow> Inl (interrupted (peSave env) sy1 peer after x)
              | Inr page \<Rightarrow>
                  if int (length page) > manifestPageSize then Inl (Inl (SyTooMany (int (length page))), sy1)
                  else if page = [] then Inl (position_saved True (save_position (peSave env) sy1 peer []))
                  else if \<not> names_follow after page then Inl (Inl SyOrder, sy1)
                  else
                    case reconcilePage sha256_hex (peFiles env) (peQueue env) (peNow env) sy1 peer page of
                      (Inl x, sy2) \<Rightarrow> Inl (interrupted (peSave env) sy2 peer after x)
                    | (Inr n, sy2) \<Rightarrow> Inr (Name (last page), sy2))"

text \<open>The loop of \<open>reconcileOnce\<close>. \<open>envs i after\<close> is the environment of the \<open>i\<close>-th page when it is asked
  for beyond \<open>after\<close>; \<open>None\<close> means that the loop still runs when the fuel is used up.\<close>

fun reconcile_loop ::
    "(string \<Rightarrow> string) \<Rightarrow> (nat \<Rightarrow> string \<Rightarrow> page_env) \<Rightarrow> string \<Rightarrow> nat \<Rightarrow> nat \<Rightarrow> Syncer \<Rightarrow> string
     \<Rightarrow> ((sync_error, bool) result \<times> Syncer) option" where
  "reconcile_loop sha256_hex envs peer 0 i sy after = None"
| "reconcile_loop sha256_hex envs peer (Suc fuel) i sy after =
     (case reconcileStep sha256_hex (envs i after) sy peer after (int i) of
        Inl out \<Rightarrow> Some out
      | Inr (after', sy') \<Rightarrow> reconcile_loop sha256_hex envs peer fuel (Suc i) sy' after')"

definition reconcileOnce ::
    "(string \<Rightarrow> string) \<Rightarrow> string option \<Rightarrow> (nat \<Rightarrow> string \<Rightarrow> page_env) \<Rightarrow> nat \<Rightarrow> Syncer \<Rightarrow> string
     \<Rightarrow> ((sync_error, bool) result \<times> Syncer) option" where
  "reconcileOnce sha256_hex e envs fuel sy peer =
     (case NodeValue e (syStore sy) (reconcilePositionKey peer) of
        Inl x \<Rightarrow> Some (Inl (SyStore x), sy)
      | Inr after \<Rightarrow> reconcile_loop sha256_hex envs peer fuel 0 sy after)"

subsection \<open>Readiness\<close>

definition stat_caught_up :: "peerStat \<Rightarrow> bool" where
  "stat_caught_up st \<longleftrightarrow> stLastReconcile st \<noteq> None \<and> stLastSuccess st \<noteq> None \<and> stEpoch st \<noteq> [] \<and>
     stCursor st \<ge> stPeerMax st \<and> stErrs st = 0"

definition ServingReady :: "string option \<Rightarrow> Syncer \<Rightarrow> bool \<times> Syncer" where
  "ServingReady e sy =
     (if syInitialized sy \<or> syPeers sy = [] then (True, sy)
      else
        let sources = map fst (filter (\<lambda>ps. stat_caught_up (snd ps)) (syStats sy))
        in case filter (\<lambda>peer. PendingRepairCount (syStore sy) peer = 0) sources of
             [] \<Rightarrow> (False, sy)
           | _ # _ \<Rightarrow>
               (case SetNodeValue e (syStore sy) ''replica_initialized'' ''1'' of
                  (Inl x, s') \<Rightarrow> (False, sy\<lparr>syStore := s'\<rparr>)
                | (Inr _, s') \<Rightarrow> (True, sy\<lparr>syStore := s', syInitialized := True\<rparr>)))"

text \<open>The sync directory as \<open>filepath.WalkDir\<close> meets it, entries in lexical order. A directory whose
  listing fails carries whether the failure is a permission error.\<close>

datatype fs_tree = FsRegular | FsOther | FsDir "(string \<times> fs_tree) list" | FsUnreadable bool

datatype walk = WalkOn | WalkFound | WalkFailed

fun walk_entry :: "string list \<Rightarrow> string \<Rightarrow> fs_tree \<Rightarrow> walk"
  and walk_entries :: "string list \<Rightarrow> string \<Rightarrow> (string \<times> fs_tree) list \<Rightarrow> walk" where
  "walk_entry ignorePatterns rel t =
     (if ShouldIgnore rel ignorePatterns \<or> rel = ''.birak'' then WalkOn
      else case t of
        FsRegular \<Rightarrow> WalkFound
      | FsOther \<Rightarrow> WalkOn
      | FsUnreadable permission \<Rightarrow> if permission then WalkOn else WalkFailed
      | FsDir es \<Rightarrow> walk_entries ignorePatterns (rel @ ''/'') es)"
| "walk_entries ignorePatterns pre [] = WalkOn"
| "walk_entries ignorePatterns pre ((n, t) # es) =
     (case walk_entry ignorePatterns (pre @ n) t of
        WalkOn \<Rightarrow> walk_entries ignorePatterns pre es
      | w \<Rightarrow> w)"

text \<open>The walk of the sync directory itself: whether it holds a file, or \<open>None\<close> when it failed.\<close>

definition walk_root :: "string list \<Rightarrow> fs_tree \<Rightarrow> bool option" where
  "walk_root ignorePatterns t =
     (case t of
        FsDir es \<Rightarrow> (case walk_entries ignorePatterns [] es of WalkOn \<Rightarrow> Some False | WalkFound \<Rightarrow> Some True | WalkFailed \<Rightarrow> None)
      | FsUnreadable _ \<Rightarrow> None
      | _ \<Rightarrow> Some False)"

definition initializeAdmission ::
    "string option \<Rightarrow> fs_tree \<Rightarrow> string option \<Rightarrow> Syncer \<Rightarrow> Syncer" where
  "initializeAdmission eFlag syncDir eSet sy =
     (case NodeValue eFlag (syStore sy) ''replica_initialized'' of
        Inl _ \<Rightarrow> sy
      | Inr flag \<Rightarrow>
          if flag \<noteq> [] then sy\<lparr>syInitialized := (flag = ''1'')\<rparr>
          else
            case (if MaxVersion (syStore sy) > 0 \<or> syPeers sy = [] then Some True
                  else walk_root (syIgnore sy) syncDir) of
              None \<Rightarrow> sy
            | Some seeded \<Rightarrow>
                (case SetNodeValue eSet (syStore sy) ''replica_initialized'' (if seeded then ''1'' else ''0'') of
                   (Inl x, s') \<Rightarrow> sy\<lparr>syStore := s'\<rparr>
                 | (Inr _, s') \<Rightarrow> sy\<lparr>syStore := s', syInitialized := seeded\<rparr>))"

subsection \<open>Iterations of the two discovery loops\<close>

text \<open>What a loop does next: end, or go on after a pause (without its jitter).\<close>

datatype loop_next = Ends | Again | Pause int

text \<open>An iteration of \<open>pollPeer\<close> with the current backoff; \<open>now\<close> is the time after the poll and
  \<open>cancelled\<close> the context after a failed one.\<close>

definition pollStep ::
    "(string \<Rightarrow> string) \<Rightarrow> batch_env \<Rightarrow> batch_env \<Rightarrow> bool \<Rightarrow> int \<Rightarrow> string option \<Rightarrow> Syncer \<Rightarrow> string \<Rightarrow> int
     \<Rightarrow> loop_next \<times> int \<times> Syncer" where
  "pollStep sha256_hex env1 env2 cancelled now eReady sy peer backoff =
     (case syncOnce sha256_hex env1 env2 sy peer of
        (Inl x, sy1) \<Rightarrow>
          if cancelled then (Ends, backoff, sy1)
          else if is_queue_full x then (Pause (syPollInterval sy), backoff, sy1)
          else if is_self_peer x then (Ends, backoff, retireSelfPeer sy1 peer)
          else
            let duplicate = (case x of SyDuplicateNode n \<Rightarrow> True | _ \<Rightarrow> False)
            in (Pause backoff, poll_backoff backoff,
                withStat sy1 peer (\<lambda>st. st\<lparr>stLastError := True, stErrs := stErrs st + 1, stDuplicate := duplicate\<rparr>))
      | (Inr n, sy1) \<Rightarrow>
          let sy2 = withStat sy1 peer (\<lambda>st. st\<lparr>stLastSuccess := Some now, stLastError := False, stErrs := 0, stDuplicate := False\<rparr>)
          in if n > 0 then (Again, syPollInterval sy, sy2)
             else (Pause (syPollInterval sy), syPollInterval sy, snd (ServingReady eReady sy2)))"

text \<open>An iteration of \<open>reconcilePeer\<close> after its pass returned.\<close>

definition reconcileDone ::
    "bool \<Rightarrow> int \<Rightarrow> string option \<Rightarrow> (sync_error, bool) result \<Rightarrow> Syncer \<Rightarrow> string \<Rightarrow> loop_next \<times> Syncer" where
  "reconcileDone cancelled now eReady r sy peer =
     (case r of
        Inl x \<Rightarrow>
          if is_self_peer x then (Ends, retireSelfPeer sy peer)
          else if \<not> is_queue_full x \<and> cancelled then (Ends, sy)
          else let sy1 = snd (ServingReady eReady sy)
            in if \<not> syInitialized sy1 then (Pause 1000000000, sy1)
               else if syReconcileInterval sy \<le> 0 then (Ends, sy1) else (Pause (syReconcileInterval sy), sy1)
      | Inr completed \<Rightarrow>
          let sy0 = (if completed then withStat sy peer (\<lambda>st. st\<lparr>stLastReconcile := Some now\<rparr>) else sy);
              sy1 = snd (ServingReady eReady sy0)
          in if \<not> syInitialized sy1 then (Pause 1000000000, sy1)
             else if syReconcileInterval sy \<le> 0 then (Ends, sy1) else (Pause (syReconcileInterval sy), sy1))"

subsection \<open>Status\<close>

record PeerStatus =
  pvPeer :: string
  pvCursor :: int
  pvPeerMax :: int
  pvLag :: int
  pvEpoch :: string
  pvHasError :: bool
  pvErrs :: int
  pvPending :: int
  pvDuplicate :: bool
  pvHealthy :: bool
  pvLastSuccessAgo :: int
  pvLastReconcileMS :: int

definition max64 :: "int \<Rightarrow> int \<Rightarrow> int" where
  "max64 a b = (if a > b then a else b)"

definition peer_status :: "int \<Rightarrow> Syncer \<Rightarrow> string \<Rightarrow> peerStat \<Rightarrow> PeerStatus" where
  "peer_status now sy peer st =
     (let pending = PendingRepairCount (syStore sy) peer;
          ago = (\<lambda>t. case t of None \<Rightarrow> -1 | Some u \<Rightarrow> go_div (now - u) 1000000)
      in \<lparr> pvPeer = peer, pvCursor = stCursor st, pvPeerMax = stPeerMax st,
           pvLag = max64 0 (wrap64 (stPeerMax st - stCursor st)), pvEpoch = stEpoch st,
           pvHasError = stLastError st, pvErrs = stErrs st, pvPending = pending,
           pvDuplicate = stDuplicate st,
           pvHealthy = (stErrs st = 0 \<and> pending = 0 \<and>
             (case stLastSuccess st of
                None \<Rightarrow> False
              | Some u \<Rightarrow> now - u < wrap64 (wrap64 (5 * syPollInterval sy) + 60000000000))),
           pvLastSuccessAgo = ago (stLastSuccess st), pvLastReconcileMS = ago (stLastReconcile st) \<rparr>)"

fun peer_stats_loop :: "int \<Rightarrow> Syncer \<Rightarrow> string list \<Rightarrow> PeerStatus list" where
  "peer_stats_loop now sy [] = []"
| "peer_stats_loop now sy (peer # peers) =
     (case row_of fst (syStats sy) peer of
        None \<Rightarrow> peer_stats_loop now sy peers
      | Some ps \<Rightarrow>
          if stSelf (snd ps) then peer_stats_loop now sy peers
          else peer_status now sy peer (snd ps) # peer_stats_loop now sy peers)"

definition PeerStats :: "int \<Rightarrow> Syncer \<Rightarrow> PeerStatus list" where
  "PeerStats now sy = peer_stats_loop now sy (syPeers sy)"

definition PeerNodeIDs :: "Syncer \<Rightarrow> string list \<times> bool" where
  "PeerNodeIDs sy =
     (syPeerIDs sy,
      \<not> list_ex (\<lambda>peer. case row_of fst (syStats sy) peer of
           None \<Rightarrow> False | Some ps \<Rightarrow> \<not> stSelf (snd ps) \<and> stLastSuccess (snd ps) = None) (syPeers sy))"

subsection \<open>Queue bookkeeping and metadata requests\<close>

definition resolveRepair :: "string option \<Rightarrow> Syncer \<Rightarrow> RepairItem \<Rightarrow> (sync_error, unit) result \<times> Syncer" where
  "resolveRepair e sy item =
     (case ResolveRepairItem e (syStore sy) item of
        (Inl x, s') \<Rightarrow> (Inl (SyStore x), sy\<lparr>syStore := s'\<rparr>)
      | (Inr _, s') \<Rightarrow> (Inr (), sy\<lparr>syStore := s'\<rparr>))"

definition deferRepair ::
    "string option \<Rightarrow> int \<Rightarrow> Syncer \<Rightarrow> RepairItem \<Rightarrow> string \<Rightarrow> (sync_error, unit) result \<times> Syncer" where
  "deferRepair e now sy item cause =
     (case DeferRepairItem e now (syStore sy) item (repair_backoff (riAttempts item)) cause of
        (Inl x, s') \<Rightarrow> (Inl (SyStore x), sy\<lparr>syStore := s'\<rparr>)
      | (Inr _, s') \<Rightarrow> (Inr (), sy\<lparr>syStore := s'\<rparr>))"

definition fetchMeta ::
    "(string \<Rightarrow> string) \<Rightarrow> Syncer \<Rightarrow> string + FileMeta response \<Rightarrow> string \<Rightarrow> (sync_error, FileMeta option) result \<times> Syncer" where
  "fetchMeta sha256_hex sy reply name =
     (case doRequest sy reply of
        (Inl x, sy1) \<Rightarrow> (Inl x, sy1)
      | (Inr resp, sy1) \<Rightarrow>
          (if rspStatus resp = 404 then Inr None
           else if rspStatus resp \<noteq> 200 then Inl (SyStatus (rspStatus resp))
           else case decodePage resp 1 of
             Inl x \<Rightarrow> Inl x
           | Inr meta \<Rightarrow>
               if Name meta \<noteq> name then Inl (SyOtherName (Name meta))
               else case validateMetadata sha256_hex meta of Inl x \<Rightarrow> Inl (SyMeta x) | Inr _ \<Rightarrow> Inr (Some meta),
           sy1))"

section \<open>Lemmas\<close>

definition peer_version :: "Store \<Rightarrow> string \<Rightarrow> int" where
  "peer_version s peer = (case row_of cuPeer (cursors (db s)) peer of None \<Rightarrow> 0 | Some c \<Rightarrow> cuLastVer c)"

text \<open>An announced state needs nothing more from discovery: it is unusable here, this node already
  holds it or a newer one, or it is queued.\<close>

definition covered :: "(string \<Rightarrow> string) \<Rightarrow> Syncer \<Rightarrow> string \<Rightarrow> FileMeta \<Rightarrow> bool" where
  "covered sha256_hex sy peer c \<longleftrightarrow> usable sha256_hex sy c \<longrightarrow>
     \<not> wanted_here sy (row_of Name (files (db (syStore sy))) (Name c)) c \<or>
     holds_at_least (repair_queue (db (syStore sy))) peer c"

text \<open>What discovery leaves alone.\<close>

definition same_index :: "Syncer \<Rightarrow> Syncer \<Rightarrow> bool" where
  "same_index sy sy' \<longleftrightarrow> files (db (syStore sy')) = files (db (syStore sy)) \<and>
     quarantined (syStore sy') = quarantined (syStore sy) \<and> syIgnore sy' = syIgnore sy \<and>
     repairLimit (syStore sy') = repairLimit (syStore sy) \<and> syPageBudget sy' = syPageBudget sy \<and>
     syNodeID sy' = syNodeID sy"

lemma same_index_refl [simp]: "same_index sy sy"
  by (simp add: same_index_def)

lemma same_index_trans [trans]: "same_index a b \<Longrightarrow> same_index b c \<Longrightarrow> same_index a c"
  by (simp add: same_index_def)

lemma covered_mono:
  assumes "same_index sy sy'"
    "\<And>m. holds_at_least (repair_queue (db (syStore sy))) peer m \<Longrightarrow> holds_at_least (repair_queue (db (syStore sy'))) peer m"
    "covered sha256_hex sy peer c"
  shows "covered sha256_hex sy' peer c"
  using assms by (auto simp: covered_def same_index_def usable_def wanted_here_def IsQuarantined_def)

lemma withStat_fields [simp]:
  "syStore (withStat sy peer f) = syStore sy" "syIgnore (withStat sy peer f) = syIgnore sy"
  "syPageBudget (withStat sy peer f) = syPageBudget sy" "syNodeID (withStat sy peer f) = syNodeID sy"
  "syBatchLimit (withStat sy peer f) = syBatchLimit sy" "syPollInterval (withStat sy peer f) = syPollInterval sy"
  by (simp_all add: withStat_def)

lemma doRequest_fields [simp]:
  "syStore (snd (doRequest sy reply)) = syStore sy" "syIgnore (snd (doRequest sy reply)) = syIgnore sy"
  "syPageBudget (snd (doRequest sy reply)) = syPageBudget sy" "syNodeID (snd (doRequest sy reply)) = syNodeID sy"
  "syBatchLimit (snd (doRequest sy reply)) = syBatchLimit sy"
  by (auto simp: doRequest_def checkPeerIdentity_def Let_def split: sum.splits)

lemma doRequest_same: "doRequest sy reply = (r, sy') \<Longrightarrow>
    syStore sy' = syStore sy \<and> syBatchLimit sy' = syBatchLimit sy \<and> same_index sy sy'"
  using doRequest_fields [of sy reply] by (auto simp: same_index_def)

lemma doRequest_reply: "doRequest sy reply = (Inr resp, sy') \<Longrightarrow> reply = Inr resp"
  by (auto simp: doRequest_def split: sum.splits prod.splits)

lemma enqueue_frame:
  "files (db (snd (enqueue e now s peer reason batch))) = files (db s)"
  "cursors (db (snd (enqueue e now s peer reason batch))) = cursors (db s)"
  "quarantined (snd (enqueue e now s peer reason batch)) = quarantined s"
  "repairLimit (snd (enqueue e now s peer reason batch)) = repairLimit s"
  by (auto simp: enqueue_def Let_def addQueueSize_def invalidateQueueStats_def split: option.split)

lemma enqueue_holds:
  "holds_at_least (repair_queue (db s)) peer m \<Longrightarrow>
   holds_at_least (repair_queue (db (snd (enqueue e now s peer' reason batch)))) peer m"
  using enqueue_loop_monotone [of "enqueue_start s" peer m peer' reason now "repairLimit s" "queuedFor s peer'" batch]
  by (simp add: enqueue_def Let_def addQueueSize_def invalidateQueueStats_def split: option.split)

lemma newerThanLocal_wanted:
  assumes "newerThanLocal e sy entries = Inr wanted" "c \<in> set entries"
  shows "c \<in> set wanted \<longleftrightarrow> wanted_here sy (row_of Name (files (db (syStore sy))) (Name c)) c"
  using assms
  by (auto simp: newerThanLocal_def GetFilesBatch_def db_read_def split: if_splits option.splits)

lemma recordPage_same:
  assumes "recordPage sha256_hex eF eQ now sy peer page reason = (r, sy')"
  shows "same_index sy sy'" "cursors (db (syStore sy')) = cursors (db (syStore sy))" "syBatchLimit sy' = syBatchLimit sy"
    "holds_at_least (repair_queue (db (syStore sy))) p m \<Longrightarrow> holds_at_least (repair_queue (db (syStore sy'))) p m"
    "store_reachable nfc_fold (syStore sy) \<Longrightarrow> store_reachable nfc_fold (syStore sy')"
proof -
  let ?good = "filter (usable sha256_hex sy) page"
  define sy1 where "sy1 = sy\<lparr>sySkipped := sySkipped sy + int (length (filter (\<lambda>c. \<not> usable sha256_hex sy c) page))\<rparr>"
  have s1: "syStore sy1 = syStore sy" "same_index sy sy1" "syBatchLimit sy1 = syBatchLimit sy"
    by (simp_all add: sy1_def same_index_def)
  have cases: "sy' = sy1 \<or> (\<exists>wanted. sy' = sy1\<lparr>syStore := snd (EnqueueChanges eQ now (syStore sy) peer wanted reason)\<rparr>)"
  proof (cases "newerThanLocal eF sy1 ?good")
    case (Inl x)
    then show ?thesis using assms by (auto simp: recordPage_def Let_def sy1_def)
  next
    case (Inr wanted)
    obtain n err s' where e: "EnqueueChanges eQ now (syStore sy) peer wanted reason = ((n, err), s')"
      by (metis prod.collapse)
    show ?thesis using assms Inr e
      by (cases err) (auto simp: recordPage_def Let_def sy1_def intro!: exI [of _ wanted])
  qed
  then show "same_index sy sy'" "cursors (db (syStore sy')) = cursors (db (syStore sy))" "syBatchLimit sy' = syBatchLimit sy"
    using s1 by (auto simp: same_index_def EnqueueChanges_def enqueue_frame)
  show "holds_at_least (repair_queue (db (syStore sy'))) p m" if "holds_at_least (repair_queue (db (syStore sy))) p m"
    using cases that s1 enqueue_holds by (auto simp: EnqueueChanges_def)
  show "store_reachable nfc_fold (syStore sy')" if "store_reachable nfc_fold (syStore sy)"
    using cases that s1 store_reachable.step [OF that store_step.enqueue] by (auto simp: EnqueueChanges_def)
qed

lemma recordPage_covers:
  assumes "recordPage sha256_hex eF eQ now sy peer page reason = (Inr n, sy')" "c \<in> set page"
  shows "covered sha256_hex sy' peer c"
proof (cases "usable sha256_hex sy c")
  case False
  then show ?thesis using recordPage_same(1) [OF assms(1)] by (simp add: covered_def same_index_def usable_def)
next
  case True
  let ?good = "filter (usable sha256_hex sy) page"
  define sy1 where "sy1 = sy\<lparr>sySkipped := sySkipped sy + int (length (filter (\<lambda>c. \<not> usable sha256_hex sy c) page))\<rparr>"
  obtain wanted s' where w: "newerThanLocal eF sy1 ?good = Inr wanted"
      "EnqueueChanges eQ now (syStore sy1) peer wanted reason = ((n, None), s')" "sy' = sy1\<lparr>syStore := s'\<rparr>"
    using assms(1) by (auto simp: recordPage_def Let_def sy1_def [symmetric] split: sum.splits prod.splits option.splits)
  note same = recordPage_same(1) [OF assms(1)]
  have "wanted_here sy' m c = wanted_here sy1 m c" for m
    using same by (simp add: wanted_here_def IsQuarantined_def same_index_def sy1_def)
  moreover have "files (db (syStore sy1)) = files (db (syStore sy'))" using same by (simp add: same_index_def sy1_def)
  ultimately have "c \<in> set wanted \<or> \<not> wanted_here sy' (row_of Name (files (db (syStore sy'))) (Name c)) c"
    using newerThanLocal_wanted [OF w(1), of c] True assms(2) by simp
  then show ?thesis using EnqueueChanges_holds [OF w(2)] w(3) by (auto simp: covered_def)
qed

subsection \<open>The stream position\<close>

lemma put_peer_state_cases:
  assumes "put_peer_state e sy peer ps = (r, sy')"
  shows "same_index sy sy'" "syBatchLimit sy' = syBatchLimit sy"
    "repair_queue (db (syStore sy')) = repair_queue (db (syStore sy))"
    "peer_version (syStore sy') peer = (if is_ok r then psVersion ps else peer_version (syStore sy) peer)"
    "store_reachable nfc_fold (syStore sy) \<Longrightarrow> store_reachable nfc_fold (syStore sy')"
proof -
  obtain x where x: "sy' = sy\<lparr>syStore := snd (SetPeerState e (syStore sy) peer ps)\<rparr>"
    using assms by (auto simp: put_peer_state_def split: sum.splits prod.splits)
  then show "same_index sy sy'" "syBatchLimit sy' = syBatchLimit sy"
    "repair_queue (db (syStore sy')) = repair_queue (db (syStore sy))"
    by (auto simp: same_index_def SetPeerState_def db_write_def split: option.splits)
  show "peer_version (syStore sy') peer = (if is_ok r then psVersion ps else peer_version (syStore sy) peer)"
    using assms by (cases e) (auto simp: put_peer_state_def SetPeerState_def db_write_def peer_version_def
        is_ok_def row_of_upsert)
  show "store_reachable nfc_fold (syStore sy')" if "store_reachable nfc_fold (syStore sy)"
    using x store_reachable.step [OF that store_step.set_peer] by simp
qed

lemma adoptEpoch_cases:
  assumes "adoptEpoch e sy peer state ep = (r, sy')"
  shows "peer_version (syStore sy) peer = psVersion state \<Longrightarrow> peer_version (syStore sy') peer = psVersion state"
    "store_reachable nfc_fold (syStore sy) \<Longrightarrow> store_reachable nfc_fold (syStore sy')"
proof -
  have c: "sy' = sy \<or> put_peer_state e sy peer \<lparr> psVersion = psVersion state, psEpoch = ep \<rparr> = (r, sy')"
    using assms by (auto simp: adoptEpoch_def split: if_splits)
  show "peer_version (syStore sy') peer = psVersion state" if "peer_version (syStore sy) peer = psVersion state"
    using c that put_peer_state_cases(4) by force
  show "store_reachable nfc_fold (syStore sy')" if "store_reachable nfc_fold (syStore sy)"
    using c that put_peer_state_cases(5) by blast
qed

lemma enqueueBatch_same:
  assumes "enqueueBatch sha256_hex cancelled eF eQ now sy peer page = (r, sy')"
  shows "same_index sy sy'" "peer_version (syStore sy') p = peer_version (syStore sy) p"
    "store_reachable nfc_fold (syStore sy) \<Longrightarrow> store_reachable nfc_fold (syStore sy')"
    "is_ok r \<Longrightarrow> c \<in> set page \<Longrightarrow> covered sha256_hex sy' peer c"
proof -
  have c: "sy' = sy \<and> \<not> is_ok r \<or> (\<exists>r0. recordPage sha256_hex eF eQ now sy peer page ''polled'' = (r0, sy') \<and> (is_ok r \<longrightarrow> is_ok r0))"
    using assms by (auto simp: enqueueBatch_def is_ok_def split: if_splits prod.splits sum.splits)
  show "same_index sy sy'" "peer_version (syStore sy') p = peer_version (syStore sy) p"
    "store_reachable nfc_fold (syStore sy) \<Longrightarrow> store_reachable nfc_fold (syStore sy')"
    using c recordPage_same by (auto simp: peer_version_def)
  show "covered sha256_hex sy' peer c" if ok: "is_ok r" and mem: "c \<in> set page"
  proof -
    obtain r0 where r0: "recordPage sha256_hex eF eQ now sy peer page ''polled'' = (r0, sy')" "is_ok r0"
      using c ok by blast
    then obtain n where "r0 = Inr n" by (auto simp: is_ok_def split: sum.splits)
    then show ?thesis using recordPage_covers [of sha256_hex eF eQ now sy peer page _ n sy' c] r0(1) mem by simp
  qed
qed

lemma versions_follow_gt: "versions_follow v cs \<Longrightarrow> c \<in> set cs \<Longrightarrow> v < Version c"
proof (induction cs arbitrary: v)
  case (Cons a cs)
  then have a: "v < Version a" "versions_follow (Version a) cs" by (auto split: if_splits)
  show ?case
  proof (cases "c = a")
    case False
    then show ?thesis using Cons.IH [OF a(2)] Cons.prems(2) a(1) by simp
  qed (use a in simp)
qed simp

lemma collapse_page:
  assumes "versions_follow v changes" "changes \<noteq> []" "0 \<le> v" "collapseByName changes = (latest, m)"
  shows "set latest \<subseteq> set changes" "\<forall>c \<in> set changes. \<exists>x \<in> set latest. Name x = Name c \<and> Version c \<le> Version x"
    "m = Max (Version ` set changes)" "v < m"
proof -
  have "m = max 0 (Max (Version ` set changes))"
    using collapse_loop_spec [of "[]" changes 0] assms(2,4) by (auto simp: collapseByName_def)
  moreover obtain c where c: "c \<in> set changes" using assms(2) by (meson last_in_set)
  moreover have "v < Version c" using versions_follow_gt [OF assms(1) c] .
  moreover have "Version c \<le> Max (Version ` set changes)" using c by simp
  ultimately show "m = Max (Version ` set changes)" "v < m"
    using assms(3) by linarith+
  show "set latest \<subseteq> set changes" "\<forall>c \<in> set changes. \<exists>x \<in> set latest. Name x = Name c \<and> Version c \<le> Version x"
    using collapse_loop_spec [of "[]" changes 0] assms(4) by (auto simp: collapseByName_def)
qed

text \<open>The three outcomes of taking a page: an error that leaves the position, nothing new, or the page
  recorded and the position behind it.\<close>

definition page_taken ::
    "(string \<Rightarrow> string) \<Rightarrow> int \<Rightarrow> FileMeta list response \<Rightarrow> (sync_error, int \<times> bool) result \<Rightarrow> Syncer \<Rightarrow> string \<Rightarrow> bool" where
  "page_taken sha256_hex v resp r sy' peer \<longleftrightarrow>
     (\<exists>changes. rspValue resp = Some changes \<and> changes \<noteq> [] \<and> r = Inr (int (length changes), False) \<and>
        versions_follow v changes \<and> peer_version (syStore sy') peer = Max (Version ` set changes) \<and>
        (\<forall>c \<in> set changes. \<exists>c' \<in> set changes. Name c' = Name c \<and> Version c \<le> Version c' \<and> covered sha256_hex sy' peer c'))"

lemma takePage_cases:
  assumes "takePage sha256_hex env sy peer state resp = (r, sy')" "peer_version (syStore sy) peer = psVersion state"
    "0 \<le> psVersion state"
  shows "peer_version (syStore sy') peer = psVersion state \<or> page_taken sha256_hex (psVersion state) resp r sy' peer"
proof (cases "\<exists>changes. rspValue resp = Some changes \<and> \<not> (rspSize resp > page_budget (syBatchLimit sy) \<or>
    int (length changes) > syBatchLimit sy \<or> \<not> versions_follow (psVersion state) changes \<or> changes = [])")
  case False
  then show ?thesis using assms by (cases "rspValue resp") (auto simp: takePage_def decodePage_def split: if_splits)
next
  case True
  then obtain changes where ok: "rspValue resp = Some changes" "\<not> rspSize resp > page_budget (syBatchLimit sy)"
      "\<not> int (length changes) > syBatchLimit sy" "versions_follow (psVersion state) changes" "changes \<noteq> []" by blast
  obtain latest batchMax where cl: "collapseByName changes = (latest, batchMax)" by fastforce
  note page = collapse_page [OF ok(4,5) assms(3) cl]
  obtain r1 sy1 where e: "enqueueBatch sha256_hex (beCancelled env) (beFiles env) (beQueue env) (beNow env) sy peer latest = (r1, sy1)"
    by fastforce
  obtain r2 sy2 where p: "put_peer_state (beCursor env) sy1 peer \<lparr> psVersion = batchMax, psEpoch = rspEpoch resp \<rparr> = (r2, sy2)"
    by fastforce
  note eb = enqueueBatch_same [OF e] and pp = put_peer_state_cases [OF p]
  note run = assms(1) ok cl e p page(4)
  show ?thesis
  proof (cases "is_ok r1 \<and> is_ok r2")
    case False
    then show ?thesis using run assms(2) eb(2) [of peer] pp(4)
      by (cases r1; cases r2) (simp_all add: takePage_def decodePage_def is_ok_def)
  next
    case True
    then have out: "r = Inr (int (length changes), False)" "sy' = withStat sy2 peer (\<lambda>st. st\<lparr>stCursor := batchMax\<rparr>)"
      using run by (cases r1; cases r2; simp add: takePage_def decodePage_def is_ok_def)+
    have "covered sha256_hex sy2 peer x" if "x \<in> set latest" for x
      using covered_mono [OF pp(1)] pp(3) eb(4) [of x] True that by simp
    then have "covered sha256_hex sy' peer x" if "x \<in> set latest" for x
      using that out(2) by (simp add: covered_def usable_def wanted_here_def)
    moreover have "peer_version (syStore sy') peer = batchMax" using out pp(4) True by simp
    ultimately have "page_taken sha256_hex (psVersion state) resp r sy' peer"
      unfolding page_taken_def using out(1) ok(1,4,5) page(1-3) by (metis subsetD)
    then show ?thesis by simp
  qed
qed

lemma takePage_reachable:
  assumes "takePage sha256_hex env sy peer state resp = (r, sy')" "store_reachable nfc_fold (syStore sy)"
  shows "store_reachable nfc_fold (syStore sy')"
proof -
  have "syStore sy' = syStore sy \<or> (\<exists>r1 sy1 latest batchMax. enqueueBatch sha256_hex (beCancelled env) (beFiles env) (beQueue env) (beNow env) sy peer latest = (r1, sy1) \<and>
      (syStore sy' = syStore sy1 \<or> (\<exists>r2 sy2. put_peer_state (beCursor env) sy1 peer \<lparr> psVersion = batchMax, psEpoch = rspEpoch resp \<rparr> = (r2, sy2) \<and> syStore sy' = syStore sy2)))"
    using assms(1) unfolding takePage_def
    by (auto split: sum.splits if_splits prod.splits) blast+
  then show ?thesis using assms(2) enqueueBatch_same(3) put_peer_state_cases(5) by metis
qed

text \<open>What one poll may do with the stored position: leave it, reset it, or move it behind a recorded page.\<close>

lemma syncBatch_cases:
  assumes "syncBatch sha256_hex env sy peer = (r, sy')" "0 \<le> peer_version (syStore sy) peer"
  shows "peer_version (syStore sy') peer = peer_version (syStore sy) peer \<or>
    (r = Inr (0, True) \<and> peer_version (syStore sy') peer = 0) \<or>
    (\<exists>resp. beReply env = Inr resp \<and> page_taken sha256_hex (peer_version (syStore sy) peer) resp r sy' peer)"
proof (cases "GetPeerState (beState env) (syStore sy) peer")
  case (Inl x)
  then show ?thesis using assms by (simp add: syncBatch_def)
next
  case (Inr state)
  then have v: "psVersion state = peer_version (syStore sy) peer"
    by (auto simp: GetPeerState_def db_read_def peer_version_def split: option.splits)
  obtain rr sy1 where d: "doRequest sy (beReply env) = (rr, sy1)" by fastforce
  note same = doRequest_same [OF d]
  show ?thesis
  proof (cases "\<exists>resp. rr = Inr resp \<and> rspStatus resp = 200")
    case False
    then show ?thesis using assms(1) Inr d same by (cases rr) (auto simp: syncBatch_def)
  next
    case True
    then obtain resp where resp: "rr = Inr resp" "rspStatus resp = 200" by blast
    then have reply: "beReply env = Inr resp" using doRequest_reply d by blast
    let ?m = "parseInt64Header (rspMaxVersion resp)"
    define sy2 where "sy2 = withStat sy1 peer (\<lambda>st. st\<lparr>stCursor := psVersion state, stEpoch := rspEpoch resp,
        stPeerMax := (case ?m of None \<Rightarrow> stPeerMax st | Some m \<Rightarrow> m)\<rparr>)"
    have s2: "peer_version (syStore sy2) peer = psVersion state" using same v by (simp add: sy2_def)
    note run = assms(1) Inr d resp sy2_def [symmetric]
    show ?thesis
    proof (cases "needsCursorReset state (rspEpoch resp) ?m")
      case True
      obtain r3 sy3 where p: "put_peer_state (beReset env) sy2 peer \<lparr> psVersion = 0, psEpoch = rspEpoch resp \<rparr> = (r3, sy3)"
        by fastforce
      show ?thesis using run True p put_peer_state_cases(4) [OF p] s2 v
        by (cases r3) (simp_all add: syncBatch_def Let_def is_ok_def)
    next
      case False
      obtain r3 sy3 where p: "adoptEpoch (beEpoch env) sy2 peer state (rspEpoch resp) = (r3, sy3)" by fastforce
      have s3: "peer_version (syStore sy3) peer = psVersion state" using adoptEpoch_cases(1) [OF p] s2 by simp
      show ?thesis
      proof (cases r3)
        case (Inl x)
        then have "sy' = sy3" using run False p by (simp add: syncBatch_def Let_def)
        then show ?thesis using s3 v by simp
      next
        case (Inr u)
        then have "takePage sha256_hex env sy3 peer state resp = (r, sy')"
          using run False p by (simp add: syncBatch_def Let_def)
        then show ?thesis using takePage_cases s3 assms(2) v reply by metis
      qed
    qed
  qed
qed

lemma syncBatch_reachable:
  assumes "syncBatch sha256_hex env sy peer = (r, sy')" "store_reachable nfc_fold (syStore sy)"
  shows "store_reachable nfc_fold (syStore sy')"
proof -
  obtain rr sy1 where d: "doRequest sy (beReply env) = (rr, sy1)" by fastforce
  have s1: "syStore sy1 = syStore sy" using doRequest_same [OF d] by simp
  have put: "store_reachable nfc_fold (syStore b)" if "put_peer_state e (withStat sy1 peer f) peer ps = (x, b)" for e f ps x b
    using put_peer_state_cases(5) [OF that] s1 assms(2) by simp
  have adopt: "store_reachable nfc_fold (syStore b)" if "adoptEpoch e (withStat sy1 peer f) peer st ep = (x, b)" for e f st ep x b
    using adoptEpoch_cases(2) [OF that] s1 assms(2) by simp
  have take_: "store_reachable nfc_fold (syStore c)"
    if "adoptEpoch e (withStat sy1 peer f) peer st ep = (x, b)" "takePage sha256_hex env b peer st resp = (y, c)"
    for e f st ep x b y c resp
    using takePage_reachable [OF that(2) adopt [OF that(1)]] .
  show ?thesis using assms d s1
    unfolding syncBatch_def Let_def
    by (auto split: sum.splits if_splits prod.splits intro: put adopt take_)
qed

subsection \<open>The manifest comparison\<close>

lemma names_follow_iff: "names_follow a cs \<longleftrightarrow> sorted_wrt (<) (a # map Name cs)"
proof (induction cs arbitrary: a)
  case (Cons c cs)
  then show ?case by (auto simp: not_le)
qed simp

lemma reconcileStep_next:
  assumes "reconcileStep sha256_hex env sy peer after pages = Inr (after', sy')"
  shows "\<exists>resp page. peReply env = Inr resp \<and> rspValue resp = Some page \<and> page \<noteq> [] \<and> names_follow after page \<and>
      after' = Name (last page) \<and> (\<forall>c \<in> set page. covered sha256_hex sy' peer c)"
    "same_index sy sy'" "\<not> (syPageBudget sy > 0 \<and> pages \<ge> syPageBudget sy)"
    "holds_at_least (repair_queue (db (syStore sy))) p m \<Longrightarrow> holds_at_least (repair_queue (db (syStore sy'))) p m"
proof -
  obtain resp sy1 page n where r: "doRequest sy (peReply env) = (Inr resp, sy1)" "rspValue resp = Some page" "page \<noteq> []"
      "names_follow after page" "after' = Name (last page)" "\<not> (syPageBudget sy > 0 \<and> pages \<ge> syPageBudget sy)"
      "recordPage sha256_hex (peFiles env) (peQueue env) (peNow env) sy1 peer page ''reconcile'' = (Inr n, sy')"
    using assms
    by (auto simp: reconcileStep_def decodePage_def reconcilePage_def split: if_splits sum.splits prod.splits option.splits)
  note same = doRequest_same [OF r(1)] and rec = recordPage_same [OF r(7)]
  show "\<exists>resp page. peReply env = Inr resp \<and> rspValue resp = Some page \<and> page \<noteq> [] \<and> names_follow after page \<and>
      after' = Name (last page) \<and> (\<forall>c \<in> set page. covered sha256_hex sy' peer c)"
    using r(2-5) doRequest_reply [OF r(1)] recordPage_covers [OF r(7)] by blast
  show "same_index sy sy'" using same rec(1) same_index_trans by blast
  show "\<not> (syPageBudget sy > 0 \<and> pages \<ge> syPageBudget sy)" by (rule r(6))
  show "holds_at_least (repair_queue (db (syStore sy'))) p m" if "holds_at_least (repair_queue (db (syStore sy))) p m"
    using rec(4) [of p m] same that by simp
qed

lemma reconcile_loop_budget:
  assumes "0 < syPageBudget sy" "int i \<le> syPageBudget sy" "syPageBudget sy < int i + int fuel"
  shows "reconcile_loop sha256_hex envs peer fuel i sy after \<noteq> None"
  using assms
proof (induction fuel arbitrary: i sy after)
  case (Suc fuel)
  show ?case
  proof (cases "reconcileStep sha256_hex (envs i after) sy peer after (int i)")
    case (Inr next')
    obtain after' sy' where n: "next' = (after', sy')" by fastforce
    note step = reconcileStep_next(2,3) [OF Inr [unfolded n]]
    have "int i < syPageBudget sy" "syPageBudget sy' = syPageBudget sy"
      using step Suc.prems by (auto simp: same_index_def)
    then show ?thesis using Suc.IH [of sy' "Suc i" after'] Suc.prems Inr n by simp
  qed simp
qed simp

text \<open>A peer that answers a manifest request from the store \<open>P\<close>.\<close>

definition serves_manifest :: "Store \<Rightarrow> Syncer \<Rightarrow> page_env \<Rightarrow> string \<Rightarrow> bool" where
  "serves_manifest P sy env after \<longleftrightarrow>
     \<not> peCancelled env \<and> peFiles env = None \<and> peQueue env = None \<and> peSave env = None \<and>
     (case peReply env of
        Inl _ \<Rightarrow> False
      | Inr resp \<Rightarrow> rspStatus resp = 200 \<and> rspProtocol resp = ProtocolVersion \<and>
          (rspNodeID resp = [] \<or> rspNodeID resp \<noteq> syNodeID sy) \<and> rspSize resp \<le> page_budget manifestPageSize \<and>
          rspValue resp = Some (map json_meta (rows_or_nil (ListManifest None P after manifestPageSize))))"

lemma doRequest_served:
  assumes "serves_manifest P sy env after"
  obtains resp sy1 where "doRequest sy (peReply env) = (Inr resp, sy1)" "rspStatus resp = 200"
    "rspSize resp \<le> page_budget manifestPageSize"
    "rspValue resp = Some (map json_meta (rows_or_nil (ListManifest None P after manifestPageSize)))"
proof -
  obtain resp where r: "peReply env = Inr resp" "rspStatus resp = 200" "rspProtocol resp = ProtocolVersion"
      "rspNodeID resp = [] \<or> rspNodeID resp \<noteq> syNodeID sy" "rspSize resp \<le> page_budget manifestPageSize"
      "rspValue resp = Some (map json_meta (rows_or_nil (ListManifest None P after manifestPageSize)))"
    using assms by (auto simp: serves_manifest_def split: sum.splits)
  then have "\<exists>sy1. doRequest sy (peReply env) = (Inr resp, sy1)"
    by (auto simp: doRequest_def checkPeerIdentity_def Let_def)
  then show thesis using that r by blast
qed

lemma eqFull_unlimited:
  "eqFull st = None \<Longrightarrow> eqFull (enqueue_loop peer reason now 0 queued batch st) = None"
  by (induction batch arbitrary: st) (simp_all add: Let_def)

lemma newerThanLocal_ok: "\<exists>wanted. newerThanLocal None sy entries = Inr wanted"
  by (cases entries) (simp_all add: newerThanLocal_def GetFilesBatch_def db_read_def)

lemma recordPage_unlimited:
  assumes "repairLimit (syStore sy) = 0"
  shows "\<exists>n sy'. recordPage sha256_hex None None now sy peer page reason = (Inr n, sy')"
proof -
  let ?sy1 = "sy\<lparr>sySkipped := sySkipped sy + int (length (filter (\<lambda>c. \<not> usable sha256_hex sy c) page))\<rparr>"
  obtain wanted where w: "newerThanLocal None ?sy1 (filter (usable sha256_hex sy) page) = Inr wanted"
    using newerThanLocal_ok by blast
  have "eqFull (enqueue_start (syStore sy)) = None" by (simp add: enqueue_start_def)
  note full = eqFull_unlimited [OF this, of peer reason now "queuedFor (syStore sy) peer" "map change_of wanted"]
  have "snd (fst (EnqueueChanges None now (syStore sy) peer wanted reason)) = None"
    unfolding EnqueueChanges_def enqueue_def Let_def assms by (simp add: full)
  then obtain n s' where "EnqueueChanges None now (syStore sy) peer wanted reason = ((n, None), s')"
    by (metis prod.collapse)
  then show ?thesis using w by (simp add: recordPage_def)
qed

lemma reconcileStep_served:
  assumes "serves_manifest P sy env after" "repairLimit (syStore sy) = 0" "syPageBudget sy = 0"
    "keyed Name (files (db P))"
  defines "page \<equiv> rows_or_nil (ListManifest None P after manifestPageSize)"
  shows "page = [] \<Longrightarrow> \<exists>sy'. reconcileStep sha256_hex env sy peer after pages = Inl (Inr True, sy') \<and>
      same_index sy sy' \<and> repair_queue (db (syStore sy')) = repair_queue (db (syStore sy))"
    "page \<noteq> [] \<Longrightarrow> \<exists>sy'. reconcileStep sha256_hex env sy peer after pages = Inr (Name (last page), sy')"
proof -
  obtain resp sy1 where r: "doRequest sy (peReply env) = (Inr resp, sy1)" "rspStatus resp = 200"
      "rspSize resp \<le> page_budget manifestPageSize" "rspValue resp = Some (map json_meta page)"
    using doRequest_served [OF assms(1)] unfolding page_def by blast
  note same = doRequest_same [OF r(1)]
  have e: "\<not> peCancelled env" "peFiles env = None" "peQueue env = None" "peSave env = None"
    using assms(1) by (simp_all add: serves_manifest_def)
  have len: "\<not> int (length page) > manifestPageSize"
    using manifest.page_rows [of P manifestPageSize after] assms(4) by (simp add: page_def)
  note run = r e assms(3) same len
  show "\<exists>sy'. reconcileStep sha256_hex env sy peer after pages = Inl (Inr True, sy') \<and>
      same_index sy sy' \<and> repair_queue (db (syStore sy')) = repair_queue (db (syStore sy))" if "page = []"
    using run that
    by (simp add: reconcileStep_def decodePage_def position_saved_def save_position_def SetNodeValue_def db_write_def
        same_index_def)
  show "\<exists>sy'. reconcileStep sha256_hex env sy peer after pages = Inr (Name (last page), sy')" if ne: "page \<noteq> []"
  proof -
    have "names_follow after (map json_meta page)"
      using manifest.page_strict [of P manifestPageSize after] assms(4)
      unfolding names_follow_iff by (simp add: page_def comp_def)
    moreover obtain n sy2 where "recordPage sha256_hex None None (peNow env) sy1 peer (map json_meta page) ''reconcile'' = (Inr n, sy2)"
      using recordPage_unlimited assms(2) same by metis
    ultimately show ?thesis
      using run ne by (simp add: reconcileStep_def decodePage_def reconcilePage_def last_map)
  qed
qed

lemma serves_manifest_same: "same_index sy sy' \<Longrightarrow> serves_manifest P sy env a = serves_manifest P sy' env a"
  by (simp add: serves_manifest_def same_index_def split: sum.split)

lemma reconcile_loop_served:
  assumes "\<And>i a. serves_manifest P sy (envs i a) a" "repairLimit (syStore sy) = 0" "syPageBudget sy = 0"
    "keyed Name (files (db P))" "length (filter (\<lambda>f. after < Name f) (sort_key Name (files (db P)))) < fuel"
  shows "\<exists>sy'. reconcile_loop sha256_hex envs peer fuel i sy after = Some (Inr True, sy') \<and> same_index sy sy' \<and>
    (\<forall>p m. holds_at_least (repair_queue (db (syStore sy))) p m \<longrightarrow> holds_at_least (repair_queue (db (syStore sy'))) p m) \<and>
    (\<forall>f \<in> set (files (db P)). after < Name f \<longrightarrow> covered sha256_hex sy' peer (json_meta f))"
  using assms
proof (induction fuel arbitrary: sy after i)
  case (Suc fuel)
  let ?page = "rows_or_nil (ListManifest None P after manifestPageSize)"
  have rows: "?page = take 1000 (filter (\<lambda>f. after < Name f) (sort_key Name (files (db P))))"
    using manifest.page_rows [of P manifestPageSize after] Suc.prems(4) by simp
  note served = reconcileStep_served [OF Suc.prems(1) [of i after] Suc.prems(2-4), of sha256_hex peer "int i"]
  show ?case
  proof (cases "?page = []")
    case True
    then have "filter (\<lambda>f. after < Name f) (sort_key Name (files (db P))) = []" using rows by simp
    then have none: "\<forall>f \<in> set (files (db P)). \<not> after < Name f" by (simp add: filter_empty_conv)
    obtain sy' where s: "reconcileStep sha256_hex (envs i after) sy peer after (int i) = Inl (Inr True, sy')"
        "same_index sy sy'" "repair_queue (db (syStore sy')) = repair_queue (db (syStore sy))"
      using served(1) True by blast
    then show ?thesis using none by (intro exI [of _ sy']) simp
  next
    case False
    obtain sy1 where s: "reconcileStep sha256_hex (envs i after) sy peer after (int i) = Inr (Name (last ?page), sy1)"
      using served(2) False by blast
    note step = reconcileStep_next [OF s]
    have page_cov: "\<forall>c \<in> set ?page. covered sha256_hex sy1 peer (json_meta c)"
      using step(1) Suc.prems(1) [of i after] by (auto simp: serves_manifest_def)
    note nx = manifest.page_next [of P manifestPageSize after, OF Suc.prems(4) _ False, simplified]
    have "0 < length (filter (\<lambda>f. after < Name f) (sort_key Name (files (db P))))" using rows False by simp
    then have "length (filter (\<lambda>f. Name (last ?page) < Name f) (sort_key Name (files (db P)))) < fuel"
      using Suc.prems(5) unfolding nx(1) length_drop by linarith
    moreover have "serves_manifest P sy1 (envs j a) a" for j a
      using Suc.prems(1) serves_manifest_same [OF step(2)] by simp
    moreover have "repairLimit (syStore sy1) = 0" "syPageBudget sy1 = 0"
      using step(2) Suc.prems(2,3) by (simp_all add: same_index_def)
    ultimately obtain sy' where r: "reconcile_loop sha256_hex envs peer fuel (Suc i) sy1 (Name (last ?page)) = Some (Inr True, sy')"
        "same_index sy1 sy'" "\<forall>p m. holds_at_least (repair_queue (db (syStore sy1))) p m \<longrightarrow> holds_at_least (repair_queue (db (syStore sy'))) p m"
        "\<forall>f \<in> set (files (db P)). Name (last ?page) < Name f \<longrightarrow> covered sha256_hex sy' peer (json_meta f)"
      using Suc.IH [of sy1 "Name (last ?page)" "Suc i"] Suc.prems(4) by blast
    have "covered sha256_hex sy' peer (json_meta f)" if f: "f \<in> set (files (db P))" "after < Name f" for f
      using manifest.page_or_beyond [of P manifestPageSize after, OF Suc.prems(4) _ False f, simplified]
        page_cov covered_mono [OF r(2)] r(3,4) f(1) by blast
    then show ?thesis using r s step(2,4) same_index_trans by (intro exI [of _ sy']) auto
  qed
qed simp

end
