(* ===== verification/Dav_Locks.thy ===== *)
theory Dav_Locks
  imports Birak_Prelude
begin

text \<open>
  The lock table of the WebDAV gateway (gateway/webdav/locks.go): exclusive write locks on a path or
  on its subtree, the If and Timeout headers, and the table as a state machine. Times and durations
  are nanoseconds; a fresh token is an argument, as it is random bytes in the source.
\<close>

section \<open>Definitions\<close>

record lock =
  lkToken :: string
  lkPath :: string
  lkDepth :: string
  lkExpires :: int

type_synonym lockManager = "lock list"

abbreviation (input) defaultLockTimeout :: int where
  "defaultLockTimeout \<equiv> 3600000000000"

abbreviation (input) maxLockTimeout :: int where
  "maxLockTimeout \<equiv> 86400000000000"

abbreviation (input) maxLocks :: nat where
  "maxLocks \<equiv> 10000"

definition covers :: "lock \<Rightarrow> string \<Rightarrow> bool" where
  "covers lk path =
     (if lkPath lk = path then True
      else if lkDepth lk = ''infinity'' then
        (if lkPath lk = [] then True else HasPrefix path (lkPath lk @ ''/''))
      else False)"

definition reap :: "lockManager \<Rightarrow> int \<Rightarrow> lockManager" where
  "reap m now = filter (\<lambda>lk. \<not> now > lkExpires lk) m"

definition isDescendant :: "string \<Rightarrow> string \<Rightarrow> bool" where
  "isDescendant p ancestor = (if ancestor = [] then p \<noteq> [] else HasPrefix p (ancestor @ ''/''))"

definition create_lock ::
    "string \<Rightarrow> int \<Rightarrow> lockManager \<Rightarrow> string \<Rightarrow> string \<Rightarrow> int \<Rightarrow> lock option \<times> lockManager" where
  "create_lock token now m path depth timeout =
     (let m1 = reap m now
      in if length m1 \<ge> maxLocks then (None, m1)
         else if list_ex (\<lambda>lk. covers lk path \<or> (depth = ''infinity'' \<and> isDescendant (lkPath lk) path)) m1 then (None, m1)
         else
           let lk = \<lparr> lkToken = token, lkPath = path, lkDepth = depth, lkExpires = now + timeout \<rparr>
           in (Some lk, upsert lkToken lk m1))"

definition refresh_lock :: "int \<Rightarrow> lockManager \<Rightarrow> string \<Rightarrow> int \<Rightarrow> lock option \<times> lockManager" where
  "refresh_lock now m token timeout =
     (let m1 = reap m now
      in case row_of lkToken m1 token of
           None \<Rightarrow> (None, m1)
         | Some lk \<Rightarrow> let lk1 = lk\<lparr>lkExpires := now + timeout\<rparr> in (Some lk1, upsert lkToken lk1 m1))"

definition unlock :: "lockManager \<Rightarrow> string \<Rightarrow> bool \<times> lockManager" where
  "unlock m token =
     (case row_of lkToken m token of None \<Rightarrow> (False, m) | Some _ \<Rightarrow> (True, delete_key lkToken token m))"

text \<open>The loop takes what stands between the next \<open><\<close> and the next \<open>>\<close> and goes on behind it.\<close>

function parseIfTokens :: "string \<Rightarrow> string list" where
  "parseIfTokens h =
     (case Cut h CHR ''<'' of
        None \<Rightarrow> []
      | Some (_, rest) \<Rightarrow>
          (case Cut rest CHR ''>'' of
             None \<Rightarrow> []
           | Some (token, rest') \<Rightarrow> token # parseIfTokens rest'))"
  by pat_completeness auto

lemma Cut_shorter: "Cut s c = Some (a, b) \<Longrightarrow> length b < length s"
proof -
  assume a: "Cut s c = Some (a, b)"
  then have "c \<in> set s" "b = tl (dropWhile (\<lambda>x. x \<noteq> c) s)" by (auto simp: Cut_def split: if_splits)
  moreover have "length (dropWhile (\<lambda>x. x \<noteq> c) s) \<le> length s" by (rule length_dropWhile_le)
  moreover have "s \<noteq> []" using \<open>c \<in> set s\<close> by auto
  ultimately show ?thesis by (cases s) (auto simp: le_less_Suc_eq)
qed

termination parseIfTokens
  by (relation "measure length") (auto dest!: Cut_shorter)

declare parseIfTokens.simps [simp del]

definition canModify :: "int \<Rightarrow> lockManager \<Rightarrow> string \<Rightarrow> string \<Rightarrow> bool \<times> lockManager" where
  "canModify now m path ifHeader =
     (let m1 = reap m now; tokens = parseIfTokens ifHeader
      in (\<not> list_ex (\<lambda>lk. covers lk path \<and> lkToken lk \<notin> set tokens) m1, m1))"

text \<open>\<open>time.Duration(n) * time.Second\<close> wraps around at 64 bits.\<close>

fun timeout_parts :: "string list \<Rightarrow> int" where
  "timeout_parts [] = defaultLockTimeout"
| "timeout_parts (p # ps) =
     (let part = TrimSpace p
      in if HasPrefix part ''Second-'' then
           (case ParseInt (TrimPrefix part ''Second-'') of
              Some n \<Rightarrow>
                if n > 0 then
                  (let d = wrap64 (n * 1000000000) in if d > maxLockTimeout then maxLockTimeout else d)
                else timeout_parts ps
            | None \<Rightarrow> timeout_parts ps)
         else timeout_parts ps)"

definition parseTimeout :: "string \<Rightarrow> int" where
  "parseTimeout h = timeout_parts (Split h CHR '','')"

subsection \<open>The table over time\<close>

definition locks_ok :: "lockManager \<Rightarrow> bool" where
  "locks_ok m \<longleftrightarrow> keyed lkToken m \<and> length m \<le> maxLocks \<and>
     (\<forall>a \<in> set m. \<forall>b \<in> set m. a \<noteq> b \<longrightarrow> \<not> covers a (lkPath b))"

inductive lock_step :: "lockManager \<Rightarrow> lockManager \<Rightarrow> bool" where
  create: "lock_step m (snd (create_lock token now m path depth timeout))"
| refresh: "lock_step m (snd (refresh_lock now m token timeout))"
| release: "lock_step m (snd (unlock m token))"
| check: "lock_step m (snd (canModify now m path ifHeader))"

inductive lock_reachable :: "lockManager \<Rightarrow> bool" where
  start: "lock_reachable []"
| step: "lock_reachable m \<Longrightarrow> lock_step m m' \<Longrightarrow> lock_reachable m'"

inductive_cases lock_stepE: "lock_step m m'"

section \<open>Lemmas\<close>

lemma locks_ok_subset:
  assumes "locks_ok m" "set m' \<subseteq> set m" "keyed lkToken m'" "length m' \<le> length m"
  shows "locks_ok m'"
  using assms unfolding locks_ok_def by (meson le_trans subsetD)

lemma locks_ok_reap: "locks_ok m \<Longrightarrow> locks_ok (reap m now)"
  by (rule locks_ok_subset) (auto simp: reap_def locks_ok_def keyed_filter)

text \<open>A new lock overlaps an old one exactly in the two ways \<open>create\<close> tests.\<close>

lemma covers_new:
  assumes "\<not> covers old path" "\<not> (depth = ''infinity'' \<and> isDescendant (lkPath old) path)"
  shows "\<not> covers \<lparr> lkToken = t, lkPath = path, lkDepth = depth, lkExpires = x \<rparr> (lkPath old)"
proof -
  have "lkPath old \<noteq> path" using assms(1) by (auto simp: covers_def)
  then show ?thesis using assms(2) by (auto simp: covers_def isDescendant_def)
qed

lemma locks_ok_create:
  assumes "locks_ok m"
  shows "locks_ok (snd (create_lock token now m path depth timeout))"
proof -
  let ?m = "reap m now" and ?lk = "\<lparr> lkToken = token, lkPath = path, lkDepth = depth, lkExpires = now + timeout \<rparr>"
  have m: "locks_ok ?m" using locks_ok_reap [OF assms] .
  show ?thesis
  proof (cases "length ?m \<ge> maxLocks \<or>
      list_ex (\<lambda>lk. covers lk path \<or> (depth = ''infinity'' \<and> isDescendant (lkPath lk) path)) ?m")
    case True
    then show ?thesis using m by (auto simp: create_lock_def Let_def)
  next
    case False
    then have free: "\<not> covers old path" "\<not> covers ?lk (lkPath old)" if "old \<in> set ?m" for old
      using that covers_new by (auto simp: list_ex_iff)
    have k: "keyed lkToken ?m" using m by (simp add: locks_ok_def)
    have "length (upsert lkToken ?lk ?m) \<le> maxLocks"
      using False length_upsert [of lkToken ?lk ?m] by (auto split: option.splits)
    moreover have "\<not> covers a (lkPath b)" if "a \<in> set ?m" "b \<in> set ?m" "a \<noteq> b" for a b
      using m that unfolding locks_ok_def by blast
    ultimately have "locks_ok (upsert lkToken ?lk ?m)"
      using free keyed_upsert [OF k] unfolding locks_ok_def set_upsert [OF k] by auto
    then show ?thesis using False by (simp add: create_lock_def Let_def)
  qed
qed

lemma locks_ok_replace:
  assumes "locks_ok m" "row_of lkToken m (lkToken lk') = Some lk" "lkPath lk' = lkPath lk" "covers lk' = covers lk"
  shows "locks_ok (upsert lkToken lk' m)"
proof -
  have k: "keyed lkToken m" and len: "length m \<le> maxLocks"
    and apart: "\<And>a b. a \<in> set m \<Longrightarrow> b \<in> set m \<Longrightarrow> a \<noteq> b \<Longrightarrow> \<not> covers a (lkPath b)"
    using assms(1) unfolding locks_ok_def by blast+
  have lk: "lk \<in> set m" "lkToken lk = lkToken lk'" using row_of_SomeD [OF assms(2)] by blast+
  have others: "x \<in> set m \<and> x \<noteq> lk" if "x \<in> set (upsert lkToken lk' m)" "x \<noteq> lk'" for x
    using that lk(2) unfolding set_upsert [OF k] by blast
  have "\<not> covers a (lkPath b)" if "a \<in> set (upsert lkToken lk' m)" "b \<in> set (upsert lkToken lk' m)" "a \<noteq> b" for a b
    using that others [of a] others [of b] apart lk(1) assms(3,4) by metis
  moreover have "length (upsert lkToken lk' m) = length m" 
    using lk by (simp add: length_upsert rev_image_eqI)
  ultimately show ?thesis unfolding locks_ok_def using keyed_upsert [OF k] len by metis
qed

lemma locks_ok_refresh:
  assumes "locks_ok m"
  shows "locks_ok (snd (refresh_lock now m token timeout))"
proof (cases "row_of lkToken (reap m now) token")
  case None
  then show ?thesis using locks_ok_reap [OF assms] by (simp add: refresh_lock_def Let_def)
next
  case (Some lk)
  let ?lk = "lk\<lparr>lkExpires := now + timeout\<rparr>"
  have "lkToken lk = token" using row_of_SomeD [OF Some] by blast
  then have "locks_ok (upsert lkToken ?lk (reap m now))"
    using Some locks_ok_replace [OF locks_ok_reap [OF assms], of now ?lk lk] by (simp add: fun_eq_iff covers_def)
  then show ?thesis using Some by (simp add: refresh_lock_def Let_def)
qed

lemma locks_ok_unlock:
  assumes "locks_ok m"
  shows "locks_ok (snd (unlock m token))"
proof -
  have "keyed lkToken m" using assms unfolding locks_ok_def by blast
  then have "locks_ok (delete_key lkToken token m)"
    by (intro locks_ok_subset [OF assms]) (simp_all add: delete_key_def keyed_filter)
  then show ?thesis using assms by (simp add: unlock_def split: option.split)
qed

lemma snd_canModify: "snd (canModify now m path ifHeader) = reap m now"
  by (simp add: canModify_def Let_def)

lemma lock_step_ok: "lock_step m m' \<Longrightarrow> locks_ok m \<Longrightarrow> locks_ok m'"
  by (erule lock_stepE)
    (simp_all only: locks_ok_create locks_ok_refresh locks_ok_unlock locks_ok_reap snd_canModify)

lemma lock_reachable_ok: "lock_reachable m \<Longrightarrow> locks_ok m"
  by (induction rule: lock_reachable.induct) (auto simp: locks_ok_def keyed_def dest: lock_step_ok)

section \<open>Properties\<close>

text \<open>C20: Write locks are exclusive. In every lock table reachable from the empty one by any requests at
  any times, no lock covers the path of another one, tokens are unique, and there are at most 10000
  locks.\<close>

theorem locks_exclusive: "lock_reachable m \<Longrightarrow> locks_ok m"
  by (rule lock_reachable_ok)

theorem locks_exclusive_witness:
  "locks_ok (snd (create_lock ''t2'' 5 (snd (create_lock ''t1'' 0 [] ''a'' ''infinity'' 100)) ''b'' ''0'' 100))"
  by (intro locks_exclusive lock_reachable.step [OF _ lock_step.create] lock_reachable.start)

text \<open>C21: A lock keeps others out until it ends. After a successful \<open>create\<close>, as long as the lock has
  not expired, a request on a path it covers is refused unless its If header names the lock's token, and
  no second lock is granted on such a path.\<close>

theorem create_lock_excludes:
  assumes "create_lock token now m path depth timeout = (Some lk, m')" "now' \<le> now + timeout" "covers lk p"
  shows "(token \<notin> set (parseIfTokens ifHeader) \<longrightarrow> \<not> fst (canModify now' m' p ifHeader)) \<and>
    fst (create_lock token' now' m' p depth' timeout') = None"
proof -
  have lk: "lk = \<lparr> lkToken = token, lkPath = path, lkDepth = depth, lkExpires = now + timeout \<rparr>"
      "m' = upsert lkToken lk (reap m now)"
    using assms(1) by (auto simp: create_lock_def Let_def split: if_splits)
  have "lk \<in> set m'" unfolding lk(2) by (rule in_set_upsert)
  then have "lk \<in> set (reap m' now')" using lk(1) assms(2) by (simp add: reap_def)
  then show ?thesis using lk(1) assms(3)
    by (auto simp: canModify_def create_lock_def Let_def list_ex_iff)
qed

theorem create_lock_excludes_witness:
  "\<not> fst (canModify 50 (snd (create_lock ''t1'' 0 [] ''a'' ''infinity'' 100)) ''a/x'' ''(<other>)'')"
proof -
  let ?out = "create_lock ''t1'' 0 [] ''a'' ''infinity'' 100"
  have "?out = (Some \<lparr> lkToken = ''t1'', lkPath = ''a'', lkDepth = ''infinity'', lkExpires = 100 \<rparr>, snd ?out)"
    "covers \<lparr> lkToken = ''t1'', lkPath = ''a'', lkDepth = ''infinity'', lkExpires = 100 \<rparr> ''a/x''" by code_simp+
  moreover have "parseIfTokens ''(<other>)'' = [''other'']"
    by (subst parseIfTokens.simps, simp add: Cut_def, subst parseIfTokens.simps, simp add: Cut_def)
  ultimately show ?thesis
    using create_lock_excludes [where p = "''a/x''" and now' = 50 and ifHeader = "''(<other>)''" and token = "''t1''" and now = 0 and m = "[]"
        and path = "''a''" and depth = "''infinity''" and timeout = 100] by fastforce
qed


end
