(* ===== verification/Sftp_Wire.thy ===== *)
theory Sftp_Wire
  imports Birak_Prelude "HOL-Library.Word"
begin

text \<open>
  The SFTP wire format (gateway/sftp/protocol.go): packets, integers in network byte order, strings and
  file attributes, on bytes and machine words. A codec's contract is the locale \<open>wire_codec\<close>; the
  integer and string formats interpret it.
\<close>

section \<open>Definitions\<close>

type_synonym byte = "8 word"

datatype wire_error = WireEOF | WireUnexpectedEOF | WireLength nat | WireShort string

abbreviation (input) maxPacketSize :: nat where
  "maxPacketSize \<equiv> 524288"

definition BigEndian_Uint32 :: "byte list \<Rightarrow> 32 word" where
  "BigEndian_Uint32 b =
     or (push_bit 24 (ucast (b ! 0))) (or (push_bit 16 (ucast (b ! 1))) (or (push_bit 8 (ucast (b ! 2))) (ucast (b ! 3))))"

definition BigEndian_Uint64 :: "byte list \<Rightarrow> 64 word" where
  "BigEndian_Uint64 b =
     or (push_bit 56 (ucast (b ! 0))) (or (push_bit 48 (ucast (b ! 1))) (or (push_bit 40 (ucast (b ! 2)))
     (or (push_bit 32 (ucast (b ! 3))) (or (push_bit 24 (ucast (b ! 4))) (or (push_bit 16 (ucast (b ! 5)))
     (or (push_bit 8 (ucast (b ! 6))) (ucast (b ! 7))))))))"

definition marshalUint32 :: "byte list \<Rightarrow> 32 word \<Rightarrow> byte list" where
  "marshalUint32 b v = b @ [ucast (drop_bit 24 v), ucast (drop_bit 16 v), ucast (drop_bit 8 v), ucast v]"

definition marshalUint64 :: "byte list \<Rightarrow> 64 word \<Rightarrow> byte list" where
  "marshalUint64 b v = b @
     [ucast (drop_bit 56 v), ucast (drop_bit 48 v), ucast (drop_bit 40 v), ucast (drop_bit 32 v),
      ucast (drop_bit 24 v), ucast (drop_bit 16 v), ucast (drop_bit 8 v), ucast v]"

definition marshalString :: "byte list \<Rightarrow> byte list \<Rightarrow> byte list" where
  "marshalString b s = marshalUint32 b (of_nat (length s)) @ s"

definition marshalBytes :: "byte list \<Rightarrow> byte list \<Rightarrow> byte list" where
  "marshalBytes b data = marshalUint32 b (of_nat (length data)) @ data"

definition unmarshalUint32 :: "byte list \<Rightarrow> (wire_error, 32 word \<times> byte list) result" where
  "unmarshalUint32 b =
     (if length b < 4 then Inl (WireShort ''uint32'') else Inr (BigEndian_Uint32 (take 4 b), drop 4 b))"

definition unmarshalUint64 :: "byte list \<Rightarrow> (wire_error, 64 word \<times> byte list) result" where
  "unmarshalUint64 b =
     (if length b < 8 then Inl (WireShort ''uint64'') else Inr (BigEndian_Uint64 (take 8 b), drop 8 b))"

definition unmarshalString :: "byte list \<Rightarrow> (wire_error, byte list \<times> byte list) result" where
  "unmarshalString b =
     result_bind (unmarshalUint32 b) (\<lambda>(len, rest).
       if (of_nat (length rest) :: 32 word) < len then Inl (WireShort ''string'')
       else Inr (take (unat len) rest, drop (unat len) rest))"

text \<open>\<open>io.ReadFull\<close> of \<open>n\<close> bytes from a stream that ends after \<open>s\<close>.\<close>

definition ReadFull :: "nat \<Rightarrow> byte list \<Rightarrow> (wire_error, byte list \<times> byte list) result" where
  "ReadFull n s =
     (if length s \<ge> n then Inr (take n s, drop n s)
      else if s = [] then Inl WireEOF else Inl WireUnexpectedEOF)"

definition readPacket :: "byte list \<Rightarrow> (wire_error, byte \<times> byte list \<times> byte list) result" where
  "readPacket r =
     result_bind (ReadFull 4 r) (\<lambda>(lenBuf, r1).
       let len = BigEndian_Uint32 lenBuf
       in if len = 0 \<or> len > of_nat maxPacketSize then Inl (WireLength (unat len))
          else result_bind (ReadFull (unat len) r1) (\<lambda>(payload, r2).
            Inr (hd payload, tl payload, r2)))"

definition writePacket :: "byte \<Rightarrow> byte list \<Rightarrow> byte list" where
  "writePacket pktType data = marshalUint32 [] (of_nat (1 + length data)) @ [pktType] @ data"

abbreviation (input) sshFileXferAttrSize :: "32 word" where
  "sshFileXferAttrSize \<equiv> 1"

abbreviation (input) sshFileXferAttrUIDGID :: "32 word" where
  "sshFileXferAttrUIDGID \<equiv> 2"

abbreviation (input) sshFileXferAttrPermissions :: "32 word" where
  "sshFileXferAttrPermissions \<equiv> 4"

abbreviation (input) sshFileXferAttrACModTime :: "32 word" where
  "sshFileXferAttrACModTime \<equiv> 8"

definition sftpTime :: "int \<Rightarrow> 32 word" where
  "sftpTime sec = (if sec < 0 then 0 else if sec > 4294967295 then 4294967295 else word_of_int sec)"

text \<open>What the source reads of an \<open>os.FileInfo\<close>: the mode is an \<open>os.FileMode\<close>, whose bit 31 marks a
  directory and whose low nine bits are the permissions.\<close>

record fileInfo =
  fiSize :: int
  fiMode :: "32 word"
  fiModTime :: int

definition fileModeToSFTP :: "32 word \<Rightarrow> 32 word" where
  "fileModeToSFTP mode = or (if bit mode 31 then 0x4000 else 0x8000) (and mode 0x1FF)"

definition marshalAttrs :: "byte list \<Rightarrow> fileInfo option \<Rightarrow> byte list" where
  "marshalAttrs b fi =
     (case fi of
        None \<Rightarrow> marshalUint32 b 0
      | Some f \<Rightarrow>
          let flags = or sshFileXferAttrSize (or sshFileXferAttrPermissions sshFileXferAttrACModTime);
              b1 = marshalUint32 b flags;
              b2 = marshalUint64 b1 (word_of_int (fiSize f));
              b3 = marshalUint32 b2 (fileModeToSFTP (fiMode f));
              mtime = sftpTime (fiModTime f);
              b4 = marshalUint32 b3 mtime
          in marshalUint32 b4 mtime)"

record fileAttrs =
  hasSize :: bool
  attrSize :: "64 word"
  hasPerm :: bool
  attrPerm :: "32 word"
  hasTimes :: bool
  attrAtime :: "32 word"
  attrMtime :: "32 word"

definition no_attrs :: fileAttrs where
  "no_attrs = \<lparr> hasSize = False, attrSize = 0, hasPerm = False, attrPerm = 0, hasTimes = False,
     attrAtime = 0, attrMtime = 0 \<rparr>"

text \<open>One optional field of the attribute block: \<open>step\<close> reads it when its flag is set.\<close>

definition attr_field ::
    "32 word \<Rightarrow> 32 word \<Rightarrow> ('a \<Rightarrow> byte list \<Rightarrow> (wire_error, 'a \<times> byte list) result) \<Rightarrow> 'a \<times> byte list
     \<Rightarrow> (wire_error, 'a \<times> byte list) result" where
  "attr_field flags flag step = (\<lambda>(a, rest). if and flags flag \<noteq> 0 then step a rest else Inr (a, rest))"

definition skip_bytes :: "nat \<Rightarrow> byte list \<Rightarrow> (wire_error, byte list) result" where
  "skip_bytes n rest = (if length rest < n then Inl (WireShort ''attrs'') else Inr (drop n rest))"

definition parseAttrs :: "byte list \<Rightarrow> (wire_error, fileAttrs \<times> byte list) result" where
  "parseAttrs b =
     result_bind (unmarshalUint32 b) (\<lambda>(flags, rest).
     result_bind (attr_field flags sshFileXferAttrSize (\<lambda>a r.
         result_bind (unmarshalUint64 r) (\<lambda>(v, r'). Inr (a\<lparr>attrSize := v, hasSize := True\<rparr>, r'))) (no_attrs, rest)) (\<lambda>s1.
     result_bind (attr_field flags sshFileXferAttrUIDGID (\<lambda>a r.
         result_bind (skip_bytes 8 r) (\<lambda>r'. Inr (a, r'))) s1) (\<lambda>s2.
     result_bind (attr_field flags sshFileXferAttrPermissions (\<lambda>a r.
         result_bind (unmarshalUint32 r) (\<lambda>(v, r'). Inr (a\<lparr>attrPerm := v, hasPerm := True\<rparr>, r'))) s2) (\<lambda>s3.
     attr_field flags sshFileXferAttrACModTime (\<lambda>a r.
         result_bind (unmarshalUint32 r) (\<lambda>(v, r').
         result_bind (unmarshalUint32 r') (\<lambda>(w, r'').
           Inr (a\<lparr>attrAtime := v, attrMtime := w, hasTimes := True\<rparr>, r'')))) s3))))"

definition skip_field :: "32 word \<Rightarrow> 32 word \<Rightarrow> nat \<Rightarrow> byte list \<Rightarrow> (wire_error, byte list) result" where
  "skip_field flags flag n rest = (if and flags flag \<noteq> 0 then skip_bytes n rest else Inr rest)"

definition unmarshalAttrs :: "byte list \<Rightarrow> (wire_error, byte list) result" where
  "unmarshalAttrs b =
     result_bind (unmarshalUint32 b) (\<lambda>(flags, rest).
     result_bind (skip_field flags sshFileXferAttrSize 8 rest) (\<lambda>r1.
     result_bind (skip_field flags sshFileXferAttrUIDGID 8 r1) (\<lambda>r2.
     result_bind (skip_field flags sshFileXferAttrPermissions 4 r2) (\<lambda>r3.
     skip_field flags sshFileXferAttrACModTime 8 r3))))"

definition perm_string :: "32 word \<Rightarrow> string" where
  "perm_string mode =
     map (\<lambda>(i, c). if bit (and mode 0x1FF) (8 - i) then c else CHR ''-'') (enumerate 0 ''rwxrwxrwx'')"

section \<open>The contract of a codec\<close>

locale wire_codec =
  fixes enc :: "byte list \<Rightarrow> 'a \<Rightarrow> byte list"
    and dec :: "byte list \<Rightarrow> (wire_error, 'a \<times> byte list) result"
    and fits :: "'a \<Rightarrow> bool"
  assumes enc_append: "enc b x = b @ enc [] x"
    and dec_enc: "fits x \<Longrightarrow> dec (enc [] x @ rest) = Inr (x, rest)"
begin

lemma decode: "fits x \<Longrightarrow> dec (enc [] x) = Inr (x, [])"
  using dec_enc [of x "[]"] by simp

lemma enc_prefix_free:
  "fits x \<Longrightarrow> fits y \<Longrightarrow> enc [] x @ r = enc [] y @ s \<Longrightarrow> x = y \<and> r = s"
  by (metis dec_enc prod.inject sum.inject(2))

lemma decode_in_sequence:
  assumes "fits x" "fits y"
  shows "result_bind (dec (enc (enc [] x) y @ rest)) (\<lambda>(u, r). result_bind (dec r) (\<lambda>(v, r'). Inr (u, v, r'))) = Inr (x, y, rest)"
  unfolding enc_append [of "enc [] x" y] append_assoc dec_enc [OF assms(1)] dec_enc [OF assms(2)] result_bind_simps prod.case ..

end

section \<open>Lemmas\<close>

lemma Uint32_bytes:
  "BigEndian_Uint32 [ucast (drop_bit 24 v), ucast (drop_bit 16 v), ucast (drop_bit 8 v), ucast v] = v"
proof (rule bit_word_eqI)
  fix n assume n: "n < LENGTH(32)"
  consider "n < 8" | "8 \<le> n" "n < 16" | "16 \<le> n" "n < 24" | "24 \<le> n" by linarith
  then show "bit (BigEndian_Uint32 [ucast (drop_bit 24 v), ucast (drop_bit 16 v), ucast (drop_bit 8 v), ucast v]) n = bit v n"
    using n by cases (simp_all add: BigEndian_Uint32_def bit_simps less_diff_conv2)
qed

lemma Uint64_bytes:
  "BigEndian_Uint64 [ucast (drop_bit 56 v), ucast (drop_bit 48 v), ucast (drop_bit 40 v), ucast (drop_bit 32 v),
     ucast (drop_bit 24 v), ucast (drop_bit 16 v), ucast (drop_bit 8 v), ucast v] = v" (is "BigEndian_Uint64 ?bs = v")
proof (rule bit_word_eqI)
  fix n assume n: "n < LENGTH(64)"
  consider "n < 8" | "8 \<le> n" "n < 16" | "16 \<le> n" "n < 24" | "24 \<le> n" "n < 32" | "32 \<le> n" "n < 40"
    | "40 \<le> n" "n < 48" | "48 \<le> n" "n < 56" | "56 \<le> n" by linarith
  then show "bit (BigEndian_Uint64 ?bs) n = bit v n"
    using n by cases (simp_all add: BigEndian_Uint64_def bit_simps less_diff_conv2)
qed

interpretation uint32: wire_codec marshalUint32 unmarshalUint32 "\<lambda>_. True"
  by unfold_locales (simp_all add: marshalUint32_def unmarshalUint32_def Uint32_bytes)

interpretation uint64: wire_codec marshalUint64 unmarshalUint64 "\<lambda>_. True"
  by unfold_locales (simp_all add: marshalUint64_def unmarshalUint64_def Uint64_bytes)

lemma unat_length: "length s < 4294967296 \<Longrightarrow> unat (of_nat (length s) :: 32 word) = length s"
  by (simp add: unat_of_nat take_bit_eq_mod)

lemma unmarshalString_marshal:
  assumes "length s + length rest < 4294967296"
  shows "unmarshalString (marshalString [] s @ rest) = Inr (s, rest)"
proof -
  have u: "unat (of_nat (length s) :: 32 word) = length s"
    "unat (of_nat (length s + length rest) :: 32 word) = length s + length rest"
    using assms unat_length [of "s @ rest"] unat_length [of s] by simp_all
  then have "\<not> (of_nat (length (s @ rest)) :: 32 word) < of_nat (length s)"
    by (simp add: word_less_nat_alt)
  then show ?thesis
    using uint32.dec_enc [of "of_nat (length s)" "s @ rest"] u(1) by (simp add: unmarshalString_def marshalString_def)
qed

lemma unmarshalString_ok:
  assumes "unmarshalString b = Inr (s, rest)"
  shows "length b \<ge> 4" "drop 4 b = s @ rest" "length s = unat (BigEndian_Uint32 (take 4 b))"
proof -
  let ?len = "BigEndian_Uint32 (take 4 b)"
  have ok: "\<not> length b < 4" "\<not> (of_nat (length (drop 4 b)) :: 32 word) < ?len"
      "s = take (unat ?len) (drop 4 b)" "rest = drop (unat ?len) (drop 4 b)"
    using assms by (auto simp: unmarshalString_def unmarshalUint32_def split: if_splits)
  have "unat ?len \<le> unat (of_nat (length (drop 4 b)) :: 32 word)" using ok(2) by (simp add: word_less_nat_alt)
  also have "\<dots> \<le> length (drop 4 b)" by (simp add: unat_of_nat take_bit_eq_mod)
  finally show "length s = unat ?len" using ok(3) by simp
  show "length b \<ge> 4" using ok(1) by simp
  show "drop 4 b = s @ rest" unfolding ok(3,4) by (rule append_take_drop_id [symmetric])
qed

lemma bytes_Uint32:
  assumes "length b = 4"
  shows "marshalUint32 [] (BigEndian_Uint32 b) = b"
proof -
  obtain b0 b1 b2 b3 where b: "b = [b0, b1, b2, b3]"
    using assms by (auto simp: length_Suc_conv numeral_eq_Suc)
  have "ucast (drop_bit 24 (BigEndian_Uint32 b)) = b0" "ucast (drop_bit 16 (BigEndian_Uint32 b)) = b1"
    "ucast (drop_bit 8 (BigEndian_Uint32 b)) = b2" "ucast (BigEndian_Uint32 b) = b3"
    by (rule bit_word_eqI; auto simp: BigEndian_Uint32_def b bit_simps dest: bit_imp_le_length)+
  then show ?thesis by (simp add: marshalUint32_def b)
qed

lemma length_marshalUint32 [simp]: "length (marshalUint32 b v) = length b + 4"
  by (simp add: marshalUint32_def)

lemma unat_packet: "n \<le> maxPacketSize \<Longrightarrow> unat (of_nat n :: 32 word) = n"
  by (simp add: unat_of_nat take_bit_eq_mod)

lemma packet_length_ok: "\<not> (v :: 32 word) > of_nat maxPacketSize \<longleftrightarrow> unat v \<le> maxPacketSize"
  by (simp add: word_less_nat_alt not_less)

lemma readPacket_writePacket:
  assumes "1 + length data \<le> maxPacketSize"
  shows "readPacket (writePacket t data @ rest) = Inr (t, data, rest)"
proof -
  let ?v = "of_nat (1 + length data) :: 32 word"
  have u: "unat ?v = 1 + length data" using unat_packet [OF assms] .
  have "?v \<noteq> 0" using u by (metis add_eq_0_iff_both_eq_0 one_neq_zero unat_0)
  moreover have "\<not> ?v > of_nat maxPacketSize" unfolding packet_length_ok using u assms by simp
  moreover have "BigEndian_Uint32 (marshalUint32 [] ?v) = ?v" by (simp add: marshalUint32_def Uint32_bytes)
  ultimately show ?thesis using u by (simp add: readPacket_def writePacket_def ReadFull_def Let_def)
qed

lemma readPacket_ok:
  assumes "readPacket r = Inr (t, data, rest)"
  shows "1 + length data \<le> maxPacketSize \<and> r = writePacket t data @ rest"
proof -
  let ?v = "BigEndian_Uint32 (take 4 r)"
  have ok: "\<not> length r < 4" "?v \<noteq> 0" "\<not> ?v > of_nat maxPacketSize" "unat ?v \<le> length (drop 4 r)"
      "t = hd (take (unat ?v) (drop 4 r))" "data = tl (take (unat ?v) (drop 4 r))" "rest = drop (unat ?v) (drop 4 r)"
    using assms by (auto simp: readPacket_def ReadFull_def Let_def split: if_splits)
  have "unat ?v \<noteq> 0" using ok(2) by (simp add: unat_eq_0)
  then have "take (unat ?v) (drop 4 r) \<noteq> []" using ok(4) by auto
  then have payload: "take (unat ?v) (drop 4 r) = t # data"
    unfolding ok(5,6) by (rule hd_Cons_tl [symmetric])
  have len: "1 + length data = unat ?v" using arg_cong [OF payload, of length] ok(4) by simp
  have "marshalUint32 [] (of_nat (1 + length data)) = take 4 r"
    unfolding len using bytes_Uint32 [of "take 4 r"] ok(1) by simp
  moreover have "r = take 4 r @ (t # data) @ rest"
    unfolding payload [symmetric] ok(7) append_take_drop_id ..
  ultimately have "r = writePacket t data @ rest" by (simp add: writePacket_def)
  moreover have "unat ?v \<le> maxPacketSize" using packet_length_ok [of ?v] ok(3) by blast
  ultimately show ?thesis using len by simp
qed

text \<open>What is left of the input after decoding or skipping.\<close>

definition rest_of :: "('e, 'a \<times> byte list) result \<Rightarrow> byte list option" where
  "rest_of r = (case r of Inl _ \<Rightarrow> None | Inr (_, rest) \<Rightarrow> Some rest)"

definition ok_of :: "('e, 'a) result \<Rightarrow> 'a option" where
  "ok_of r = (case r of Inl _ \<Rightarrow> None | Inr a \<Rightarrow> Some a)"

lemma rest_of_bind:
  assumes "rest_of x = ok_of y" "\<And>a r. rest_of (f (a, r)) = ok_of (g r)"
  shows "rest_of (result_bind x f) = ok_of (result_bind y g)"
  using assms by (cases x; cases y) (auto simp: rest_of_def ok_of_def split: prod.splits)

lemma rest_of_field:
  assumes "\<And>a r. rest_of (step a r) = ok_of (skip_bytes n r)"
  shows "rest_of (attr_field flags flag step (a, r)) = ok_of (skip_field flags flag n r)"
  using assms by (simp add: attr_field_def skip_field_def) (simp add: rest_of_def ok_of_def)

lemma rest_of_unmarshal:
  "rest_of (result_bind (unmarshalUint32 r) (\<lambda>(v, r'). Inr (h v, r'))) = ok_of (skip_bytes 4 r)"
  "rest_of (result_bind (unmarshalUint64 r) (\<lambda>(w, r'). Inr (k w, r'))) = ok_of (skip_bytes 8 r)"
  "rest_of (result_bind (skip_bytes 8 r) (\<lambda>r'. Inr (a, r'))) = ok_of (skip_bytes 8 r)"
  "rest_of (result_bind (unmarshalUint32 r) (\<lambda>(v, r'). result_bind (unmarshalUint32 r') (\<lambda>(w, r''). Inr (l v w, r'')))) =
     ok_of (skip_bytes 8 r)"
  by (auto simp: rest_of_def ok_of_def unmarshalUint32_def unmarshalUint64_def skip_bytes_def)

section \<open>Properties\<close>

text \<open>C23: Reading a packet inverts writing one, exactly: the reader accepts a stream if and only if it
  starts with a written packet of at most 512 KiB, and returns that packet's type and data and what
  follows it.\<close>

theorem readPacket_iff:
  "readPacket r = Inr (t, data, rest) \<longleftrightarrow> 1 + length data \<le> maxPacketSize \<and> r = writePacket t data @ rest"
  using readPacket_ok readPacket_writePacket by blast

text \<open>The attributes a client receives are those of the file: decoding an encoded attribute block
  returns the size, the mode and the modification time pinned to the 32-bit range of the protocol, and
  leaves the bytes behind the block.\<close>

theorem parseAttrs_marshalAttrs:
  "parseAttrs (marshalAttrs [] (Some fi) @ rest) = Inr
     (\<lparr> hasSize = True, attrSize = word_of_int (fiSize fi), hasPerm = True, attrPerm = fileModeToSFTP (fiMode fi),
        hasTimes = True, attrAtime = sftpTime (fiModTime fi), attrMtime = sftpTime (fiModTime fi) \<rparr>, rest)"
proof -
  have flags: "or 1 (or 4 8) = (13 :: 32 word)" "and 13 1 \<noteq> (0 :: 32 word)" "and 13 2 = (0 :: 32 word)"
    "and 13 4 \<noteq> (0 :: 32 word)" "and 13 8 \<noteq> (0 :: 32 word)" by simp_all
  have enc: "marshalAttrs [] (Some fi) @ rest = marshalUint32 [] 13 @ marshalUint64 [] (word_of_int (fiSize fi)) @
      marshalUint32 [] (fileModeToSFTP (fiMode fi)) @ marshalUint32 [] (sftpTime (fiModTime fi)) @
      marshalUint32 [] (sftpTime (fiModTime fi)) @ rest"
    unfolding marshalAttrs_def Let_def option.case flags(1) by (simp add: marshalUint32_def marshalUint64_def)
  show ?thesis unfolding enc parseAttrs_def
    by (simp add: uint32.dec_enc uint64.dec_enc attr_field_def flags no_attrs_def)
qed

text \<open>Skipping an attribute block and decoding it agree on every input: both fail, or both leave
  the same bytes.\<close>

theorem unmarshalAttrs_agrees:
  "(case unmarshalAttrs b of Inl _ \<Rightarrow> None | Inr r \<Rightarrow> Some r) = (case parseAttrs b of Inl _ \<Rightarrow> None | Inr (_, r) \<Rightarrow> Some r)"
proof -
  have "rest_of (parseAttrs b) = ok_of (unmarshalAttrs b)"
  proof (cases "unmarshalUint32 b")
    case (Inr fr)
    obtain flags rest where "fr = (flags, rest)" by fastforce
    then show ?thesis using Inr
      by (simp add: parseAttrs_def unmarshalAttrs_def rest_of_bind rest_of_field rest_of_unmarshal)
  qed (simp add: parseAttrs_def unmarshalAttrs_def rest_of_def ok_of_def)
  then show ?thesis by (simp add: rest_of_def ok_of_def)
qed

text \<open>Times outside the protocol's unsigned 32-bit range are pinned to its ends and all others are
  exact; nothing wraps.\<close>

theorem sftpTime_clamps: "uint (sftpTime sec) = max 0 (min sec 4294967295)"
  by (auto simp: sftpTime_def uint_word_of_int_eq take_bit_eq_mod)

end
