(* ===== verification/S3_Access.thy ===== *)
theory S3_Access
  imports Namespace_Rules
begin

text \<open>
  Access control and preconditions of the S3 gateway: signature version 4 (gateway/s3/sigv4.go and
  \<open>authenticate\<close> in s3.go), conditional requests and byte ranges (conditions.go), bucket and key names
  (handlers.go). Parameters of the definitions: \<open>sha256_hex\<close> and \<open>hmac\<close> for the digests, \<open>to_lower\<close> for
  \<open>strings.ToLower\<close>, \<open>ParseTime\<close> and \<open>parse_amz\<close> for the date formats, in seconds since the epoch.
\<close>

section \<open>Requests\<close>

text \<open>\<open>rqQuery\<close> is \<open>r.URL.Query()\<close> with one entry per key; \<open>rqHeader\<close> the values stored under a canonical
  header key.\<close>

record http_request =
  rqMethod :: string
  rqEscapedPath :: string
  rqQuery :: "(string \<times> string list) list"
  rqHost :: string
  rqContentLength :: int
  rqHeader :: "string \<Rightarrow> string list"

text \<open>\<open>textproto.CanonicalMIMEHeaderKey\<close>: a name made of token bytes is capitalised at its start and
  after each hyphen; any other name is left alone.\<close>

definition is_token_byte :: "char \<Rightarrow> bool" where
  "is_token_byte c \<longleftrightarrow>
     (let n = (of_char c :: nat)
      in 97 \<le> n \<and> n \<le> 122 \<or> 65 \<le> n \<and> n \<le> 90 \<or> 48 \<le> n \<and> n \<le> 57 \<or> n \<in> {33, 35, 36, 37, 38, 39, 42, 43, 45, 46, 94, 95, 96, 124, 126})"

definition upper_char :: "char \<Rightarrow> char" where
  "upper_char c = (let n = (of_char c :: nat) in if 97 \<le> n \<and> n \<le> 122 then char_of (n - 32) else c)"

fun capitalise :: "bool \<Rightarrow> string \<Rightarrow> string" where
  "capitalise up [] = []"
| "capitalise up (c # s) = (if up then upper_char c else lower_char c) # capitalise (c = CHR ''-'') s"

definition CanonicalHeaderKey :: "string \<Rightarrow> string" where
  "CanonicalHeaderKey s = (if list_all is_token_byte s then capitalise True s else s)"

definition first_or_empty :: "string list \<Rightarrow> string" where
  "first_or_empty vs = (case vs of [] \<Rightarrow> [] | v # _ \<Rightarrow> v)"

definition Header_Values :: "http_request \<Rightarrow> string \<Rightarrow> string list" where
  "Header_Values r h = rqHeader r (CanonicalHeaderKey h)"

definition Header_Get :: "http_request \<Rightarrow> string \<Rightarrow> string" where
  "Header_Get r h = first_or_empty (Header_Values r h)"

definition Query_Get :: "http_request \<Rightarrow> string \<Rightarrow> string" where
  "Query_Get r k = (case row_of fst (rqQuery r) k of None \<Rightarrow> [] | Some kv \<Rightarrow> first_or_empty (snd kv))"

section \<open>Signature version 4\<close>

definition sigV4Algorithm :: string where
  "sigV4Algorithm = ''AWS4-HMAC-SHA256''"

definition unsignedPayload :: string where
  "unsignedPayload = ''UNSIGNED-PAYLOAD''"

abbreviation (input) presignSkewGrace :: int where
  "presignSkewGrace \<equiv> 900"

abbreviation (input) maxPresignExpires :: int where
  "maxPresignExpires \<equiv> 604800"

record credential =
  crAccessKey :: string
  crDate :: string
  crRegion :: string
  crService :: string
  crScope :: string

definition parseCredential :: "string \<Rightarrow> credential option" where
  "parseCredential cred =
     (let parts = Split cred CHR ''/''
      in if length parts \<noteq> 5 \<or> parts ! 4 \<noteq> ''aws4_request'' then None
         else if list_ex (\<lambda>p. p = []) parts then None
         else Some \<lparr> crAccessKey = parts ! 0, crDate = parts ! 1, crRegion = parts ! 2, crService = parts ! 3,
                     crScope = Join (tl parts) ''/'' \<rparr>)"

definition auth_param :: "(string \<times> string) list \<Rightarrow> string \<Rightarrow> string" where
  "auth_param ps k = (case row_of fst ps k of None \<Rightarrow> [] | Some kv \<Rightarrow> snd kv)"

definition auth_part :: "(string \<times> string) list \<Rightarrow> string \<Rightarrow> (string \<times> string) list" where
  "auth_part out part =
     (let p = TrimSpace part
      in if p = [] then out
         else case Cut p CHR ''='' of None \<Rightarrow> out | Some (k, v) \<Rightarrow> upsert fst (TrimSpace k, TrimSpace v) out)"

definition parseAuthHeader :: "string \<Rightarrow> (string \<times> string) list" where
  "parseAuthHeader h = foldl auth_part [] (Split (TrimSpace (TrimPrefix h sigV4Algorithm)) CHR '','')"

definition splitSignedHeaders :: "(string \<Rightarrow> string) \<Rightarrow> string \<Rightarrow> string list" where
  "splitSignedHeaders to_lower raw = sort (map (\<lambda>h. to_lower (TrimSpace h)) (Split raw CHR '';''))"

definition containsHeader :: "string list \<Rightarrow> string \<Rightarrow> bool" where
  "containsHeader signed name = list_ex (\<lambda>h. h = name) signed"

text \<open>\<open>strings.Fields\<close>: the fuel is the number of bytes left.\<close>

fun fields_loop :: "nat \<Rightarrow> string \<Rightarrow> string \<Rightarrow> string list" where
  "fields_loop 0 s cur = (if cur = [] then [] else [cur])"
| "fields_loop (Suc n) s cur =
     (case s of
        [] \<Rightarrow> if cur = [] then [] else [cur]
      | c # r \<Rightarrow>
          (case find (\<lambda>sp. HasPrefix s sp) go_spaces of
             None \<Rightarrow> fields_loop n r (cur @ [c])
           | Some sp \<Rightarrow> (if cur = [] then [] else [cur]) @ fields_loop n (drop (length sp) s) []))"

definition Fields :: "string \<Rightarrow> string list" where
  "Fields s = fields_loop (length s) s []"

definition trimAll :: "string \<Rightarrow> string" where
  "trimAll s = Join (Fields s) '' ''"

definition awsURIEncode :: "string \<Rightarrow> bool \<Rightarrow> string" where
  "awsURIEncode s encodeSlash =
     concat (map (\<lambda>c. let n = (of_char c :: nat)
        in if 65 \<le> n \<and> n \<le> 90 \<or> 97 \<le> n \<and> n \<le> 122 \<or> 48 \<le> n \<and> n \<le> 57 \<or> c \<in> set ''-_.~'' then [c]
           else if c = CHR ''/'' \<and> \<not> encodeSlash then [c]
           else [CHR ''%'', upper_hex (n div 16), upper_hex (n mod 16)]) s)"

definition canonicalHeaders :: "http_request \<Rightarrow> string list \<Rightarrow> string" where
  "canonicalHeaders r signedHeaders =
     concat (map (\<lambda>h. h @ '':'' @
        (if h = ''host'' then trimAll (rqHost r)
         else if h = ''content-length'' \<and> rqContentLength r \<ge> 0 then FormatInt (rqContentLength r)
         else trimAll (Join (Header_Values r h) '','')) @ [CHR 0x0A]) signedHeaders)"

definition canonicalQueryString :: "(string \<times> string list) list \<Rightarrow> string \<Rightarrow> string" where
  "canonicalQueryString query exclude =
     Join (concat (map (\<lambda>k. map (\<lambda>v. awsURIEncode k True @ ''='' @ awsURIEncode v True)
        (sort (case row_of fst query k of None \<Rightarrow> [] | Some kv \<Rightarrow> snd kv)))
        (sort (filter (\<lambda>k. k \<noteq> exclude) (map fst query))))) ''&''"

definition deriveSigningKey ::
    "(string \<Rightarrow> string \<Rightarrow> string) \<Rightarrow> string \<Rightarrow> string \<Rightarrow> string \<Rightarrow> string \<Rightarrow> string" where
  "deriveSigningKey hmac secret date region service =
     hmac (hmac (hmac (hmac (''AWS4'' @ secret) date) region) service) ''aws4_request''"

definition computeSignature ::
    "(string \<Rightarrow> string) \<Rightarrow> (string \<Rightarrow> string \<Rightarrow> string) \<Rightarrow> http_request \<Rightarrow> string \<Rightarrow> credential \<Rightarrow> string \<Rightarrow> string list
     \<Rightarrow> string \<Rightarrow> string \<Rightarrow> string" where
  "computeSignature sha256_hex hmac r secretKey cred amzDate signedHeaders canonicalQuery payloadHash =
     (let canonicalURI = (if rqEscapedPath r = [] then ''/'' else rqEscapedPath r);
          nl = [CHR 0x0A];
          canonicalRequest = Join [rqMethod r, canonicalURI, canonicalQuery, canonicalHeaders r signedHeaders,
                                   Join signedHeaders '';'', payloadHash] nl;
          stringToSign = Join [sigV4Algorithm, amzDate, crScope cred, sha256_hex canonicalRequest] nl
      in hex_lower (hmac (deriveSigningKey hmac secretKey (crDate cred) (crRegion cred) (crService cred)) stringToSign))"

definition scopeDateMatches :: "credential \<Rightarrow> string \<Rightarrow> bool" where
  "scopeDateMatches cred amzDate \<longleftrightarrow> length amzDate \<ge> 8 \<and> crDate cred = take 8 amzDate"

text \<open>Times in nanoseconds; \<open>parse_amz\<close> returns the nanoseconds of a stamp.\<close>

definition withinSkew :: "(string \<Rightarrow> int option) \<Rightarrow> int \<Rightarrow> string \<Rightarrow> bool" where
  "withinSkew parse_amz now amzDate =
     (case parse_amz amzDate of
        None \<Rightarrow> False
      | Some t \<Rightarrow>
          let delta = time_Sub now t;
              delta = (if delta < 0 then wrap64 (- delta) else delta)
          in delta \<le> presignSkewGrace * 1000000000)"

definition presignedNotExpired :: "(string \<Rightarrow> int option) \<Rightarrow> int \<Rightarrow> string \<Rightarrow> string \<Rightarrow> bool" where
  "presignedNotExpired parse_amz now amzDate expiresStr =
     (case parse_amz amzDate of
        None \<Rightarrow> False
      | Some t \<Rightarrow>
          (case ParseInt expiresStr of
             None \<Rightarrow> False
           | Some expires \<Rightarrow>
               if expires < 1 \<or> expires > maxPresignExpires then False
               else if now < t - presignSkewGrace * 1000000000 then False
               else \<not> now > t + wrap64 (expires * 1000000000)))"

text \<open>What the source takes from outside: the digests, the lower-casing, the date parser and the clock.\<close>

record sig_env =
  seSha :: "string \<Rightarrow> string"
  seHmac :: "string \<Rightarrow> string \<Rightarrow> string"
  seLower :: "string \<Rightarrow> string"
  seParse :: "string \<Rightarrow> int option"
  seNow :: int

definition verifyHeaderV4 :: "sig_env \<Rightarrow> http_request \<Rightarrow> string \<Rightarrow> string \<Rightarrow> bool" where
  "verifyHeaderV4 env r accessKey secretKey =
     (let params = parseAuthHeader (Header_Get r ''Authorization'')
      in case parseCredential (auth_param params ''Credential'') of
           None \<Rightarrow> False
         | Some cred \<Rightarrow>
             if crAccessKey cred \<noteq> accessKey then False
             else
               let signedHeadersRaw = auth_param params ''SignedHeaders'';
                   providedSig = auth_param params ''Signature'';
                   amzDate = Header_Get r ''X-Amz-Date''
               in if signedHeadersRaw = [] \<or> providedSig = [] \<or> amzDate = [] then False
                  else if \<not> withinSkew (seParse env) (seNow env) amzDate \<or> \<not> scopeDateMatches cred amzDate then False
                  else
                    let signedHeaders = splitSignedHeaders (seLower env) signedHeadersRaw
                    in if \<not> containsHeader signedHeaders ''host'' then False
                       else
                         let h = Header_Get r ''X-Amz-Content-Sha256'';
                             payloadHash = (if h = [] then unsignedPayload else h)
                         in computeSignature (seSha env) (seHmac env) r secretKey cred amzDate signedHeaders
                              (canonicalQueryString (rqQuery r) []) payloadHash = providedSig)"

definition verifyPresignedV4 :: "sig_env \<Rightarrow> http_request \<Rightarrow> string \<Rightarrow> string \<Rightarrow> bool" where
  "verifyPresignedV4 env r accessKey secretKey =
     (if Query_Get r ''X-Amz-Algorithm'' \<noteq> sigV4Algorithm then False
      else case parseCredential (Query_Get r ''X-Amz-Credential'') of
        None \<Rightarrow> False
      | Some cred \<Rightarrow>
          if crAccessKey cred \<noteq> accessKey then False
          else
            let providedSig = Query_Get r ''X-Amz-Signature'';
                signedHeadersRaw = Query_Get r ''X-Amz-SignedHeaders'';
                amzDate = Query_Get r ''X-Amz-Date''
            in if providedSig = [] \<or> signedHeadersRaw = [] \<or> amzDate = [] then False
               else if \<not> presignedNotExpired (seParse env) (seNow env) amzDate (Query_Get r ''X-Amz-Expires'') \<or>
                       \<not> scopeDateMatches cred amzDate then False
               else
                 let signedHeaders = splitSignedHeaders (seLower env) signedHeadersRaw
                 in if \<not> containsHeader signedHeaders ''host'' then False
                    else computeSignature (seSha env) (seHmac env) r secretKey cred amzDate signedHeaders
                           (canonicalQueryString (rqQuery r) ''X-Amz-Signature'') unsignedPayload = providedSig)"

definition authenticate :: "sig_env \<Rightarrow> string \<Rightarrow> string \<Rightarrow> http_request \<Rightarrow> bool" where
  "authenticate env accessKey secretKey r =
     (if accessKey = [] \<and> secretKey = [] then True
      else if accessKey = [] \<or> secretKey = [] then False
      else
        let authHeader = Header_Get r ''Authorization''
        in if authHeader \<noteq> [] then
             (if HasPrefix authHeader sigV4Algorithm then verifyHeaderV4 env r accessKey secretKey else False)
           else if Query_Get r ''X-Amz-Algorithm'' = sigV4Algorithm then verifyPresignedV4 env r accessKey secretKey
           else False)"

section \<open>Bucket and key names\<close>

abbreviation (input) maxKeyLength :: nat where
  "maxKeyLength \<equiv> 1024"

abbreviation (input) maxSegmentLength :: nat where
  "maxSegmentLength \<equiv> 255"

datatype s3_failure =
    NoSuchKey | KeyTooLong | InvalidKey | PreconditionFailed | NotImplemented | StatFailed

definition validateBucketName :: "string \<Rightarrow> bool" where
  "validateBucketName name =
     (if name = [] \<or> name = ''.'' \<or> name = ''..'' then False
      else if CHR ''/'' \<in> set name \<or> CHR 0x5C \<in> set name then False
      else if IsReserved name then False
      else True)"

definition validateKey :: "string \<Rightarrow> bool" where
  "validateKey key =
     (if key = [] then False
      else if list_ex (\<lambda>seg. seg = ''..'') (Split key CHR ''/'') then False
      else let cleaned = path_Clean key
        in \<not> (HasPrefix cleaned ''../'' \<or> HasPrefix cleaned ''/'' \<or> cleaned = ''..''))"

definition keyShapeFailure :: "string \<Rightarrow> s3_failure option" where
  "keyShapeFailure key =
     (if length key > maxKeyLength then Some KeyTooLong
      else if \<not> utf8_valid key \<or> CHR 0x00 \<in> set key then Some InvalidKey
      else if list_ex (\<lambda>segment. length segment > maxSegmentLength) (Split key CHR ''/'') then Some KeyTooLong
      else None)"

definition isHexSHA256 :: "string \<Rightarrow> bool" where
  "isHexSHA256 s = (if length s \<noteq> 64 then False else list_all is_lower_hex s)"

section \<open>Conditional requests\<close>

fun FormatHex :: "nat \<Rightarrow> string" where
  "FormatHex n = (if n < 16 then [hex_digit n] else FormatHex (n div 16) @ [hex_digit (n mod 16)])"

declare FormatHex.simps [simp del]

definition FormatHexInt :: "int \<Rightarrow> string" where
  "FormatHexInt n = (if n < 0 then CHR ''-'' # FormatHex (nat (- n)) else FormatHex (nat n))"

text \<open>Size, modification time in nanoseconds and regularity of an \<open>os.FileInfo\<close>.\<close>

record object_info =
  oiSize :: int
  oiModTime :: int
  oiRegular :: bool

definition etagFor :: "object_info \<Rightarrow> string" where
  "etagFor fi = [CHR 0x22] @ FormatHexInt (oiSize fi) @ ''-'' @ FormatHexInt (oiModTime fi) @ [CHR 0x22]"

definition normalizeETag :: "string \<Rightarrow> string" where
  "normalizeETag etag = TrimChar (CHR 0x22) (TrimPrefix (TrimSpace etag) ''W/'')"

definition etagListMatches :: "string \<Rightarrow> string \<Rightarrow> bool" where
  "etagListMatches tags etag =
     (let want = normalizeETag etag
      in list_ex (\<lambda>c. let candidate = TrimSpace c
           in candidate = ''*'' \<or> (candidate \<noteq> [] \<and> normalizeETag candidate = want)) (Split tags CHR '',''))"

datatype condition = conditionMet | conditionFailed | conditionNotModified

record conditionalHeaders =
  chIfMatch :: string
  chIfUnmodifiedSince :: string
  chIfNoneMatch :: string
  chIfModifiedSince :: string

definition parseHTTPDate :: "(string \<Rightarrow> int option) \<Rightarrow> string \<Rightarrow> int option" where
  "parseHTTPDate ParseTime raw = (if raw = [] then None else ParseTime raw)"

text \<open>\<open>ParseTime\<close> returns whole seconds; \<open>Truncate(time.Second)\<close> rounds down to them.\<close>

definition evaluateConditions ::
    "(string \<Rightarrow> int option) \<Rightarrow> http_request \<Rightarrow> conditionalHeaders \<Rightarrow> object_info \<Rightarrow> condition" where
  "evaluateConditions ParseTime r names info =
     (let etag = etagFor info;
          modified = oiModTime info div 1000000000;
          date = (\<lambda>h. parseHTTPDate ParseTime (Header_Get r h));
          m = Header_Get r (chIfMatch names);
          n = Header_Get r (chIfNoneMatch names);
          failed = (if m \<noteq> [] then \<not> etagListMatches m etag
                    else case date (chIfUnmodifiedSince names) of None \<Rightarrow> False | Some since \<Rightarrow> modified > since);
          unmodified = (if n \<noteq> [] then etagListMatches n etag
                        else case date (chIfModifiedSince names) of None \<Rightarrow> False | Some since \<Rightarrow> \<not> modified > since)
      in if failed then conditionFailed else if unmodified then conditionNotModified else conditionMet)"

record writeConditions =
  wcIfNoneMatch :: bool
  wcIfMatch :: string

definition parseWriteConditions :: "http_request \<Rightarrow> (s3_failure, writeConditions) result" where
  "parseWriteConditions r =
     (let raw = TrimSpace (Header_Get r ''If-None-Match'')
      in if raw \<noteq> [] \<and> raw \<noteq> ''*'' then Inl NotImplemented
         else Inr \<lparr> wcIfNoneMatch = (raw \<noteq> []), wcIfMatch = TrimSpace (Header_Get r ''If-Match'') \<rparr>)"

definition wc_empty :: "writeConditions \<Rightarrow> bool" where
  "wc_empty c \<longleftrightarrow> \<not> wcIfNoneMatch c \<and> wcIfMatch c = []"

text \<open>The stat of the destination: the file, nothing there, or another error.\<close>

datatype stat_result = StatFile object_info | StatMissing | StatError

definition wc_check :: "writeConditions \<Rightarrow> stat_result \<Rightarrow> (s3_failure, unit) result" where
  "wc_check c st =
     (case st of
        StatError \<Rightarrow> Inl StatFailed
      | _ \<Rightarrow>
          let present = (case st of StatFile fi \<Rightarrow> oiRegular fi | _ \<Rightarrow> False)
          in if wcIfNoneMatch c \<and> present then Inl PreconditionFailed
             else if wcIfMatch c \<noteq> [] then
               (if \<not> present then Inl NoSuchKey
                else if \<not> etagListMatches (wcIfMatch c) (case st of StatFile fi \<Rightarrow> etagFor fi | _ \<Rightarrow> []) then Inl PreconditionFailed
                else Inr ())
             else Inr ())"

definition wc_precondition :: "writeConditions \<Rightarrow> (stat_result \<Rightarrow> (s3_failure, unit) result) option" where
  "wc_precondition c = (if wc_empty c then None else Some (wc_check c))"

datatype rangeOutcome = rangeNone | rangeServe | rangeIgnore | rangeUnsatisfiable

text \<open>One range specification: \<open>None\<close> is a malformed one, otherwise whether it selects a byte.\<close>

definition range_spec :: "string \<Rightarrow> int \<Rightarrow> bool option" where
  "range_spec spec sz =
     (case Cut spec CHR ''-'' of
        None \<Rightarrow> None
      | Some (f, l) \<Rightarrow>
          let first = TrimSpace f; last = TrimSpace l
          in if first = [] then
               (case ParseInt last of
                  None \<Rightarrow> None
                | Some n \<Rightarrow>
                    if last = [] \<or> hd last = CHR ''-'' \<or> n < 0 then None
                    else Some (n > 0 \<and> sz > 0))
             else
               (case ParseInt first of
                  None \<Rightarrow> None
                | Some start \<Rightarrow>
                    if start < 0 then None
                    else if last \<noteq> [] \<and> (case ParseInt last of None \<Rightarrow> True | Some e \<Rightarrow> start > e) then None
                    else Some (start < sz)))"

fun range_loop :: "string list \<Rightarrow> int \<Rightarrow> bool \<Rightarrow> bool \<Rightarrow> rangeOutcome" where
  "range_loop [] sz satisfiable named =
     (if \<not> named then rangeIgnore
      else if satisfiable then rangeServe
      else if sz = 0 then rangeIgnore
      else rangeUnsatisfiable)"
| "range_loop (s # specs) sz satisfiable named =
     (let spec = TrimSpace s
      in if spec = [] then range_loop specs sz satisfiable named
         else case range_spec spec sz of
           None \<Rightarrow> rangeIgnore
         | Some hit \<Rightarrow> range_loop specs sz (satisfiable \<or> hit) True)"

definition classifyRange :: "string \<Rightarrow> int \<Rightarrow> rangeOutcome" where
  "classifyRange header sz =
     (if header = [] then rangeNone
      else if \<not> HasPrefix header ''bytes='' then rangeIgnore
      else range_loop (Split (drop 6 header) CHR '','') sz False False)"

definition ifRangeHolds :: "(string \<Rightarrow> int option) \<Rightarrow> http_request \<Rightarrow> object_info \<Rightarrow> bool" where
  "ifRangeHolds ParseTime r info =
     (let raw = TrimSpace (Header_Get r ''If-Range'')
      in if raw = [] then True
         else if HasPrefix raw [CHR 0x22] \<or> HasPrefix raw ''W/'' then
           \<not> HasPrefix raw ''W/'' \<and> raw = etagFor info
         else case parseHTTPDate ParseTime raw of
           None \<Rightarrow> False
         | Some t \<Rightarrow> oiModTime info div 1000000000 = t)"

section \<open>Lemmas\<close>

lemma withinSkew_cases:
  assumes "withinSkew parse_amz now amzDate"
  obtains t where "parse_amz amzDate = Some t" "\<bar>now - t\<bar> \<le> presignSkewGrace * 1000000000 \<or> t - now \<ge> 9223372036854775808"
proof (cases "parse_amz amzDate")
  case None
  then show thesis using assms by (simp add: withinSkew_def time_Sub_def)
next
  case (Some t)
  define d where "d = max MinInt64 (min MaxInt64 (now - t))"
  have "t - now \<ge> 9223372036854775808 \<or> \<bar>now - t\<bar> \<le> presignSkewGrace * 1000000000"
  proof (cases "d = MinInt64")
    case True
    then show ?thesis by (auto simp: d_def max_def min_def split: if_splits)
  next
    case False
    then have "in_int64 (- d)" unfolding d_def in_int64_def by linarith
    then have "wrap64 (- d) = - d" by (rule wrap64_id)
    then have "\<bar>d\<bar> \<le> presignSkewGrace * 1000000000"
      using assms Some by (auto simp: withinSkew_def time_Sub_def d_def [symmetric] Let_def split: if_splits)
    then show ?thesis using False unfolding d_def by linarith
  qed
  then show thesis using that Some by blast
qed

lemma presignedNotExpired_cases:
  assumes "presignedNotExpired parse_amz now amzDate expires"
  obtains t where "parse_amz amzDate = Some t" "t - presignSkewGrace * 1000000000 \<le> now"
    "now \<le> t + maxPresignExpires * 1000000000"
proof -
  obtain t e where te: "parse_amz amzDate = Some t" "1 \<le> e" "e \<le> maxPresignExpires"
      "t - presignSkewGrace * 1000000000 \<le> now" "now \<le> t + wrap64 (e * 1000000000)"
    using assms unfolding presignedNotExpired_def not_less
    by (fastforce simp: not_less split: option.splits if_splits)
  have "wrap64 (e * 1000000000) = e * 1000000000" using te(2,3) by (intro wrap64_id) (simp add: in_int64_def)
  then show thesis using that te by simp
qed

lemma verifyHeaderV4_cases:
  assumes "verifyHeaderV4 env r accessKey secretKey"
  obtains cred signed where "parseCredential (auth_param (parseAuthHeader (Header_Get r ''Authorization'')) ''Credential'') = Some cred"
    "crAccessKey cred = accessKey" "withinSkew (seParse env) (seNow env) (Header_Get r ''X-Amz-Date'')"
    "scopeDateMatches cred (Header_Get r ''X-Amz-Date'')" "''host'' \<in> set signed"
    "auth_param (parseAuthHeader (Header_Get r ''Authorization'')) ''Signature'' =
       computeSignature (seSha env) (seHmac env) r secretKey cred (Header_Get r ''X-Amz-Date'') signed
         (canonicalQueryString (rqQuery r) [])
         (if Header_Get r ''X-Amz-Content-Sha256'' = [] then unsignedPayload else Header_Get r ''X-Amz-Content-Sha256'')"
  using assms unfolding verifyHeaderV4_def Let_def containsHeader_def list_ex_iff
  by (auto split: option.splits if_splits)

lemma verifyPresignedV4_cases:
  assumes "verifyPresignedV4 env r accessKey secretKey"
  obtains cred signed where "parseCredential (Query_Get r ''X-Amz-Credential'') = Some cred" "crAccessKey cred = accessKey"
    "presignedNotExpired (seParse env) (seNow env) (Query_Get r ''X-Amz-Date'') (Query_Get r ''X-Amz-Expires'')"
    "scopeDateMatches cred (Query_Get r ''X-Amz-Date'')" "''host'' \<in> set signed"
    "Query_Get r ''X-Amz-Signature'' =
       computeSignature (seSha env) (seHmac env) r secretKey cred (Query_Get r ''X-Amz-Date'') signed
         (canonicalQueryString (rqQuery r) ''X-Amz-Signature'') unsignedPayload"
  using assms unfolding verifyPresignedV4_def Let_def containsHeader_def list_ex_iff
  by (auto split: option.splits if_splits)

lemma range_loop_size:
  assumes "0 \<le> sz" "satisfiable \<Longrightarrow> 0 < sz"
  shows "range_loop specs sz satisfiable named \<in> {rangeServe, rangeUnsatisfiable} \<Longrightarrow> 0 < sz"
  using assms
proof (induction specs sz satisfiable named rule: range_loop.induct)
  case (2 s specs sz satisfiable named)
  have hit: "range_spec (TrimSpace s) sz = Some True \<Longrightarrow> 0 < sz"
    by (auto simp: range_spec_def Let_def split: option.splits if_splits)
  show ?case
  proof (cases "TrimSpace s = []")
    case True
    then show ?thesis using 2 by simp
  next
    case False
    then show ?thesis using 2 hit by (cases "range_spec (TrimSpace s) sz") auto
  qed
qed (auto split: if_splits)

lemma FormatHex_nonempty: "FormatHex n \<noteq> []"
  by (subst FormatHex.simps) simp

section \<open>Properties\<close>

definition demo_sig :: sig_env where
  "demo_sig = \<lparr> seSha = (\<lambda>_. ''digest''), seHmac = (\<lambda>_ _. ''s''), seLower = ToLower, seParse = (\<lambda>_. Some 5), seNow = 7 \<rparr>"

definition demo_request :: http_request where
  "demo_request = \<lparr> rqMethod = ''GET'', rqEscapedPath = ''/b/k'', rqQuery = [], rqHost = ''h'', rqContentLength = 0,
     rqHeader = (\<lambda>k. if k = ''Authorization'' then
          [''AWS4-HMAC-SHA256 Credential=AK/20260102/r/s3/aws4_request, SignedHeaders=host, Signature=73'']
        else if k = ''X-Amz-Date'' then [''20260102T000000Z''] else []) \<rparr>"



text \<open>C25: The replay window of a header signature is open at one end: the distance to a date more than
  292 years ahead saturates at the smallest duration, whose negation overflows to itself, so such a date
  passes the 15-minute test.\<close>

theorem withinSkew_far_future:
  assumes "parse_amz amzDate = Some t" "t - now \<ge> 9223372036854775808"
  shows "withinSkew parse_amz now amzDate"
proof -
  have "max MinInt64 (min MaxInt64 (now - t)) = MinInt64" using assms(2) by linarith
  then show ?thesis using assms(1) by (simp add: withinSkew_def time_Sub_def wrap64_def)
qed

theorem withinSkew_far_future_witness:
  "withinSkew (\<lambda>s. if s = ''99990101T000000Z'' then Some 253370764800000000000 else None) 1794787200000000000 ''99990101T000000Z''"
  by (rule withinSkew_far_future [of _ _ 253370764800000000000]) simp_all

text \<open>A byte range is served or refused only for an object that has bytes: an empty object is always
  answered whole.\<close>

theorem classifyRange_nonempty:
  assumes "0 \<le> sz" "classifyRange header sz = rangeServe \<or> classifyRange header sz = rangeUnsatisfiable"
  shows "0 < sz"
  using range_loop_size [of sz False "Split (drop 6 header) CHR '',''" False] assms
  by (auto simp: classifyRange_def split: if_splits)

theorem classifyRange_nonempty_witness:
  "classifyRange ''bytes=5-9'' 7 = rangeServe \<and> classifyRange ''bytes=9-'' 7 = rangeUnsatisfiable \<and> classifyRange ''bytes=0-'' 0 = rangeIgnore \<and> (0 :: int) < 7"
proof -
  have "classifyRange ''bytes=5-9'' 7 = rangeServe" "classifyRange ''bytes=9-'' 7 = rangeUnsatisfiable"
    "classifyRange ''bytes=0-'' 0 = rangeIgnore" by code_simp+
  then show ?thesis using classifyRange_nonempty [of 7 "''bytes=5-9''"] by simp
qed

text \<open>Conditional writes keep their promise at publication: if the check passes, \<open>If-None-Match: *\<close>
  means that no object is there, and an \<open>If-Match\<close> list means that a regular file is there whose tag the
  list names.\<close>

theorem wc_check_sound:
  assumes "wc_check c st = Inr ()"
  shows "(wcIfNoneMatch c \<longrightarrow> \<not> (\<exists>fi. st = StatFile fi \<and> oiRegular fi)) \<and>
    (wcIfMatch c \<noteq> [] \<longrightarrow> (\<exists>fi. st = StatFile fi \<and> oiRegular fi \<and> etagListMatches (wcIfMatch c) (etagFor fi)))"
  using assms by (auto simp: wc_check_def Let_def split: stat_result.splits if_splits)

theorem wc_check_sound_witness:
  "wc_check \<lparr> wcIfNoneMatch = True, wcIfMatch = [] \<rparr> StatMissing = Inr () \<and> \<not> (\<exists>fi. StatMissing = StatFile fi \<and> oiRegular fi)"
proof -
  have "wc_check \<lparr> wcIfNoneMatch = True, wcIfMatch = [] \<rparr> StatMissing = Inr ()" by code_simp
  then show ?thesis using wc_check_sound [of "\<lparr> wcIfNoneMatch = True, wcIfMatch = [] \<rparr>" StatMissing] by simp
qed

end
