(* ===== verification/S3_Listing.thy ===== *)
theory S3_Listing
  imports Birak_Prelude
begin

text \<open>
  Object listings of the S3 gateway: pagination over the merged keys of objects and common prefixes
  (\<open>paginate\<close> in gateway/s3/handlers.go), and the page built from a walk of the bucket with a bounded
  set of candidates (\<open>filesystemPage\<close> and \<open>collectObjects\<close> in listing.go). The walk hands its items over
  as a list. \<open>container/heap\<close> keeps the candidates in the source; here they are kept sorted by key, so
  that the root of the heap, the largest key, is the last one.
\<close>

section \<open>Definitions\<close>

record ObjectInfo =
  obKey :: string
  obLastModified :: string
  obETag :: string
  obSize :: int

definition no_object :: ObjectInfo where
  "no_object = \<lparr> obKey = [], obLastModified = [], obETag = [], obSize = 0 \<rparr>"

record listingItem =
  liKey :: string
  liObject :: ObjectInfo
  liPrefix :: bool

definition object_item :: "ObjectInfo \<Rightarrow> listingItem" where
  "object_item o1 = \<lparr> liKey = obKey o1, liObject = o1, liPrefix = False \<rparr>"

definition prefix_item :: "string \<Rightarrow> listingItem" where
  "prefix_item p = \<lparr> liKey = p, liObject = no_object, liPrefix = True \<rparr>"

record listing_page =
  lpObjects :: "ObjectInfo list"
  lpPrefixes :: "string list"
  lpTruncated :: bool
  lpNext :: string

definition objects_of :: "listingItem list \<Rightarrow> ObjectInfo list" where
  "objects_of items = map liObject (filter (\<lambda>it. \<not> liPrefix it) items)"

definition prefixes_of :: "listingItem list \<Rightarrow> string list" where
  "prefixes_of items = map liKey (filter liPrefix items)"

definition paginate :: "ObjectInfo list \<Rightarrow> string list \<Rightarrow> string \<Rightarrow> nat \<Rightarrow> listing_page" where
  "paginate objects commonPrefixes startAfter maxKeys =
     (let items = sort_key liKey (map object_item objects @ map prefix_item commonPrefixes);
          items = (if startAfter \<noteq> [] then dropWhile (\<lambda>it. \<not> liKey it > startAfter) items else items);
          isTruncated = (length items > maxKeys);
          items = (if isTruncated then take maxKeys items else items)
      in \<lparr> lpObjects = objects_of items, lpPrefixes = prefixes_of items, lpTruncated = isTruncated,
           lpNext = (if isTruncated \<and> items \<noteq> [] then liKey (last items) else []) \<rparr>)"

text \<open>The callback of \<open>filesystemPage\<close>.\<close>

definition visit :: "string \<Rightarrow> nat \<Rightarrow> listingItem list \<Rightarrow> listingItem \<Rightarrow> listingItem list" where
  "visit after maxKeys candidates item =
     (if liKey item \<le> after \<or> liKey item \<in> liKey ` set candidates then candidates
      else if length candidates = maxKeys + 1 then
        (if liKey item \<ge> liKey (last candidates) then candidates
         else insort_key liKey item (butlast candidates))
      else insort_key liKey item candidates)"

definition filesystemPage :: "listingItem list \<Rightarrow> string \<Rightarrow> nat \<Rightarrow> listing_page" where
  "filesystemPage walked after maxKeys =
     (let candidates = foldl (visit after maxKeys) [] walked
      in paginate (objects_of candidates) (prefixes_of candidates) after maxKeys)"

definition collectObjects :: "listingItem list \<Rightarrow> ObjectInfo list \<times> string list" where
  "collectObjects walked = (sort_key obKey (objects_of walked), sort (remdups (prefixes_of walked)))"

text \<open>What a client does with the token of a truncated page.\<close>

fun list_bucket :: "nat \<Rightarrow> ObjectInfo list \<Rightarrow> string list \<Rightarrow> string \<Rightarrow> nat \<Rightarrow> ObjectInfo list \<times> string list" where
  "list_bucket 0 objects commons after maxKeys = ([], [])"
| "list_bucket (Suc fuel) objects commons after maxKeys =
     (let page = paginate objects commons after maxKeys
      in if lpTruncated page then
           (let (os, ps) = list_bucket fuel objects commons (lpNext page) maxKeys
            in (lpObjects page @ os, lpPrefixes page @ ps))
         else (lpObjects page, lpPrefixes page))"

text \<open>What the walk of a bucket hands over: an object is listed under its own key, no key stands for
  two different things, and every file is met once.\<close>

definition walk_ok :: "listingItem list \<Rightarrow> bool" where
  "walk_ok items \<longleftrightarrow>
     (\<forall>it \<in> set items. it = prefix_item (liKey it) \<or> it = object_item (liObject it)) \<and>
     inj_on liKey (set items) \<and> distinct (objects_of items) \<and> (\<forall>it \<in> set items. liKey it \<noteq> [])"

section \<open>Lemmas\<close>

lemma item_keys [simp]:
  "liKey (object_item o1) = obKey o1" "liKey (prefix_item p) = p" "liPrefix (prefix_item p)" "\<not> liPrefix (object_item o1)"
  "liObject (object_item o1) = o1"
  by (simp_all add: object_item_def prefix_item_def)

lemma take_insort_key:
  assumes "sorted (map f xs)" "f x \<notin> f ` set xs"
  shows "take (Suc n) (insort_key f x xs) =
     (if length xs \<le> n then insort_key f x xs
      else if f (xs ! n) \<le> f x then take (Suc n) xs
      else insort_key f x (take n xs))"
  using assms
proof (induction xs arbitrary: n)
  case (Cons y ys)
  show ?case
  proof (cases n)
    case 0
    then show ?thesis using Cons.prems by auto
  next
    case (Suc k)
    note IH = Cons.IH [of k]
    have "\<not> f (ys ! k) \<le> f x" if "k < length ys" "f x \<le> f y"
    proof -
      have "f y \<le> f (ys ! k)" "f x \<noteq> f y" using that Cons.prems by auto
      then show ?thesis using that(2) by (metis antisym order_trans)
    qed
    then show ?thesis using Suc IH Cons.prems by auto
  qed
qed simp

text \<open>The loop without a bound on the candidates.\<close>

definition visit_all :: "string \<Rightarrow> listingItem list \<Rightarrow> listingItem \<Rightarrow> listingItem list" where
  "visit_all after seen item =
     (if liKey item \<le> after \<or> liKey item \<in> liKey ` set seen then seen else insort_key liKey item seen)"

lemma visit_all_sorted:
  "sorted (map liKey seen) \<Longrightarrow> distinct (map liKey seen) \<Longrightarrow>
   sorted (map liKey (visit_all after seen x)) \<and> distinct (map liKey (visit_all after seen x))"
  by (auto simp: visit_all_def sorted_insort_key distinct_insort_key set_insort_key)

definition seen_of :: "listingItem set \<Rightarrow> listingItem list \<Rightarrow> bool" where
  "seen_of X S \<longleftrightarrow> sorted (map liKey S) \<and> distinct (map liKey S) \<and> set S \<subseteq> X \<and> liKey ` set S = liKey ` X"

lemma seen_of_visit:
  assumes "seen_of X S"
  shows "seen_of (if after < liKey x then insert x X else X) (visit_all after S x)"
proof (cases "after < liKey x \<and> liKey x \<notin> liKey ` set S")
  case True
  then show ?thesis using assms visit_all_sorted [of S after x]
    by (auto simp: seen_of_def visit_all_def set_insort_key)
next
  case False
  then show ?thesis using assms by (auto simp: seen_of_def visit_all_def)
qed

lemma fold_visit_all: "seen_of {it \<in> set walked. after < liKey it} (foldl (visit_all after) [] walked)"
proof (induction walked rule: rev_induct)
  case (snoc x xs)
  have "{it \<in> set (xs @ [x]). after < liKey it} =
      (if after < liKey x then insert x {it \<in> set xs. after < liKey it} else {it \<in> set xs. after < liKey it})" by auto
  then show ?case using seen_of_visit [OF snoc, of after x] by simp
qed (simp add: seen_of_def)

lemma visit_take:
  assumes "sorted (map liKey S)" "distinct (map liKey S)"
  shows "visit after m (take (Suc m) S) x = take (Suc m) (visit_all after S x)"
proof (cases "liKey x \<le> after")
  case True
  then show ?thesis by (simp add: visit_def visit_all_def)
next
  case gt: False
  show ?thesis
  proof (cases "liKey x \<in> liKey ` set S")
    case True
    then obtain i where i: "i < length S" "liKey (S ! i) = liKey x" by (auto simp: in_set_conv_nth)
    have "visit after m (take (Suc m) S) x = take (Suc m) S"
    proof (cases "i < Suc m")
      case True
      then have "liKey x \<in> liKey ` set (take (Suc m) S)"
        using i by (metis image_eqI in_set_conv_nth length_take min_less_iff_conj nth_take)
      then show ?thesis by (simp add: visit_def)
    next
      case False
      then have "length (take (Suc m) S) = Suc m" "last (take (Suc m) S) = S ! m"
        using i by (simp_all add: take_Suc_conv_app_nth)
      moreover have "liKey (S ! m) \<le> liKey x"
        using assms(1) i False sorted_nth_mono [of "map liKey S" m i] by simp
      ultimately show ?thesis by (simp add: visit_def)
    qed
    then show ?thesis using True by (simp add: visit_all_def)
  next
    case False
    then have new: "liKey x \<notin> liKey ` set (take (Suc m) S)" by (auto dest: in_set_takeD)
    note ti = take_insort_key [OF assms(1) False, of m]
    show ?thesis
    proof (cases "length S \<le> m")
      case True
      then show ?thesis using gt False new ti by (simp add: visit_def visit_all_def)
    next
      case long: False
      then have "length (take (Suc m) S) = Suc m" "last (take (Suc m) S) = S ! m" "butlast (take (Suc m) S) = take m S"
        by (simp_all add: take_Suc_conv_app_nth)
      then show ?thesis using gt False new ti long by (simp add: visit_def visit_all_def)
    qed
  qed
qed

lemma candidates_take:
  "foldl (visit after m) [] walked = take (Suc m) (foldl (visit_all after) [] walked)"
proof (induction walked rule: rev_induct)
  case (snoc x xs)
  then show ?case using visit_take [of "foldl (visit_all after) [] xs" after m x] fold_visit_all [of xs after] by (simp add: seen_of_def)
qed simp

text \<open>The page of a list of items beyond the starting point.\<close>

definition page_of :: "listingItem list \<Rightarrow> nat \<Rightarrow> listing_page" where
  "page_of S m = \<lparr> lpObjects = objects_of (take m S), lpPrefixes = prefixes_of (take m S), lpTruncated = (length S > m),
     lpNext = (if length S > m \<and> m > 0 then liKey (S ! (m - 1)) else []) \<rparr>"

definition bucket_items :: "ObjectInfo list \<Rightarrow> string list \<Rightarrow> listingItem list" where
  "bucket_items os ps = sort_key liKey (map object_item os @ map prefix_item ps)"

lemma dropWhile_sorted:
  "sorted (map f xs) \<Longrightarrow> dropWhile (\<lambda>x. \<not> a < f x) xs = filter (\<lambda>x. a < f x) xs"
proof (induction xs)
  case (Cons x xs)
  show ?case
  proof (cases "a < f x")
    case True
    then have "\<forall>y \<in> set xs. a < f y" using Cons.prems by auto
    then show ?thesis using True by simp
  qed (use Cons in simp)
qed simp

lemma last_take_nth: "m < length S \<Longrightarrow> 0 < m \<Longrightarrow> last (take m S) = S ! (m - 1)"
  by (cases m) (simp_all add: take_Suc_conv_app_nth)

lemma paginate_page:
  assumes "\<forall>it \<in> set (bucket_items os ps). liKey it \<noteq> []"
  shows "paginate os ps after m = page_of (filter (\<lambda>it. after < liKey it) (bucket_items os ps)) m"
proof -
  let ?I = "bucket_items os ps"
  have s: "sorted (map liKey ?I)" by (simp add: bucket_items_def)
  have "[] < k" if "k \<noteq> []" for k :: string using that by (cases k) auto
  then have "filter (\<lambda>it. [] < liKey it) ?I = ?I" using assms by (simp add: filter_id_conv)
  then have "(if after \<noteq> [] then dropWhile (\<lambda>it. \<not> after < liKey it) ?I else ?I) = filter (\<lambda>it. after < liKey it) ?I"
    using dropWhile_sorted [OF s, of after] by simp
  then show ?thesis
    unfolding paginate_def Let_def bucket_items_def [symmetric] page_of_def by (auto simp: last_take_nth)
qed

lemma set_bucket_items:
  assumes "\<forall>it \<in> set S. it = prefix_item (liKey it) \<or> it = object_item (liObject it)"
  shows "set (map object_item (objects_of S) @ map prefix_item (prefixes_of S)) = set S"
proof -
  have split: "liPrefix it \<Longrightarrow> prefix_item (liKey it) = it" "\<not> liPrefix it \<Longrightarrow> object_item (liObject it) = it" if "it \<in> set S" for it
    using assms that by (metis item_keys(3,4))+
  have "map object_item (objects_of S) = filter (\<lambda>it. \<not> liPrefix it) S"
    unfolding objects_of_def map_map by (rule map_idI) (use split in simp)
  moreover have "map prefix_item (prefixes_of S) = filter liPrefix S"
    unfolding prefixes_of_def map_map by (rule map_idI) (use split in simp)
  ultimately show ?thesis by auto
qed

lemma distinct_by_key: "distinct xs \<Longrightarrow> inj_on f (set xs) \<Longrightarrow> distinct (map f xs)"
  by (simp add: distinct_map)

lemma bucket_items_split:
  assumes "sorted (map liKey S)" "distinct (map liKey S)" "\<forall>it \<in> set S. it = prefix_item (liKey it) \<or> it = object_item (liObject it)"
  shows "bucket_items (objects_of S) (prefixes_of S) = S"
proof -
  let ?I = "map object_item (objects_of S) @ map prefix_item (prefixes_of S)"
  have set_eq: "set ?I = set S" using set_bucket_items [OF assms(3)] .
  have "length ?I = length S" by (simp add: objects_of_def prefixes_of_def sum_length_filter_compl [of "\<lambda>it. \<not> liPrefix it" S, simplified])
  moreover have "distinct S" using assms(2) by (simp add: distinct_map)
  ultimately have "distinct ?I" using set_eq by (metis card_distinct distinct_card)
  moreover have "inj_on liKey (set S)" using assms(2) by (simp add: distinct_map)
  ultimately have "distinct (map liKey (bucket_items (objects_of S) (prefixes_of S)))"
    unfolding bucket_items_def by (intro distinct_by_key) (simp_all only: distinct_sort set_sort set_eq)
  then show ?thesis
    using assms(1,2) set_eq \<open>inj_on liKey (set S)\<close>
    by (intro map_sorted_distinct_set_unique [of liKey]) (simp_all add: bucket_items_def)
qed

lemma bucket_items_collected:
  assumes "walk_ok walked"
  defines "I \<equiv> bucket_items (sort_key obKey (objects_of walked)) (sort (remdups (prefixes_of walked)))"
  shows "set I = set walked" "sorted (map liKey I)" "distinct (map liKey I)"
proof -
  let ?os = "sort_key obKey (objects_of walked)" and ?ps = "sort (remdups (prefixes_of walked))"
  have w: "\<forall>it \<in> set walked. it = prefix_item (liKey it) \<or> it = object_item (liObject it)"
    "inj_on liKey (set walked)" "distinct (objects_of walked)" using assms(1) by (auto simp: walk_ok_def)
  show set_eq: "set I = set walked" using set_bucket_items [OF w(1)] by (simp add: I_def bucket_items_def)
  show "sorted (map liKey I)" by (simp add: I_def bucket_items_def)
  have "inj object_item" "inj prefix_item" by (auto intro!: injI dest: arg_cong [of _ _ liObject] arg_cong [of _ _ liKey])
  moreover have "object_item a \<noteq> prefix_item b" for a b using item_keys(3,4) by metis
  ultimately have "distinct (map object_item ?os @ map prefix_item ?ps)"
    using w(3) by (auto simp: distinct_map inj_on_def)
  then have "distinct I" by (simp add: I_def bucket_items_def)
  then show "distinct (map liKey I)" using w(2) set_eq by (simp add: distinct_map)
qed

lemma list_bucket_pages:
  assumes "\<forall>it \<in> set (bucket_items os ps). liKey it \<noteq> []" "distinct (map liKey (bucket_items os ps))" "0 < m"
    "length (filter (\<lambda>it. after < liKey it) (bucket_items os ps)) < fuel"
  shows "list_bucket fuel os ps after m =
    (let S = filter (\<lambda>it. after < liKey it) (bucket_items os ps) in (objects_of S, prefixes_of S))"
  using assms(4)
proof (induction fuel arbitrary: after)
  case (Suc fuel)
  define I where "I = bucket_items os ps"
  define S where "S = filter (\<lambda>it. after < liKey it) I"
  have page: "paginate os ps after m = page_of S m" unfolding S_def I_def by (rule paginate_page [OF assms(1)])
  show ?case
  proof (cases "length S > m")
    case False
    then show ?thesis using page by (simp add: page_of_def S_def I_def Let_def)
  next
    case True
    define b where "b = liKey (S ! (m - 1))"
    have sS: "sorted (map liKey S)" "distinct (map liKey S)"
      using assms(2) by (simp_all add: S_def I_def bucket_items_def sorted_filter distinct_map_filter)
    have bl: "b = liKey (last (take m S))" using last_take_nth [OF True assms(3)] by (simp add: b_def)
    have "S \<noteq> []" using True by auto
    then have d: "filter (\<lambda>it. b < liKey it) S = drop m S"
      using strict_sorted_drop [of liKey S m] sS assms(3) True by (auto simp: bl)
    have "S ! (m - 1) \<in> set S" using True assms(3) by simp
    then have "after < b" by (simp add: S_def b_def)
    then have "filter (\<lambda>it. b < liKey it) I = filter (\<lambda>it. b < liKey it) S"
      unfolding S_def filter_filter by (intro filter_cong) auto
    then have next_: "filter (\<lambda>it. b < liKey it) (bucket_items os ps) = drop m S" using d by (simp add: I_def)
    have "length (drop m S) < fuel" using Suc.prems True assms(3) by (simp add: S_def I_def)
    then have "list_bucket fuel os ps b m = (objects_of (drop m S), prefixes_of (drop m S))"
      using Suc.IH [of b] next_ by (simp add: Let_def)
    moreover have "objects_of (take m S) @ objects_of (drop m S) = objects_of S"
      "prefixes_of (take m S) @ prefixes_of (drop m S) = prefixes_of S"
      by (simp_all add: objects_of_def prefixes_of_def flip: map_append filter_append)
    ultimately show ?thesis using page True assms(3) by (simp add: page_of_def b_def S_def I_def Let_def)
  qed
qed simp

section \<open>Properties\<close>

text \<open>C26: The bounded walk equals the reference. Keeping only the smallest \<open>maxKeys + 1\<close> candidates
  while walking a bucket gives the page that \<open>paginate\<close> cuts from the complete, sorted set of objects and
  common prefixes, with the same truncation flag and the same continuation token.\<close>

theorem filesystemPage_exact:
  assumes "walk_ok walked"
  shows "filesystemPage walked after m =
    paginate (fst (collectObjects walked)) (snd (collectObjects walked)) after m"
proof -
  define S where "S = foldl (visit_all after) [] walked"
  have S: "sorted (map liKey S)" "distinct (map liKey S)" "set S \<subseteq> {it \<in> set walked. after < liKey it}"
    "liKey ` set S = liKey ` {it \<in> set walked. after < liKey it}"
    using fold_visit_all [of walked after] by (simp_all add: seen_of_def S_def)
  have inj: "inj_on liKey (set walked)" and forms: "\<forall>it \<in> set walked. it = prefix_item (liKey it) \<or> it = object_item (liObject it)"
    and ne: "\<forall>it \<in> set walked. liKey it \<noteq> []" using assms by (auto simp: walk_ok_def)
  have set_S: "set S = {it \<in> set walked. after < liKey it}"
    using S(3,4) inj by (metis (no_types, lifting) inj_on_image_eq_iff mem_Collect_eq subsetI subset_trans)
  let ?C = "take (Suc m) S" and ?I = "bucket_items (sort_key obKey (objects_of walked)) (sort (remdups (prefixes_of walked)))"
  note I = bucket_items_collected [OF assms]
  have C: "sorted (map liKey ?C)" "distinct (map liKey ?C)" "set ?C \<subseteq> set S"
    using S(1,2) by (auto simp: take_map [symmetric] sorted_wrt_take dest: in_set_takeD)
  have C_items: "bucket_items (objects_of ?C) (prefixes_of ?C) = ?C"
    using C set_S forms by (intro bucket_items_split) auto
  have "filter (\<lambda>it. after < liKey it) ?C = ?C" using C(3) set_S by (auto simp: filter_id_conv)
  moreover have "\<forall>it \<in> set ?C. liKey it \<noteq> []" using C(3) set_S ne by auto
  ultimately have "paginate (objects_of ?C) (prefixes_of ?C) after m = page_of ?C m"
    using paginate_page [of "objects_of ?C" "prefixes_of ?C" after m, unfolded C_items] by simp
  then have left: "filesystemPage walked after m = page_of ?C m"
    by (simp add: filesystemPage_def candidates_take S_def)
  have "filter (\<lambda>it. after < liKey it) ?I = S"
    using I S(1,2) set_S inj
    by (intro map_sorted_distinct_set_unique [of liKey]) (auto simp: sorted_filter distinct_map_filter inj_on_def)
  then have "paginate (fst (collectObjects walked)) (snd (collectObjects walked)) after m = page_of S m"
    using paginate_page [of "sort_key obKey (objects_of walked)" "sort (remdups (prefixes_of walked))" after m] I(1) ne
    by (simp add: collectObjects_def)
  moreover have "page_of ?C m = page_of S m" by (auto simp: page_of_def)
  ultimately show ?thesis using left by simp
qed

theorem filesystemPage_exact_witness:
  "filesystemPage [prefix_item ''b/'', object_item (no_object\<lparr>obKey := ''c''\<rparr>), prefix_item ''b/'', object_item (no_object\<lparr>obKey := ''a''\<rparr>)] [] 2 =
   \<lparr> lpObjects = [no_object\<lparr>obKey := ''a''\<rparr>], lpPrefixes = [''b/''], lpTruncated = True, lpNext = ''b/'' \<rparr>"
proof -
  let ?w = "[prefix_item ''b/'', object_item (no_object\<lparr>obKey := ''c''\<rparr>), prefix_item ''b/'', object_item (no_object\<lparr>obKey := ''a''\<rparr>)]"
  have "walk_ok ?w" by (simp add: walk_ok_def objects_of_def object_item_def prefix_item_def inj_on_def no_object_def)
  from filesystemPage_exact [OF this, of "[]" 2] show ?thesis by code_simp
qed

text \<open>Following the continuation token of each truncated page lists every object and every common
  prefix beyond the starting key exactly once, in key order, for any page size of at least one.\<close>

theorem list_bucket_complete:
  assumes "distinct (map liKey (bucket_items objects commons))" "\<forall>it \<in> set (bucket_items objects commons). liKey it \<noteq> []"
    "0 < maxKeys" "length objects + length commons < fuel"
  shows "list_bucket fuel objects commons [] maxKeys =
    (objects_of (bucket_items objects commons), prefixes_of (bucket_items objects commons))"
proof -
  have "[] < k" if "k \<noteq> []" for k :: string using that by (cases k) auto
  then have "filter (\<lambda>it. [] < liKey it) (bucket_items objects commons) = bucket_items objects commons"
    using assms(2) by (simp add: filter_id_conv)
  moreover have "length (bucket_items objects commons) = length objects + length commons" by (simp add: bucket_items_def)
  ultimately show ?thesis using list_bucket_pages [OF assms(2,1,3), of "[]" fuel] assms(4) by (simp add: Let_def)
qed

theorem list_bucket_complete_witness:
  "list_bucket 4 [no_object\<lparr>obKey := ''c''\<rparr>, no_object\<lparr>obKey := ''a''\<rparr>] [''b/''] [] 1 =
   ([no_object\<lparr>obKey := ''a''\<rparr>, no_object\<lparr>obKey := ''c''\<rparr>], [''b/''])"
proof -
  let ?os = "[no_object\<lparr>obKey := ''c''\<rparr>, no_object\<lparr>obKey := ''a''\<rparr>]"
  have "bucket_items ?os [''b/''] =
      [object_item (no_object\<lparr>obKey := ''a''\<rparr>), prefix_item ''b/'', object_item (no_object\<lparr>obKey := ''c''\<rparr>)]" by code_simp
  then show ?thesis using list_bucket_complete [of ?os "[''b/'']" 1 4]
    by (simp add: objects_of_def prefixes_of_def)
qed

end
