(* ===== verification/Breaker.thy ===== *)
theory Breaker
  imports Birak_Prelude "HOL-Library.Multiset"
begin

text \<open>
  The deletion breaker of the watcher (watcher/breaker.go): names found missing are collected in groups,
  a group is published only if it fits what is left of a budget per ten minutes, and held otherwise.
  Times are nanoseconds. What indexing a name again finds, and the failures of the node's key-value
  table, are arguments; the text of the reported fault is left out.
\<close>

section \<open>Definitions\<close>

record deletionGroup =
  dgKeep :: int
  dgNames :: "string list"
  dgSeen :: "string list"
  dgCount :: int

definition newDeletionGroup :: "int \<Rightarrow> deletionGroup" where
  "newDeletionGroup k = \<lparr> dgKeep = k, dgNames = [], dgSeen = [], dgCount = 0 \<rparr>"

definition dg_add :: "deletionGroup \<Rightarrow> string \<Rightarrow> deletionGroup" where
  "dg_add g name =
     (if name \<in> set (dgSeen g) then g
      else if int (length (dgNames g)) < dgKeep g then
        g\<lparr>dgCount := dgCount g + 1, dgSeen := name # dgSeen g, dgNames := dgNames g @ [name]\<rparr>
      else g\<lparr>dgCount := dgCount g + 1\<rparr>)"

definition dg_merge :: "deletionGroup \<Rightarrow> deletionGroup option \<Rightarrow> deletionGroup" where
  "dg_merge g other =
     (case other of
        None \<Rightarrow> g
      | Some o1 \<Rightarrow>
          let g1 = foldl dg_add g (dgNames o1)
          in g1\<lparr>dgCount := dgCount g1 + (dgCount o1 - int (length (dgNames o1)))\<rparr>)"

text \<open>A publication is its time and its count. \<open>brStored\<close> is the value persisted in the store.\<close>

type_synonym publication = "int \<times> int"

record breaker =
  brLimit :: int
  brEvents :: "deletionGroup option"
  brWindow :: "publication list"
  brLoaded :: bool
  brHeld :: int
  brStored :: "publication list"

abbreviation (input) externalDeletionWindow :: int where
  "externalDeletionWindow \<equiv> 600000000000"

definition SetMaxExternalDeletions :: "breaker \<Rightarrow> int \<Rightarrow> breaker" where
  "SetMaxExternalDeletions b limit = b\<lparr>brLimit := max 0 limit\<rparr>"

definition sweepDeletions :: "breaker \<Rightarrow> deletionGroup option" where
  "sweepDeletions b = (if brLimit b \<le> 0 then None else Some (newDeletionGroup (brLimit b)))"

definition deferEventDeletion :: "breaker \<Rightarrow> string \<Rightarrow> breaker" where
  "deferEventDeletion b name =
     b\<lparr>brEvents := Some (dg_add (case brEvents b of None \<Rightarrow> newDeletionGroup (max 1 (brLimit b)) | Some g \<Rightarrow> g) name)\<rparr>"

definition takeEventDeletions :: "breaker \<Rightarrow> deletionGroup option \<times> breaker" where
  "takeEventDeletions b = (brEvents b, b\<lparr>brEvents := None\<rparr>)"

datatype publish_error = PubCancelled | PubBusy | PubIntegrity | PubUnindexable | PubFailed string

text \<open>What happens at one name: the context is cancelled before it, or indexing it again deletes it or
  not and may fail.\<close>

datatype publish_step = StepCancelled | Step bool "publish_error option"

fun publishDeletions :: "(string \<Rightarrow> publish_step) \<Rightarrow> string list \<Rightarrow> int \<Rightarrow> int \<times> publish_error option" where
  "publishDeletions env [] published = (published, None)"
| "publishDeletions env (name # names) published =
     (case env name of
        StepCancelled \<Rightarrow> (published, Some PubCancelled)
      | Step deleted err \<Rightarrow>
          let published' = (if deleted then published + 1 else published)
          in case err of
               Some (PubFailed x) \<Rightarrow> (published', Some (PubFailed x))
             | Some PubCancelled \<Rightarrow> (published', Some PubCancelled)
             | _ \<Rightarrow> publishDeletions env names published')"

definition publishedInWindow :: "int \<Rightarrow> breaker \<Rightarrow> int \<times> breaker" where
  "publishedInWindow now b =
     (let kept = filter (\<lambda>p. fst p > now - externalDeletionWindow) (brWindow b)
      in (sum_list (map snd kept), b\<lparr>brWindow := kept\<rparr>))"

definition loadDeletionWindow :: "string option \<Rightarrow> breaker \<Rightarrow> breaker" where
  "loadDeletionWindow e b =
     (if brLoaded b then b
      else b\<lparr>brLoaded := True, brWindow := (if e \<noteq> None then [] else sort_key fst (brStored b))\<rparr>)"

definition saveDeletionWindow :: "string option \<Rightarrow> int \<Rightarrow> breaker \<Rightarrow> breaker" where
  "saveDeletionWindow e now b =
     (let b1 = snd (publishedInWindow now b)
      in if e \<noteq> None then b1 else b1\<lparr>brStored := brWindow b1\<rparr>)"

datatype settle_error = ErrHeld | ErrPublish publish_error

record settle_env =
  seLoad :: "string option"
  seSave :: "string option"
  seDecided :: int
  seRecorded :: int
  seSaved :: int
  seSteps :: "string \<Rightarrow> publish_step"

text \<open>\<open>settleDeletions\<close>; the second component is the number of deletions it published.\<close>

definition settleDeletions ::
    "settle_env \<Rightarrow> breaker \<Rightarrow> deletionGroup option \<Rightarrow> bool \<Rightarrow> settle_error option \<times> int \<times> breaker" where
  "settleDeletions env b grp authoritative =
     (let (used, b1) = publishedInWindow (seDecided env) (loadDeletionWindow (seLoad env) b);
          alreadyHeld = (brHeld b1 > 0)
      in case (if (case grp of None \<Rightarrow> True | Some g \<Rightarrow> dgCount g = 0) then None else grp) of
           None \<Rightarrow> (None, 0, if authoritative then b1\<lparr>brHeld := 0\<rparr> else b1)
         | Some g \<Rightarrow>
             if \<not> authoritative \<and> alreadyHeld then (Some ErrHeld, 0, b1)
             else if brLimit b1 > 0 \<and> dgCount g > brLimit b1 - used then
               (Some ErrHeld, 0, b1\<lparr>brHeld := dgCount g\<rparr>)
             else
               let (published, err) = publishDeletions (seSteps env) (dgNames g) 0;
                   b2 = (if published > 0
                         then saveDeletionWindow (seSave env) (seSaved env)
                                (b1\<lparr>brWindow := brWindow b1 @ [(seRecorded env, published)]\<rparr>)
                         else b1)
               in case err of
                    Some x \<Rightarrow> (Some (ErrPublish x), published, b2)
                  | None \<Rightarrow> (None, published, if authoritative then b2\<lparr>brHeld := 0\<rparr> else b2))"

definition settleEventDeletions :: "settle_env \<Rightarrow> breaker \<Rightarrow> settle_error option \<times> int \<times> breaker" where
  "settleEventDeletions env b =
     (let (grp, b1) = takeEventDeletions b
      in if (case grp of None \<Rightarrow> True | Some g \<Rightarrow> dgCount g = 0) then (None, 0, b1)
         else settleDeletions env b1 grp False)"

text \<open>A restart forgets everything but the persisted window.\<close>

definition restart_breaker :: "breaker \<Rightarrow> breaker" where
  "restart_breaker b = b\<lparr>brEvents := None, brWindow := [], brLoaded := False, brHeld := 0\<rparr>"

definition group_ok :: "deletionGroup \<Rightarrow> bool" where
  "group_ok g \<longleftrightarrow> int (length (dgNames g)) \<le> dgCount g"

text \<open>The breaker over time: \<open>hist\<close> lists every group published so far with its time, \<open>t\<close> is the time
  of the last step. The persisted window can be read and written in every step.\<close>

inductive breaker_run :: "int \<Rightarrow> breaker \<Rightarrow> int \<Rightarrow> publication list \<Rightarrow> bool" for L where
  start: "breaker_run L \<lparr> brLimit = L, brEvents = None, brWindow = [], brLoaded = False, brHeld = 0, brStored = [] \<rparr> t []"
| missing: "breaker_run L b t hist \<Longrightarrow> breaker_run L (deferEventDeletion b name) t hist"
| taken: "breaker_run L b t hist \<Longrightarrow> breaker_run L (snd (takeEventDeletions b)) t hist"
| settle: "breaker_run L b t hist \<Longrightarrow> t \<le> seDecided env \<Longrightarrow> seDecided env \<le> seRecorded env \<Longrightarrow> seRecorded env \<le> seSaved env \<Longrightarrow>
     seLoad env = None \<Longrightarrow> seSave env = None \<Longrightarrow> (case grp of None \<Rightarrow> True | Some g \<Rightarrow> group_ok g) \<Longrightarrow>
     settleDeletions env b grp authoritative = (r, n, b') \<Longrightarrow>
     breaker_run L b' (seSaved env) (if n > 0 then hist @ [(seRecorded env, n)] else hist)"
| restart: "breaker_run L b t hist \<Longrightarrow> breaker_run L (restart_breaker b) t hist"

section \<open>Lemmas\<close>

lemma group_ok_new [simp]: "group_ok (newDeletionGroup k)"
  by (simp add: group_ok_def newDeletionGroup_def)

lemma group_ok_add: "group_ok g \<Longrightarrow> group_ok (dg_add g name)"
  by (auto simp: group_ok_def dg_add_def)

lemma group_ok_merge:
  assumes "group_ok g" "group_ok o1"
  shows "group_ok (dg_merge g (Some o1))"
proof -
  have "group_ok (foldl dg_add g names)" for names
    using assms(1) by (induction names arbitrary: g) (simp_all add: group_ok_add)
  then show ?thesis using assms(2) by (simp add: dg_merge_def Let_def group_ok_def) (smt (verit, best))
qed

lemma publishDeletions_bound:
  "publishDeletions env names p = (n, err) \<Longrightarrow> p \<le> n \<and> n \<le> p + int (length names)"
proof (induction names arbitrary: p)
  case (Cons name names)
  show ?case
  proof (cases "env name")
    case (Step deleted e)
    define p' where "p' = (if deleted then p + 1 else p)"
    have "n = p' \<or> publishDeletions env names p' = (n, err)"
      using Cons.prems Step by (auto simp: p'_def Let_def split: option.splits publish_error.splits)
    then show ?thesis using Cons.IH [of p'] by (auto simp: p'_def split: if_splits)
  qed (use Cons.prems in simp)
qed simp

text \<open>The deletions of a list of publications after a time.\<close>

definition count_after :: "int \<Rightarrow> publication list \<Rightarrow> int" where
  "count_after c ps = sum_list (map snd (filter (\<lambda>p. fst p > c) ps))"

lemma count_after_append [simp]: "count_after c (ps @ qs) = count_after c ps + count_after c qs"
  by (simp add: count_after_def)

lemma count_after_filter: "d \<le> c \<Longrightarrow> count_after c (filter (\<lambda>p. fst p > d) ps) = count_after c ps"
  unfolding count_after_def filter_filter by (rule arg_cong [of _ _ "\<lambda>l. sum_list (map snd l)"], rule filter_cong) auto

lemma count_after_sort: "count_after c (sort_key fst ps) = count_after c ps"
  unfolding count_after_def sum_mset_sum_list [symmetric] by simp

lemma count_after_none: "\<forall>p \<in> set ps. fst p \<le> c \<Longrightarrow> count_after c ps = 0"
  by (simp add: count_after_def filter_False not_less)

lemma count_after_mono: "\<forall>p \<in> set ps. 0 \<le> snd p \<Longrightarrow> c \<le> d \<Longrightarrow> count_after d ps \<le> count_after c ps"
  by (induction ps) (auto simp: count_after_def)

text \<open>The window in force and the persisted one both know everything published lately.\<close>

definition breaker_inv :: "int \<Rightarrow> breaker \<Rightarrow> int \<Rightarrow> publication list \<Rightarrow> bool" where
  "breaker_inv L b t hist \<longleftrightarrow> brLimit b = L \<and> (\<forall>p \<in> set hist. fst p \<le> t \<and> 0 \<le> snd p) \<and>
     (\<forall>c \<ge> t - externalDeletionWindow. count_after c (brStored b) = count_after c hist \<and>
        (brLoaded b \<longrightarrow> count_after c (brWindow b) = count_after c hist))"

text \<open>What one decision may do.\<close>

lemma settleDeletions_cases:
  assumes "settleDeletions env b grp authoritative = (r, n, b')" "seLoad env = None" "seSave env = None"
    "case grp of None \<Rightarrow> True | Some g \<Rightarrow> group_ok g"
  defines "w \<equiv> filter (\<lambda>p. fst p > seDecided env - externalDeletionWindow) (brWindow (loadDeletionWindow None b))"
  shows "brLimit b' = brLimit b" "brLoaded b'" "0 \<le> n" "0 < brLimit b \<Longrightarrow> 0 < n \<Longrightarrow> n \<le> brLimit b - sum_list (map snd w)"
    "n = 0 \<Longrightarrow> brWindow b' = w \<and> brStored b' = brStored b"
    "0 < n \<Longrightarrow> brWindow b' = filter (\<lambda>p. fst p > seSaved env - externalDeletionWindow) (w @ [(seRecorded env, n)]) \<and>
       brStored b' = brWindow b'"
proof -
  define b1 where "b1 = (loadDeletionWindow None b)\<lparr>brWindow := w\<rparr>"
  have b1: "publishedInWindow (seDecided env) (loadDeletionWindow None b) = (sum_list (map snd w), b1)"
    by (simp add: publishedInWindow_def w_def b1_def Let_def)
  have f1: "brLimit b1 = brLimit b" "brLoaded b1" "brWindow b1 = w" "brStored b1 = brStored b"
    by (simp_all add: b1_def loadDeletionWindow_def)
  have n0: "n = 0 \<and> brLimit b' = brLimit b1 \<and> brLoaded b' = brLoaded b1 \<and> brWindow b' = w \<and> brStored b' = brStored b \<or>
    (\<exists>g err. grp = Some g \<and> publishDeletions (seSteps env) (dgNames g) 0 = (n, err) \<and> 0 < n \<and>
       (0 < brLimit b \<longrightarrow> dgCount g \<le> brLimit b - sum_list (map snd w)) \<and>
       (let b2 = saveDeletionWindow None (seSaved env) (b1\<lparr>brWindow := w @ [(seRecorded env, n)]\<rparr>)
        in brLimit b' = brLimit b2 \<and> brLoaded b' = brLoaded b2 \<and> brWindow b' = brWindow b2 \<and> brStored b' = brStored b2))"
  proof (cases "case grp of None \<Rightarrow> True | Some g \<Rightarrow> dgCount g = 0")
    case True
    then show ?thesis using assms(1-3) b1 f1 by (auto simp: settleDeletions_def)
  next
    case False
    then obtain g where g: "grp = Some g" "dgCount g \<noteq> 0" by (auto split: option.splits)
    obtain p err where p: "publishDeletions (seSteps env) (dgNames g) 0 = (p, err)" by fastforce
    have "0 \<le> p" using publishDeletions_bound [OF p] by simp
    then show ?thesis using assms(1-3) b1 f1 g p
      by (cases err) (auto simp: settleDeletions_def Let_def split: if_splits)
  qed
  have bound: "n \<le> dgCount g" "0 \<le> n" if "grp = Some g" "publishDeletions (seSteps env) (dgNames g) 0 = (n, err)" for g err
    using publishDeletions_bound [OF that(2)] assms(4) that(1) by (auto simp: group_ok_def)
  show "brLimit b' = brLimit b" "brLoaded b'" "0 \<le> n" "0 < brLimit b \<Longrightarrow> 0 < n \<Longrightarrow> n \<le> brLimit b - sum_list (map snd w)"
    "n = 0 \<Longrightarrow> brWindow b' = w \<and> brStored b' = brStored b"
    "0 < n \<Longrightarrow> brWindow b' = filter (\<lambda>p. fst p > seSaved env - externalDeletionWindow) (w @ [(seRecorded env, n)]) \<and>
       brStored b' = brWindow b'"
    using n0 f1 by (fastforce simp: saveDeletionWindow_def publishedInWindow_def Let_def dest: bound)+
qed

lemma sum_window: "sum_list (map snd (filter (\<lambda>p. fst p > c) ps)) = count_after c ps"
  by (simp add: count_after_def)

lemma settle_inv:
  assumes "breaker_inv L b t hist" "t \<le> seDecided env" "seDecided env \<le> seRecorded env" "seRecorded env \<le> seSaved env"
    "seLoad env = None" "seSave env = None" "case grp of None \<Rightarrow> True | Some g \<Rightarrow> group_ok g"
    "settleDeletions env b grp authoritative = (r, n, b')"
  shows "breaker_inv L b' (seSaved env) (if n > 0 then hist @ [(seRecorded env, n)] else hist)"
    "0 < L \<Longrightarrow> 0 < n \<Longrightarrow> n \<le> L - count_after (seDecided env - externalDeletionWindow) hist"
proof -
  define d where "d = seDecided env - externalDeletionWindow"
  define w where "w = filter (\<lambda>p. fst p > d) (brWindow (loadDeletionWindow None b))"
  note cs = settleDeletions_cases [OF assms(8,5,6,7), folded d_def, folded w_def]
  have inv: "brLimit b = L" "\<forall>p \<in> set hist. fst p \<le> t \<and> 0 \<le> snd p"
    "\<And>c. t - externalDeletionWindow \<le> c \<Longrightarrow> count_after c (brStored b) = count_after c hist"
    "\<And>c. t - externalDeletionWindow \<le> c \<Longrightarrow> brLoaded b \<Longrightarrow> count_after c (brWindow b) = count_after c hist"
    using assms(1) by (simp_all add: breaker_inv_def)
  have td: "t - externalDeletionWindow \<le> d" using assms(2) by (simp add: d_def)
  have w: "count_after c w = count_after c hist" if "d \<le> c" for c
  proof -
    have "count_after c w = count_after c (brWindow (loadDeletionWindow None b))"
      unfolding w_def by (rule count_after_filter [OF that])
    also have "\<dots> = count_after c hist"
      using inv(3,4) [of c] that td by (simp add: loadDeletionWindow_def count_after_sort)
    finally show ?thesis .
  qed
  show "n \<le> L - count_after (seDecided env - externalDeletionWindow) hist" if "0 < L" "0 < n"
    using cs(4) that inv(1) w [of d] sum_window [of d "brWindow (loadDeletionWindow None b)"] count_after_filter [of d d]
    by (simp add: w_def d_def)
  have later: "d \<le> c" if "seSaved env - externalDeletionWindow \<le> c" for c using that assms(3,4) by (simp add: d_def)
  show "breaker_inv L b' (seSaved env) (if n > 0 then hist @ [(seRecorded env, n)] else hist)"
  proof (cases "n > 0")
    case True
    have "count_after c (brWindow b') = count_after c (hist @ [(seRecorded env, n)])"
      if "seSaved env - externalDeletionWindow \<le> c" for c
      using cs(6) [OF True] count_after_filter [OF that, of "w @ [(seRecorded env, n)]"] w [OF later [OF that]] by simp
    then show ?thesis using True cs(1,2) cs(6) [OF True] inv(1,2) assms(2-4)
      by (auto simp: breaker_inv_def intro: order_trans)
  next
    case False
    then have "brWindow b' = w" "brStored b' = brStored b" using cs(3,5) by auto
    then show ?thesis using False cs(1) inv(1,2,3) w later td assms(2-4)
      by (auto simp: breaker_inv_def intro: order_trans)
  qed
qed

text \<open>No ten minutes saw more than the limit.\<close>

definition within_budget :: "int \<Rightarrow> publication list \<Rightarrow> bool" where
  "within_budget L hist \<longleftrightarrow>
     (\<forall>T. sum_list (map snd (filter (\<lambda>p. T - externalDeletionWindow < fst p \<and> fst p \<le> T) hist)) \<le> L)"

lemma between_le_after:
  "\<forall>p \<in> set ps. 0 \<le> snd p \<Longrightarrow> sum_list (map snd (filter (\<lambda>p. c < fst p \<and> fst p \<le> T) ps)) \<le> count_after c ps" for ps :: "publication list"
  by (induction ps) (auto simp: count_after_def)

lemma within_budget_append:
  assumes "within_budget L hist" "\<forall>p \<in> set hist. 0 \<le> snd p" "d \<le> a" "n \<le> L - count_after (d - externalDeletionWindow) hist"
  shows "within_budget L (hist @ [(a, n)])"
  unfolding within_budget_def
proof
  fix T
  let ?in = "\<lambda>p :: publication. T - externalDeletionWindow < fst p \<and> fst p \<le> T"
  show "sum_list (map snd (filter ?in (hist @ [(a, n)]))) \<le> L"
  proof (cases "?in (a, n)")
    case False
    then show ?thesis using assms(1) by (auto simp: within_budget_def)
  next
    case True
    then have "d - externalDeletionWindow \<le> T - externalDeletionWindow" using assms(3) by simp
    then have "sum_list (map snd (filter ?in hist)) \<le> count_after (d - externalDeletionWindow) hist"
      using between_le_after [OF assms(2), of "T - externalDeletionWindow" T]
        count_after_mono [OF assms(2), of "d - externalDeletionWindow" "T - externalDeletionWindow"] by linarith
    then show ?thesis using True assms(4) by simp
  qed
qed

lemma breaker_run_inv: "breaker_run L b t hist \<Longrightarrow> 0 < L \<Longrightarrow> breaker_inv L b t hist \<and> within_budget L hist"
proof (induction rule: breaker_run.induct)
  case (settle b t hist env grp authoritative r n b')
  note inv = settle_inv [OF conjunct1 [OF settle.IH [OF settle.prems]] settle.hyps(2-8)]
  have "\<forall>p \<in> set hist. 0 \<le> snd p" using settle.IH [OF settle.prems] by (auto simp: breaker_inv_def)
  then show ?case
    using inv settle.IH [OF settle.prems] settle.prems settle.hyps(3) within_budget_append [of L hist "seDecided env" "seRecorded env" n]
    by auto
qed (auto simp: breaker_inv_def within_budget_def deferEventDeletion_def takeEventDeletions_def restart_breaker_def
    count_after_def)

section \<open>Properties\<close>


definition demo_breaker :: breaker where
  "demo_breaker = \<lparr> brLimit = 3, brEvents = None, brWindow = [], brLoaded = False, brHeld = 0, brStored = [] \<rparr>"

definition demo_settle :: settle_env where
  "demo_settle = \<lparr> seLoad = None, seSave = None, seDecided = 10, seRecorded = 11, seSaved = 12, seSteps = (\<lambda>_. Step True None) \<rparr>"

definition demo_missing :: deletionGroup where
  "demo_missing = dg_add (dg_add (newDeletionGroup 3) ''a'') ''b''"


text \<open>A group that does not fit is held as a whole: nothing of it is published, the node reports
  the hold, and the event path cannot publish around it; only a complete sweep decides again.\<close>

theorem settleDeletions_holds:
  assumes "settleDeletions env b (Some g) authoritative = (r, n, b')" "0 < brLimit b" "dgCount g \<noteq> 0"
    "dgCount g > brLimit b - fst (publishedInWindow (seDecided env) (loadDeletionWindow (seLoad env) b))"
  shows "r = Some ErrHeld \<and> n = 0 \<and> (authoritative \<or> brHeld b \<le> 0 \<longrightarrow> brHeld b' = dgCount g)"
  using assms by (auto simp: settleDeletions_def publishedInWindow_def loadDeletionWindow_def Let_def split: if_splits)

theorem settleDeletions_holds_witness:
  "fst (snd (settleDeletions demo_settle (SetMaxExternalDeletions demo_breaker 1) (Some demo_missing) True)) = 0"
proof -
  let ?b = "SetMaxExternalDeletions demo_breaker 1"
  let ?out = "settleDeletions demo_settle ?b (Some demo_missing) True"
  have "0 < brLimit ?b" "dgCount demo_missing \<noteq> 0"
    "dgCount demo_missing > brLimit ?b - fst (publishedInWindow (seDecided demo_settle) (loadDeletionWindow (seLoad demo_settle) ?b))"
    by code_simp+
  then show ?thesis
    using settleDeletions_holds [of demo_settle ?b demo_missing True "fst ?out" "fst (snd ?out)" "snd (snd ?out)"] by simp
qed

end
