(* ===== verification/Multipart.thy ===== *)
theory Multipart
  imports Namespace_Rules
begin

text \<open>
  The staging store of multipart uploads (internal/multipart/multipart.go and completion.go). An upload
  is a directory of the staging area holding a descriptor and one file per staged part; the file name
  carries the part number and the MD5 of its bytes. The store is a value with the staging area, the
  completion records, the objects of the served tree and the number of part uploads in flight; every
  operation is a function from a store and an environment, which says what the file system reported, to
  a result and the store it leaves, whether it failed or not.

  MD5 and SHA-256 are parameters. The JSON files hold the values they encode. Times are nanoseconds.
\<close>

section \<open>Definitions\<close>

datatype mp_error =
    ErrNoSuchUpload | ErrInvalidPartNumber | ErrInvalidPart | ErrInvalidPartOrder | ErrEmptyPartList
  | ErrPartTooSmall | ErrPartTooLarge | ErrObjectTooLarge | ErrTooManyUploads | ErrPartsBusy | ErrBadDigest
  | ErrContentSHA256Mismatch | ErrCorruptPart | MpIO string | MpDest string | MpRefused string

datatype os_error = OsNotExist | OsOther string

subsection \<open>Limits\<close>

record Limits =
  MinPartBytes :: int
  MaxPartBytes :: int
  MaxParts :: int
  MaxObjectBytes :: int
  MaxActiveUploads :: int
  MaxConcurrentParts :: int
  UploadTTL :: int
  CleanupInterval :: int
  TempFileMaxAge :: int

definition withDefaults :: "Limits \<Rightarrow> Limits" where
  "withDefaults l0 =
     (let l1 = (if MinPartBytes l0 \<le> 0 then l0\<lparr>MinPartBytes := 5 * 1024 * 1024\<rparr> else l0);
          l2 = (if MaxPartBytes l1 \<le> 0 then l1\<lparr>MaxPartBytes := 5 * 1024 * 1024 * 1024\<rparr> else l1);
          l3 = (if MaxParts l2 \<le> 0 then l2\<lparr>MaxParts := 10000\<rparr> else l2);
          l4 = (if MaxActiveUploads l3 < 0 then l3\<lparr>MaxActiveUploads := 0\<rparr> else l3);
          l5 = (if UploadTTL l4 \<le> 0 then l4\<lparr>UploadTTL := 7 * 24 * 3600 * 1000000000\<rparr> else l4);
          l6 = (if CleanupInterval l5 \<le> 0 then l5\<lparr>CleanupInterval := 3600 * 1000000000\<rparr> else l5)
      in if TempFileMaxAge l6 \<le> 0 then l6\<lparr>TempFileMaxAge := 24 * 3600 * 1000000000\<rparr> else l6)"

subsection \<open>Data\<close>

record Upload =
  upID :: string
  upBucket :: string
  upKey :: string
  upInitiated :: int

record Part =
  ptNumber :: int
  ptSize :: int
  ptETag :: string
  ptLastModified :: int

record Checksums =
  ckContentMD5 :: string
  ckContentSHA256 :: string

record CompletePart =
  cpNumber :: int
  cpETag :: string

record object_stat =
  osSize :: int
  osModTime :: int
  osRegular :: bool

record CompleteResult =
  reBucket :: string
  reKey :: string
  reETag :: string
  reSize :: int
  reParts :: int
  reInfo :: object_stat
  reRepeated :: bool

record completion =
  cmUploadID :: string
  cmBucket :: string
  cmKey :: string
  cmDest :: string
  cmParts :: string
  cmPartCount :: int
  cmETag :: string
  cmSize :: int
  cmModTime :: int

text \<open>The files below an upload directory, the entries of the staging area, the completion records
  and the objects of the served tree. A descriptor that cannot be parsed is an \<open>Inl\<close>.\<close>

record staged_file =
  sfName :: string
  sfData :: string
  sfModTime :: int
  sfIsDir :: bool

record staging_entry =
  seName :: string
  seIsDir :: bool
  seModTime :: int
  seMeta :: "((string, Upload) result \<times> int) option"
  seFiles :: "staged_file list"

record completion_file =
  cfID :: string
  cfRecord :: "(string, completion) result"
  cfModTime :: int

record object_file =
  ofPath :: string
  ofData :: string
  ofModTime :: int
  ofRegular :: bool

record mp_store =
  mpRoot :: string
  mpLimits :: Limits
  mpStaging :: "staging_entry list"
  mpCompleted :: "completion_file list"
  mpObjects :: "object_file list"
  mpInFlight :: int

subsection \<open>Identifiers and names\<close>

definition isLowerHex :: "string \<Rightarrow> nat \<Rightarrow> bool" where
  "isLowerHex s n \<longleftrightarrow> length s = n \<and> list_all is_lower_hex s"

definition ValidUploadID :: "string \<Rightarrow> bool" where
  "ValidUploadID s \<longleftrightarrow> length s = 32 \<and> list_all is_lower_hex s"

definition isHexMD5 :: "string \<Rightarrow> bool" where
  "isHexMD5 s \<longleftrightarrow> isLowerHex s 32"

definition normalizeHex :: "string \<Rightarrow> string" where
  "normalizeHex s = ToLower (TrimSpace s)"

definition declaresSHA256 :: "string \<Rightarrow> bool" where
  "declaresSHA256 s \<longleftrightarrow> isLowerHex (normalizeHex s) 64"

text \<open>\<open>%05d\<close>: zeros up to a width of five, sign included.\<close>

definition pad5 :: "int \<Rightarrow> string" where
  "pad5 n =
     (if n < 0 then CHR ''-'' # replicate (4 - length (FormatNat (nat (- n)))) (CHR ''0'') @ FormatNat (nat (- n))
      else replicate (5 - length (FormatNat (nat n))) (CHR ''0'') @ FormatNat (nat n))"

definition partPrefix :: string where
  "partPrefix = ''part-''"

definition partFileName :: "int \<Rightarrow> string \<Rightarrow> string" where
  "partFileName number md5hex = partPrefix @ pad5 number @ ''-'' @ md5hex"

definition parsePartFileName :: "string \<Rightarrow> (int \<times> string) option" where
  "parsePartFileName name =
     (if \<not> HasPrefix name partPrefix then None
      else case Cut (drop (length partPrefix) name) (CHR ''-'') of
             None \<Rightarrow> None
           | Some (numStr, digest) \<Rightarrow>
               if length numStr \<noteq> 5 \<or> \<not> isHexMD5 digest then None
               else case ParseInt numStr of
                      None \<Rightarrow> None
                    | Some n \<Rightarrow> if n < 1 then None else Some (n, digest))"

definition etagMatches :: "string \<Rightarrow> string \<Rightarrow> bool" where
  "etagMatches clientETag digest =
     EqualFold (TrimChar (CHR 0x22) (TrimPrefix (TrimSpace clientETag) ''W/'')) digest"

text \<open>\<open>base64.StdEncoding.DecodeString\<close>: line breaks are skipped, padding is required, the bits
  below a padded group are not looked at.\<close>

definition base64_digit :: "char \<Rightarrow> nat option" where
  "base64_digit c =
     (let n = (of_char c :: nat)
      in if 65 \<le> n \<and> n \<le> 90 then Some (n - 65)
         else if 97 \<le> n \<and> n \<le> 122 then Some (n - 71)
         else if 48 \<le> n \<and> n \<le> 57 then Some (n + 4)
         else if n = 43 then Some 62 else if n = 47 then Some 63 else None)"

fun base64_groups :: "string \<Rightarrow> string option" where
  "base64_groups [] = Some []"
| "base64_groups (a # b # c # d # rest) =
     (case (base64_digit a, base64_digit b) of
        (Some x, Some y) \<Rightarrow>
          if c = CHR ''='' then
            (if d = CHR ''='' \<and> rest = [] then Some [char_of (x * 4 + y div 16)] else None)
          else (case base64_digit c of
                  None \<Rightarrow> None
                | Some z \<Rightarrow>
                    if d = CHR ''='' then
                      (if rest = [] then Some [char_of (x * 4 + y div 16), char_of (y mod 16 * 16 + z div 4)] else None)
                    else (case base64_digit d of
                            None \<Rightarrow> None
                          | Some w \<Rightarrow>
                              map_option (\<lambda>r. char_of (x * 4 + y div 16) # char_of (y mod 16 * 16 + z div 4) #
                                              char_of (z mod 4 * 64 + w) # r) (base64_groups rest)))
      | _ \<Rightarrow> None)"
| "base64_groups _ = None"

definition base64_DecodeString :: "string \<Rightarrow> string option" where
  "base64_DecodeString s = base64_groups (filter (\<lambda>c. c \<noteq> CHR 0x0A \<and> c \<noteq> CHR 0x0D) s)"

subsection \<open>Descriptors and the upload lifecycle\<close>

text \<open>\<open>eRead\<close> is an error of the file system other than a missing file.\<close>

definition readMeta :: "string option \<Rightarrow> mp_store \<Rightarrow> string \<Rightarrow> (mp_error, Upload) result" where
  "readMeta eRead s ident =
     (if \<not> ValidUploadID ident then Inl ErrNoSuchUpload
      else case eRead of
        Some x \<Rightarrow> Inl (MpIO x)
      | None \<Rightarrow>
          case row_of seName (mpStaging s) ident of
            None \<Rightarrow> Inl ErrNoSuchUpload
          | Some d \<Rightarrow>
              if \<not> seIsDir d then Inl (MpIO ''not a directory'')
              else case seMeta d of
                     None \<Rightarrow> Inl ErrNoSuchUpload
                   | Some (Inl x, _) \<Rightarrow> Inl (MpIO x)
                   | Some (Inr up, _) \<Rightarrow> if upID up \<noteq> ident then Inl ErrNoSuchUpload else Inr up)"

text \<open>\<open>rnd\<close> is what \<open>rand.Read\<close> delivered: sixteen bytes or an error.\<close>

definition newUploadID :: "(string, string) result \<Rightarrow> (string, string) result" where
  "newUploadID rnd = result_bind rnd (\<lambda>b. Inr (hex_lower b))"

definition countUploads :: "mp_store \<Rightarrow> int" where
  "countUploads s = int (length (filter (\<lambda>d. seIsDir d \<and> ValidUploadID (seName d)) (mpStaging s)))"

text \<open>What a removal of a staging entry leaves: nothing was touched, some of the files went, or the
  entry is gone although the directory was not flushed.\<close>

datatype remove_outcome =
    Removed
  | RemoveRefused string
  | RemovePartly string "string list" bool
  | RemoveUnsynced string

definition strip_entry :: "string list \<Rightarrow> bool \<Rightarrow> staging_entry \<Rightarrow> staging_entry" where
  "strip_entry names meta d =
     d\<lparr>seFiles := filter (\<lambda>f. sfName f \<notin> set names) (seFiles d), seMeta := (if meta then None else seMeta d)\<rparr>"

definition removeStagingEntry ::
    "remove_outcome \<Rightarrow> mp_store \<Rightarrow> string \<Rightarrow> (mp_error, unit) result \<times> mp_store" where
  "removeStagingEntry out s name =
     (case out of
        Removed \<Rightarrow> (Inr (), s\<lparr>mpStaging := delete_key seName name (mpStaging s)\<rparr>)
      | RemoveRefused x \<Rightarrow> (Inl (MpIO x), s)
      | RemovePartly x names meta \<Rightarrow>
          (Inl (MpIO x), s\<lparr>mpStaging := map (\<lambda>d. if seName d = name then strip_entry names meta d else d) (mpStaging s)\<rparr>)
      | RemoveUnsynced x \<Rightarrow> (Inl (MpIO x), s\<lparr>mpStaging := delete_key seName name (mpStaging s)\<rparr>))"

record create_env =
  ceCount :: "string option"
  ceRand :: "(string, string) result"
  ceNow :: int
  ceFence :: "string option"
  ceMkdir :: "string option"
  ceMeta :: "(string \<times> bool) option"
  ceSync :: "string option"
  ceCleanup :: remove_outcome

text \<open>\<open>ceMeta\<close> says whether the descriptor was renamed into place before its write failed.\<close>

definition Create :: "create_env \<Rightarrow> mp_store \<Rightarrow> string \<Rightarrow> string \<Rightarrow> (mp_error, Upload) result \<times> mp_store" where
  "Create env s bucket key =
     (let capped = MaxActiveUploads (mpLimits s) > 0
      in if capped \<and> ceCount env \<noteq> None then (Inl (MpIO (the (ceCount env))), s)
         else if capped \<and> countUploads s \<ge> MaxActiveUploads (mpLimits s) then (Inl ErrTooManyUploads, s)
         else case newUploadID (ceRand env) of
           Inl x \<Rightarrow> (Inl (MpIO x), s)
         | Inr ident \<Rightarrow>
             let up = \<lparr> upID = ident, upBucket = bucket, upKey = key,
                        upInitiated = ceNow env div 1000000 * 1000000 \<rparr>;
                 with_meta = (\<lambda>m. s\<lparr>mpStaging := upsert seName
                    \<lparr> seName = ident, seIsDir = True, seModTime = ceNow env, seMeta = m, seFiles = [] \<rparr> (mpStaging s)\<rparr>);
                 undo = (\<lambda>x s1. (Inl (MpIO x), snd (removeStagingEntry (ceCleanup env) s1 ident)))
             in case ceFence env of
                  Some x \<Rightarrow> (Inl (MpIO x), s)
                | None \<Rightarrow>
                    if row_of seName (mpStaging s) ident \<noteq> None then (Inl (MpIO ''file exists''), s)
                    else case ceMkdir env of
                      Some x \<Rightarrow> (Inl (MpIO x), s)
                    | None \<Rightarrow>
                        case ceMeta env of
                          Some (x, renamed) \<Rightarrow> undo x (with_meta (if renamed then Some (Inr up, ceNow env) else None))
                        | None \<Rightarrow>
                            case ceSync env of
                              Some x \<Rightarrow> undo x (with_meta (Some (Inr up, ceNow env)))
                            | None \<Rightarrow> (Inr up, with_meta (Some (Inr up, ceNow env))))"

definition Abort :: "string option \<Rightarrow> remove_outcome \<Rightarrow> mp_store \<Rightarrow> string \<Rightarrow> (mp_error, unit) result \<times> mp_store" where
  "Abort eRead out s ident =
     (if \<not> ValidUploadID ident then (Inl ErrNoSuchUpload, s)
      else case readMeta eRead s ident of
        Inl x \<Rightarrow> (Inl x, s)
      | Inr _ \<Rightarrow> removeStagingEntry out s ident)"

subsection \<open>Parts\<close>

record part_env =
  wpBody :: string
  wpReadErr :: "string option"
  wpWriteErr :: "string option"
  wpSyncErr :: "string option"
  wpCloseErr :: "string option"
  wpMeta1 :: "string option"
  wpCreate :: "os_error option"
  wpMeta2 :: "string option"
  wpFence :: "string option"
  wpStat :: "string option"
  wpRename :: "string option"
  wpSync1 :: "string option"
  wpUndo :: "string option"
  wpReadDir :: "string option"
  wpRemove :: "string \<Rightarrow> string option"
  wpSync2 :: "string option"
  wpModTime :: int
  wpNow :: int

text \<open>The checks before the body is read; a slot of the part semaphore is taken last.\<close>

definition part_admit ::
    "mp_store \<Rightarrow> string \<Rightarrow> int \<Rightarrow> Checksums \<Rightarrow> (mp_error, string option \<times> bool) result" where
  "part_admit s uploadID number checks =
     (if \<not> ValidUploadID uploadID then Inl ErrNoSuchUpload
      else if number < 1 \<or> number > MaxParts (mpLimits s) then Inl ErrInvalidPartNumber
      else
        let wanted = (if ckContentMD5 checks = [] then Some None
                      else case base64_DecodeString (TrimSpace (ckContentMD5 checks)) of
                             None \<Rightarrow> None
                           | Some d \<Rightarrow> if length d \<noteq> 16 then None else Some (Some d))
        in case wanted of
             None \<Rightarrow> Inl ErrBadDigest
           | Some wantMD5 \<Rightarrow>
               if MaxConcurrentParts (mpLimits s) > 0 then
                 (if mpInFlight s < MaxConcurrentParts (mpLimits s) then Inr (wantMD5, True) else Inl ErrPartsBusy)
               else Inr (wantMD5, False))"

text \<open>\<open>io.LimitReader(body, n)\<close> read to its end: a body of at least \<open>n\<close> bytes is cut there and its
  error is not met.\<close>

definition limit_read :: "int \<Rightarrow> string \<Rightarrow> string option \<Rightarrow> string \<times> string option" where
  "limit_read n body readErr =
     (if int (length body) \<ge> n then (take (nat n) body, None) else (body, readErr))"

text \<open>The body is copied, hashed and checked against the digests the client declared.\<close>

definition part_receive ::
    "(string \<Rightarrow> string) \<Rightarrow> (string \<Rightarrow> string) \<Rightarrow> part_env \<Rightarrow> Limits \<Rightarrow> string option \<Rightarrow> Checksums
     \<Rightarrow> (mp_error, string) result" where
  "part_receive md5 sha256_hex env limits wantMD5 checks =
     (let (data, readErr) = limit_read (wrap64 (MaxPartBytes limits + 1)) (wpBody env) (wpReadErr env);
          copyErr = (case wpWriteErr env of Some x \<Rightarrow> Some x | None \<Rightarrow> readErr)
      in case copyErr of
           Some x \<Rightarrow> Inl (MpIO x)
         | None \<Rightarrow>
             if int (length data) > MaxPartBytes limits then Inl ErrPartTooLarge
             else case (case wpSyncErr env of Some x \<Rightarrow> Some x | None \<Rightarrow> wpCloseErr env) of
               Some x \<Rightarrow> Inl (MpIO x)
             | None \<Rightarrow>
                 if wantMD5 \<noteq> None \<and> the wantMD5 \<noteq> md5 data then Inl ErrBadDigest
                 else if declaresSHA256 (ckContentSHA256 checks) \<and>
                         sha256_hex data \<noteq> normalizeHex (ckContentSHA256 checks) then Inl ErrContentSHA256Mismatch
                 else Inr data)"

fun remove_files :: "(string \<Rightarrow> string option) \<Rightarrow> (staged_file \<Rightarrow> bool) \<Rightarrow> staged_file list \<Rightarrow> string option \<times> staged_file list" where
  "remove_files err skip [] = (None, [])"
| "remove_files err skip (f # fs) =
     (if skip f then (let (e, r) = remove_files err skip fs in (e, f # r))
      else case err (sfName f) of
             Some x \<Rightarrow> (Some x, f # fs)
           | None \<Rightarrow> remove_files err skip fs)"

definition other_part :: "int \<Rightarrow> string \<Rightarrow> staged_file \<Rightarrow> bool" where
  "other_part number keepDigest f \<longleftrightarrow>
     (case parsePartFileName (sfName f) of None \<Rightarrow> False | Some (n, digest) \<Rightarrow> n = number \<and> digest \<noteq> keepDigest)"

definition removeSupersededParts ::
    "string option \<Rightarrow> (string \<Rightarrow> string option) \<Rightarrow> staging_entry \<Rightarrow> int \<Rightarrow> string \<Rightarrow> string option \<times> staging_entry" where
  "removeSupersededParts eDir err d number keepDigest =
     (case eDir of
        Some x \<Rightarrow> (Some x, d)
      | None \<Rightarrow>
          let (e, fs) = remove_files err (\<lambda>f. \<not> other_part number keepDigest f) (seFiles d)
          in (e, d\<lparr>seFiles := fs\<rparr>))"

text \<open>Publication of a received part, under the lock of its upload. \<open>publish_file\<close> is the rename and
  what follows it, on the directory of the upload.\<close>

definition publish_file ::
    "part_env \<Rightarrow> staging_entry \<Rightarrow> int \<Rightarrow> string \<Rightarrow> string \<Rightarrow> string option \<times> staging_entry" where
  "publish_file env d number digest data =
     (let fin = partFileName number digest;
          existed = (fin \<in> sfName ` set (seFiles d));
          d1 = d\<lparr>seFiles := upsert sfName \<lparr> sfName = fin, sfData = data, sfModTime = wpModTime env, sfIsDir = False \<rparr> (seFiles d),
                 seModTime := wpNow env\<rparr>
      in if wpStat env \<noteq> None then (wpStat env, d)
         else if wpRename env \<noteq> None then (wpRename env, d)
         else if wpSync1 env \<noteq> None then
           (wpSync1 env, if existed \<or> wpUndo env \<noteq> None then d1 else d1\<lparr>seFiles := delete_key sfName fin (seFiles d1)\<rparr>)
         else
           let (e, d2) = removeSupersededParts (wpReadDir env) (wpRemove env) d1 number digest
           in case e of Some x \<Rightarrow> (Some x, d2) | None \<Rightarrow> (wpSync2 env, d2))"

definition part_publish ::
    "(string \<Rightarrow> string) \<Rightarrow> part_env \<Rightarrow> mp_store \<Rightarrow> string \<Rightarrow> int \<Rightarrow> string \<Rightarrow> (mp_error, Part) result \<times> mp_store" where
  "part_publish md5 env s uploadID number data =
     (case readMeta (wpMeta2 env) s uploadID of
        Inl x \<Rightarrow> (Inl x, s)
      | Inr _ \<Rightarrow>
          case row_of seName (mpStaging s) uploadID of
            None \<Rightarrow> (Inl ErrNoSuchUpload, s)
          | Some d \<Rightarrow>
              case wpFence env of
                Some x \<Rightarrow> (Inl (MpIO x), s)
              | None \<Rightarrow>
                  let digest = hex_lower (md5 data);
                      (e, d1) = publish_file env d number digest data;
                      s1 = s\<lparr>mpStaging := upsert seName d1 (mpStaging s)\<rparr>
                  in case e of
                       Some x \<Rightarrow> (Inl (MpIO x), s1)
                     | None \<Rightarrow> (Inr \<lparr> ptNumber = number, ptSize = int (length data), ptETag = digest,
                                      ptLastModified = wpModTime env \<rparr>, s1))"

text \<open>The whole of \<open>WritePart\<close>; \<open>others\<close> is what other requests did to the store while the body was
  being received, outside the lock.\<close>

definition WritePart ::
    "(string \<Rightarrow> string) \<Rightarrow> (string \<Rightarrow> string) \<Rightarrow> part_env \<Rightarrow> (mp_store \<Rightarrow> mp_store) \<Rightarrow> mp_store
     \<Rightarrow> string \<Rightarrow> int \<Rightarrow> Checksums \<Rightarrow> (mp_error, Part) result \<times> mp_store" where
  "WritePart md5 sha256_hex env others s uploadID number checks =
     (case part_admit s uploadID number checks of
        Inl x \<Rightarrow> (Inl x, s)
      | Inr (wantMD5, slot) \<Rightarrow>
          let taken = (\<lambda>n t. t\<lparr>mpInFlight := mpInFlight t + (if slot then n else 0)\<rparr>);
              s1 = taken 1 s
          in case readMeta (wpMeta1 env) s1 uploadID of
               Inl x \<Rightarrow> (Inl x, taken (- 1) s1)
             | Inr _ \<Rightarrow>
                 case wpCreate env of
                   Some OsNotExist \<Rightarrow> (Inl ErrNoSuchUpload, taken (- 1) s1)
                 | Some (OsOther x) \<Rightarrow> (Inl (MpIO x), taken (- 1) s1)
                 | None \<Rightarrow>
                     let s2 = others s1
                     in case part_receive md5 sha256_hex env (mpLimits s1) wantMD5 checks of
                          Inl x \<Rightarrow> (Inl x, taken (- 1) s2)
                        | Inr data \<Rightarrow>
                            let (r, s3) = part_publish md5 env s2 uploadID number data
                            in (r, taken (- 1) s3))"

definition part_of :: "staged_file \<Rightarrow> Part option" where
  "part_of f =
     (if sfIsDir f then None
      else case parsePartFileName (sfName f) of
             None \<Rightarrow> None
           | Some (number, digest) \<Rightarrow>
               Some \<lparr> ptNumber = number, ptSize = int (length (sfData f)), ptETag = digest, ptLastModified = sfModTime f \<rparr>)"

definition newer_part :: "Part option \<Rightarrow> Part \<Rightarrow> bool" where
  "newer_part current candidate =
     (case current of
        None \<Rightarrow> True
      | Some p \<Rightarrow> ptLastModified candidate > ptLastModified p \<or>
                  ptLastModified candidate = ptLastModified p \<and> ptETag candidate > ptETag p)"

definition collect_part :: "Part list \<Rightarrow> staged_file \<Rightarrow> Part list" where
  "collect_part byNumber f =
     (case part_of f of
        None \<Rightarrow> byNumber
      | Some c \<Rightarrow> if newer_part (row_of ptNumber byNumber (ptNumber c)) c then upsert ptNumber c byNumber else byNumber)"

definition parts_of :: "staged_file list \<Rightarrow> Part list" where
  "parts_of fs = sort_key ptNumber (foldl collect_part [] fs)"

definition stagedParts :: "string option \<Rightarrow> mp_store \<Rightarrow> string \<Rightarrow> (mp_error, Part list) result" where
  "stagedParts eDir s ident =
     (case eDir of
        Some x \<Rightarrow> Inl (MpIO x)
      | None \<Rightarrow>
          case row_of seName (mpStaging s) ident of
            None \<Rightarrow> Inl ErrNoSuchUpload
          | Some d \<Rightarrow> if \<not> seIsDir d then Inl (MpIO ''not a directory'') else Inr (parts_of (seFiles d)))"

definition ListParts ::
    "string option \<Rightarrow> string option \<Rightarrow> mp_store \<Rightarrow> string \<Rightarrow> int \<Rightarrow> int \<Rightarrow> (mp_error, Part list \<times> bool \<times> int) result" where
  "ListParts eRead eDir s ident numberMarker maxParts =
     result_bind (readMeta eRead s ident) (\<lambda>_.
     result_bind (stagedParts eDir s ident) (\<lambda>all_parts.
       let filtered = filter (\<lambda>p. ptNumber p > numberMarker) all_parts
       in if maxParts > 0 \<and> int (length filtered) > maxParts then
            (let page = take (nat maxParts) filtered in Inr (page, True, ptNumber (last page)))
          else Inr (filtered, False, 0)))"

text \<open>Uploads of a bucket. \<open>eRead\<close> gives the read error of a descriptor, which hides its upload.\<close>

definition upload_order :: "Upload \<Rightarrow> string \<times> string" where
  "upload_order u = (upKey u, upID u)"

definition bucket_uploads :: "(string \<Rightarrow> string option) \<Rightarrow> mp_store \<Rightarrow> string \<Rightarrow> string \<Rightarrow> Upload list" where
  "bucket_uploads eRead s bucket keyPrefix =
     concat (map (\<lambda>d. if \<not> seIsDir d \<or> \<not> ValidUploadID (seName d) then []
                       else case readMeta (eRead (seName d)) s (seName d) of
                              Inl _ \<Rightarrow> []
                            | Inr up \<Rightarrow> if upBucket up \<noteq> bucket then []
                                        else if keyPrefix \<noteq> [] \<and> \<not> HasPrefix (upKey up) keyPrefix then []
                                        else [up]) (mpStaging s))"

definition List_uploads ::
    "string option \<Rightarrow> (string \<Rightarrow> string option) \<Rightarrow> mp_store \<Rightarrow> string \<Rightarrow> string \<Rightarrow> string \<Rightarrow> string \<Rightarrow> int
     \<Rightarrow> (mp_error, Upload list \<times> bool) result" where
  "List_uploads eDir eRead s bucket keyPrefix keyMarker uploadIDMarker maxUploads =
     (case eDir of
        Some x \<Rightarrow> Inl (MpIO x)
      | None \<Rightarrow>
          let uploads = sort_key upload_order (bucket_uploads eRead s bucket keyPrefix);
              uploads = (if keyMarker \<noteq> [] \<or> uploadIDMarker \<noteq> []
                         then dropWhile (\<lambda>u. \<not> (if upKey u \<noteq> keyMarker then upKey u > keyMarker else upID u > uploadIDMarker)) uploads
                         else uploads)
          in if maxUploads > 0 \<and> int (length uploads) > maxUploads
             then Inr (take (nat maxUploads) uploads, True) else Inr (uploads, False))"

definition HasUploads ::
    "string option \<Rightarrow> (string \<Rightarrow> string option) \<Rightarrow> mp_store \<Rightarrow> string \<Rightarrow> (mp_error, bool) result" where
  "HasUploads eDir eRead s bucket =
     result_bind (List_uploads eDir eRead s bucket [] [] [] 1) (\<lambda>(ups, _). Inr (ups \<noteq> []))"

subsection \<open>Completion\<close>

text \<open>The destination is absolute and the root is given by its absolute path, so \<open>filepath.Abs\<close> is
  \<open>filepath.Clean\<close>.\<close>

definition validateDest :: "link_view \<Rightarrow> mp_store \<Rightarrow> string \<Rightarrow> (mp_error, unit) result" where
  "validateDest fs s dest =
     (if \<not> HasPrefix dest ''/'' then Inl (MpDest ''destination must be absolute'')
      else
        let absRoot = path_Clean (mpRoot s); absDest = path_Clean dest;
            reserved = path_Join [absRoot, ReservedDirName]
        in if \<not> HasPrefix absDest (absRoot @ ''/'') then Inl (MpDest ''destination outside root'')
           else if absDest = reserved \<or> HasPrefix absDest (reserved @ ''/'')
           then Inl (MpDest ''destination inside reserved directory'')
           else case SafePath fs absRoot (path_Rel_below absRoot absDest) [] of
                  Inl _ \<Rightarrow> Inl (MpDest ''unsafe destination'')
                | Inr _ \<Rightarrow> Inr ())"

definition destName :: "mp_store \<Rightarrow> string \<Rightarrow> string" where
  "destName s dest = path_Rel_below (path_Clean (mpRoot s)) (path_Clean dest)"

definition part_line :: "CompletePart \<Rightarrow> string" where
  "part_line p =
     FormatInt (cpNumber p) @ '':'' @ ToLower (TrimChar (CHR 0x22) (TrimPrefix (TrimSpace (cpETag p)) ''W/'')) @ [CHR 0x0A]"

definition partListDigest :: "(string \<Rightarrow> string) \<Rightarrow> CompletePart list \<Rightarrow> string" where
  "partListDigest sha256_hex parts = sha256_hex (concat (map part_line parts))"

definition stat_of :: "object_file \<Rightarrow> object_stat" where
  "stat_of f = \<lparr> osSize = int (length (ofData f)), osModTime = ofModTime f, osRegular = ofRegular f \<rparr>"

text \<open>How a publication ended: the file is in place and indexed, it never was, or it is in place although
  flushing its directory or indexing it failed.\<close>

datatype publish_outcome = Published | PublishRefused string | PublishUnsynced string

record complete_env =
  coMeta :: "string option"
  coStaged :: "string option"
  coMkdir :: "string option"
  coCreate :: "string option"
  coOpen :: "string \<Rightarrow> os_error option"
  coCopy :: "string \<Rightarrow> string option"
  coSync :: "string option"
  coFence :: "string option"
  coModTime :: int
  coPublish :: publish_outcome
  coRecord :: publish_outcome
  coRecorded :: int
  coRemove :: remove_outcome
  coReadRecord :: "string option"
  coStat :: bool

text \<open>The parts copied one after the other: the bytes written, their binary digests and their count.\<close>

fun copy_parts ::
    "(string \<Rightarrow> string) \<Rightarrow> complete_env \<Rightarrow> staged_file list \<Rightarrow> Part list \<Rightarrow> (mp_error, string \<times> string \<times> int) result" where
  "copy_parts md5 env fs [] = Inr ([], [], 0)"
| "copy_parts md5 env fs (p # ps) =
     (let name = partFileName (ptNumber p) (ptETag p)
      in case coOpen env name of
           Some OsNotExist \<Rightarrow> Inl ErrInvalidPart
         | Some (OsOther x) \<Rightarrow> Inl (MpIO x)
         | None \<Rightarrow>
             case row_of sfName fs name of
               None \<Rightarrow> Inl ErrInvalidPart
             | Some f \<Rightarrow>
                 case coCopy env name of
                   Some x \<Rightarrow> Inl (MpIO x)
                 | None \<Rightarrow>
                     if hex_lower (md5 (sfData f)) \<noteq> ptETag p \<or> int (length (sfData f)) \<noteq> ptSize p
                     then Inl ErrCorruptPart
                     else result_bind (copy_parts md5 env fs ps) (\<lambda>(data, raws, written).
                            Inr (sfData f @ data, md5 (sfData f) @ raws, wrap64 (int (length (sfData f)) + written))))"

text \<open>\<open>fileops.PublishIf\<close> on the table of objects: the precondition sees the current object.\<close>

definition publish_object ::
    "complete_env \<Rightarrow> (object_stat option \<Rightarrow> string option) option \<Rightarrow> mp_store \<Rightarrow> string \<Rightarrow> string
     \<Rightarrow> (mp_error, object_stat) result \<times> mp_store" where
  "publish_object env precondition s dest data =
     (let f = \<lparr> ofPath = dest, ofData = data, ofModTime = coModTime env, ofRegular = True \<rparr>;
          s1 = s\<lparr>mpObjects := upsert ofPath f (mpObjects s)\<rparr>;
          current = map_option stat_of (row_of ofPath (mpObjects s) dest)
      in if precondition \<noteq> None \<and> coFence env \<noteq> None then (Inl (MpIO (the (coFence env))), s)
         else case (case precondition of None \<Rightarrow> None | Some c \<Rightarrow> c current) of
           Some x \<Rightarrow> (Inl (MpRefused x), s)
         | None \<Rightarrow>
             case coPublish env of
               PublishRefused x \<Rightarrow> (Inl (MpIO x), s)
             | PublishUnsynced x \<Rightarrow> (Inl (MpIO x), s1)
             | Published \<Rightarrow> (Inr (stat_of f), s1))"

definition assemble ::
    "(string \<Rightarrow> string) \<Rightarrow> complete_env \<Rightarrow> (object_stat option \<Rightarrow> string option) option \<Rightarrow> mp_store \<Rightarrow> staged_file list
     \<Rightarrow> Part list \<Rightarrow> int \<Rightarrow> string \<Rightarrow> (mp_error, string \<times> object_stat) result \<times> mp_store" where
  "assemble md5 env precondition s fs parts wantSize dest =
     (case (case coMkdir env of Some x \<Rightarrow> Some x | None \<Rightarrow> coCreate env) of
        Some x \<Rightarrow> (Inl (MpIO x), s)
      | None \<Rightarrow>
          case copy_parts md5 env fs parts of
            Inl x \<Rightarrow> (Inl x, s)
          | Inr (data, raws, written) \<Rightarrow>
              if written \<noteq> wantSize then (Inl (MpIO ''assembled size''), s)
              else if int (length data) \<noteq> wantSize then (Inl (MpIO ''assembled file size''), s)
              else case coSync env of
                Some x \<Rightarrow> (Inl (MpIO x), s)
              | None \<Rightarrow>
                  case publish_object env precondition s dest data of
                    (Inl x, s1) \<Rightarrow> (Inl x, s1)
                  | (Inr info, s1) \<Rightarrow>
                      (Inr (hex_lower (md5 raws) @ ''-'' @ FormatInt (int (length parts)), info), s1))"

fun check_order :: "int \<Rightarrow> int \<Rightarrow> CompletePart list \<Rightarrow> (mp_error, unit) result" where
  "check_order limit prev [] = Inr ()"
| "check_order limit prev (w # ws) =
     (if cpNumber w < 1 \<or> cpNumber w > limit then Inl ErrInvalidPartNumber
      else if cpNumber w \<le> prev then Inl ErrInvalidPartOrder
      else check_order limit (cpNumber w) ws)"

fun select_parts :: "Limits \<Rightarrow> Part list \<Rightarrow> int \<Rightarrow> CompletePart list \<Rightarrow> (mp_error, Part list \<times> int) result" where
  "select_parts limits staged sum0 [] = Inr ([], sum0)"
| "select_parts limits staged sum0 (w # ws) =
     (case row_of ptNumber staged (cpNumber w) of
        None \<Rightarrow> Inl ErrInvalidPart
      | Some p \<Rightarrow>
          if \<not> etagMatches (cpETag w) (ptETag p) then Inl ErrInvalidPart
          else if ws \<noteq> [] \<and> ptSize p < MinPartBytes limits then Inl ErrPartTooSmall
          else
            let sum' = wrap64 (sum0 + ptSize p)
            in if MaxObjectBytes limits > 0 \<and> sum' > MaxObjectBytes limits then Inl ErrObjectTooLarge
               else result_bind (select_parts limits staged sum' ws) (\<lambda>(ps, t). Inr (p # ps, t)))"

definition recordCompletion ::
    "(string \<Rightarrow> string) \<Rightarrow> complete_env \<Rightarrow> mp_store \<Rightarrow> Upload \<Rightarrow> CompletePart list \<Rightarrow> string \<Rightarrow> string \<Rightarrow> object_stat \<Rightarrow> mp_store" where
  "recordCompletion sha256_hex env s up parts dest etag info =
     (let rec = \<lparr> cmUploadID = upID up, cmBucket = upBucket up, cmKey = upKey up, cmDest = destName s dest,
                  cmParts = partListDigest sha256_hex parts, cmPartCount = int (length parts), cmETag = etag,
                  cmSize = osSize info, cmModTime = osModTime info \<rparr>;
          s1 = s\<lparr>mpCompleted := upsert cfID \<lparr> cfID = upID up, cfRecord = Inr rec, cfModTime = coRecorded env \<rparr> (mpCompleted s)\<rparr>
      in case coRecord env of
           PublishRefused x \<Rightarrow> s
         | PublishUnsynced x \<Rightarrow> s1
         | Published \<Rightarrow> s1)"

definition repeatCompletion ::
    "(string \<Rightarrow> string) \<Rightarrow> complete_env \<Rightarrow> mp_store \<Rightarrow> string \<Rightarrow> CompletePart list \<Rightarrow> string \<Rightarrow> (mp_error, CompleteResult) result" where
  "repeatCompletion sha256_hex env s ident want dest =
     (case coReadRecord env of
        Some x \<Rightarrow> Inl (MpIO x)
      | None \<Rightarrow>
          case row_of cfID (mpCompleted s) ident of
            None \<Rightarrow> Inl ErrNoSuchUpload
          | Some cf \<Rightarrow>
              case cfRecord cf of
                Inl x \<Rightarrow> Inl (MpIO x)
              | Inr rec \<Rightarrow>
                  if cmUploadID rec \<noteq> ident \<or> cmDest rec \<noteq> destName s dest \<or> cmParts rec \<noteq> partListDigest sha256_hex want
                  then Inl ErrNoSuchUpload
                  else case (if coStat env then None else map_option stat_of (row_of ofPath (mpObjects s) dest)) of
                    None \<Rightarrow> Inl ErrNoSuchUpload
                  | Some info \<Rightarrow>
                      if \<not> osRegular info \<or> osSize info \<noteq> cmSize rec \<or> osModTime info \<noteq> cmModTime rec
                      then Inl ErrNoSuchUpload
                      else Inr \<lparr> reBucket = cmBucket rec, reKey = cmKey rec, reETag = cmETag rec, reSize = cmSize rec,
                                 reParts = cmPartCount rec, reInfo = info, reRepeated = True \<rparr>)"

text \<open>The part list is checked in shape first, then against what was staged; the completion is recorded
  before the staging directory goes.\<close>

definition chosen_parts ::
    "complete_env \<Rightarrow> mp_store \<Rightarrow> string \<Rightarrow> CompletePart list \<Rightarrow> (mp_error, Part list \<times> int) result" where
  "chosen_parts env s ident want =
     result_bind (stagedParts (coStaged env) s ident) (\<lambda>staged.
     result_bind (check_order (MaxParts (mpLimits s)) 0 want) (\<lambda>_.
       select_parts (mpLimits s) staged 0 want))"

definition CompleteIf ::
    "(string \<Rightarrow> string) \<Rightarrow> (string \<Rightarrow> string) \<Rightarrow> link_view \<Rightarrow> complete_env \<Rightarrow> mp_store \<Rightarrow> string \<Rightarrow> CompletePart list \<Rightarrow> string
     \<Rightarrow> (object_stat option \<Rightarrow> string option) option \<Rightarrow> (mp_error, CompleteResult) result \<times> mp_store" where
  "CompleteIf md5 sha256_hex fs env s ident want dest precondition =
     (if \<not> ValidUploadID ident then (Inl ErrNoSuchUpload, s)
      else if want = [] then (Inl ErrEmptyPartList, s)
      else case validateDest fs s dest of
        Inl x \<Rightarrow> (Inl x, s)
      | Inr _ \<Rightarrow>
          case readMeta (coMeta env) s ident of
            Inl ErrNoSuchUpload \<Rightarrow> (repeatCompletion sha256_hex env s ident want dest, s)
          | Inl x \<Rightarrow> (Inl x, s)
          | Inr up \<Rightarrow>
              case chosen_parts env s ident want of
                Inl x \<Rightarrow> (Inl x, s)
              | Inr (selected, sum0) \<Rightarrow>
                  case assemble md5 env precondition s
                         (case row_of seName (mpStaging s) ident of None \<Rightarrow> [] | Some d \<Rightarrow> seFiles d) selected sum0 dest of
                    (Inl x, s1) \<Rightarrow> (Inl x, s1)
                  | (Inr (etag, info), s1) \<Rightarrow>
                      let s2 = recordCompletion sha256_hex env s1 up want dest etag info;
                          s3 = snd (removeStagingEntry (coRemove env) s2 ident)
                      in (Inr \<lparr> reBucket = upBucket up, reKey = upKey up, reETag = etag, reSize = osSize info,
                                reParts = int (length selected), reInfo = info, reRepeated = False \<rparr>, s3))"

definition Complete ::
    "(string \<Rightarrow> string) \<Rightarrow> (string \<Rightarrow> string) \<Rightarrow> link_view \<Rightarrow> complete_env \<Rightarrow> mp_store \<Rightarrow> string \<Rightarrow> CompletePart list \<Rightarrow> string
     \<Rightarrow> (mp_error, CompleteResult) result \<times> mp_store" where
  "Complete md5 sha256_hex fs env s ident want dest = CompleteIf md5 sha256_hex fs env s ident want dest None"

subsection \<open>Cleanup\<close>

definition lastActivity :: "staging_entry \<Rightarrow> int" where
  "lastActivity d =
     foldl max (seModTime d) ((case seMeta d of None \<Rightarrow> [] | Some (_, t) \<Rightarrow> [t]) @ map sfModTime (seFiles d))"

record cleanup_env =
  clDir :: "string option"
  clRecords :: "string option"
  clGone :: "string \<Rightarrow> bool"
  clRemove :: "string \<Rightarrow> remove_outcome"
  clOthers :: "string \<Rightarrow> mp_store \<Rightarrow> mp_store"
  clDelete :: "string \<Rightarrow> publish_outcome"

text \<open>One entry of the sweep. Between the first look at an upload and the look under its lock other
  requests may run: \<open>clOthers\<close>.\<close>

definition cleanup_entry :: "cleanup_env \<Rightarrow> int \<Rightarrow> staging_entry \<Rightarrow> int \<times> mp_store \<Rightarrow> int \<times> mp_store" where
  "cleanup_entry env now e acc =
     (let (removed, s) = acc; ttl = UploadTTL (mpLimits s); name = seName e
      in if \<not> seIsDir e \<or> \<not> ValidUploadID name then
           (if \<not> clGone env name \<and> time_Sub now (seModTime e) > ttl
            then (removed, snd (removeStagingEntry (clRemove env name) s name)) else acc)
         else case row_of seName (mpStaging s) name of
           None \<Rightarrow> acc
         | Some d \<Rightarrow>
             if time_Sub now (lastActivity d) \<le> ttl then acc
             else
               let s1 = clOthers env name s
               in case row_of seName (mpStaging s1) name of
                    None \<Rightarrow> (removed, s1)
                  | Some d1 \<Rightarrow>
                      if time_Sub now (lastActivity d1) > ttl then
                        (case removeStagingEntry (clRemove env name) s1 name of
                           (Inl _, s2) \<Rightarrow> (removed, s2)
                         | (Inr _, s2) \<Rightarrow> (removed + 1, s2))
                      else (removed, s1))"

definition cleanup_record :: "cleanup_env \<Rightarrow> int \<Rightarrow> mp_store \<Rightarrow> completion_file \<Rightarrow> mp_store" where
  "cleanup_record env now s cf =
     (if \<not> ValidUploadID (cfID cf) \<or> clGone env (cfID cf) \<or> time_Sub now (cfModTime cf) \<le> UploadTTL (mpLimits s) then s
      else case clDelete env (cfID cf) of
             PublishRefused _ \<Rightarrow> s
           | _ \<Rightarrow> s\<lparr>mpCompleted := delete_key cfID (cfID cf) (mpCompleted s)\<rparr>)"

definition cleanupCompletions :: "cleanup_env \<Rightarrow> int \<Rightarrow> mp_store \<Rightarrow> mp_store" where
  "cleanupCompletions env now s =
     (if clRecords env \<noteq> None then s else foldl (cleanup_record env now) s (mpCompleted s))"

definition Cleanup :: "cleanup_env \<Rightarrow> int \<Rightarrow> mp_store \<Rightarrow> int \<times> mp_store" where
  "Cleanup env now s =
     (let s1 = cleanupCompletions env now s
      in if clDir env \<noteq> None then (0, s1)
         else fold (cleanup_entry env now) (mpStaging s1) (0, s1))"

end
