(* ===== verification/Multipart_Properties.thy ===== *)
theory Multipart_Properties
  imports Multipart "HOL-Library.Multiset"
begin

text \<open>
  What the staging store of multipart uploads guarantees: names of part files, replacement of a part,
  soundness and idempotency of a completion, the invariant of the staging area under any sequence of
  requests and faults, listings page by page, and what the cleanup leaves alone.
\<close>

section \<open>Part file names\<close>

lemma FormatNat_length: "n < 10 ^ Suc k \<Longrightarrow> length (FormatNat n) \<le> Suc k"
proof (induction k arbitrary: n)
  case (Suc k)
  show ?case
  proof (cases "n < 10")
    case False
    have "n div 10 < 10 ^ Suc k" using Suc.prems by (simp add: less_mult_imp_div_less)
    then show ?thesis using Suc.IH [of "n div 10"] by (subst FormatNat.simps) (simp add: False)
  qed (subst FormatNat.simps, simp)
qed (subst FormatNat.simps, simp)

lemma FormatNat_length_less: "length (FormatNat n) \<le> k \<Longrightarrow> n < 10 ^ k"
proof -
  assume "length (FormatNat n) \<le> k"
  moreover have "n < 10 ^ length (FormatNat n)"
    using dec_value_bound [OF FormatNat_digits [of n]] by simp
  ultimately show ?thesis using power_increasing [of "length (FormatNat n)" k "10 :: nat"] by linarith
qed

lemma FormatNat_five: "length (FormatNat n) \<le> 5 \<longleftrightarrow> n \<le> 99999"
proof
  show "length (FormatNat n) \<le> 5 \<Longrightarrow> n \<le> 99999" using FormatNat_length_less [of n 5] by simp
  show "n \<le> 99999 \<Longrightarrow> length (FormatNat n) \<le> 5" using FormatNat_length [of n 4] by simp
qed

lemma dec_value_zeros [simp]: "dec_value (replicate k (CHR ''0'')) = 0"
  by (induction k) (simp_all add: dec_value_Cons)

lemma pad5_digits: "0 \<le> n \<Longrightarrow> list_all is_digit (pad5 n)"
  using FormatNat_digits [of "nat n"] by (auto simp: pad5_def list_all_iff)

lemma dec_value_pad5: "0 \<le> n \<Longrightarrow> dec_value (pad5 n) = nat n"
  by (simp add: pad5_def dec_value_append)

lemma length_pad5: "0 \<le> n \<Longrightarrow> length (pad5 n) = 5 \<longleftrightarrow> n \<le> 99999"
  using FormatNat_five [of "nat n"] by (auto simp: pad5_def)

lemma pad5_no_dash: "0 \<le> n \<Longrightarrow> CHR ''-'' \<notin> set (pad5 n)"
  using pad5_digits [of n] digit_not_sign by (auto simp: list_all_iff)

lemma parsePartFileName_partFileName:
  assumes "1 \<le> n" "isHexMD5 d"
  shows "parsePartFileName (partFileName n d) = (if n \<le> 99999 then Some (n, d) else None)"
proof -
  have pre: "HasPrefix (partFileName n d) partPrefix"
    "drop (length partPrefix) (partFileName n d) = pad5 n @ CHR ''-'' # d"
    by (simp_all add: HasPrefix_def partFileName_def partPrefix_def)
  have cut: "Cut (pad5 n @ CHR ''-'' # d) (CHR ''-'') = Some (pad5 n, d)"
    using pad5_no_dash [of n] assms(1) by (simp add: Cut_Some)
  have num: "ParseInt (pad5 n) = Some n" if "n \<le> 99999"
  proof -
    have "length (pad5 n) = 5" using that assms(1) length_pad5 [of n] by simp
    then have "pad5 n \<noteq> []" by auto
    then show ?thesis
      using ParseInt_digits [OF pad5_digits, of n] that assms(1) by (simp add: dec_value_pad5 in_int64_def)
  qed
  show ?thesis
    unfolding parsePartFileName_def using pre cut num assms length_pad5 [of n] by simp
qed

lemma parsePartFileName_bounds:
  assumes "parsePartFileName name = Some (n, d)"
  shows "1 \<le> n" "n \<le> 99999" "isHexMD5 d"
proof -
  obtain num where num: "length num = 5" "ParseInt num = Some n" "1 \<le> n" "isHexMD5 d"
    using assms by (auto simp: parsePartFileName_def split: if_splits option.splits)
  have ud: "0 \<le> v \<and> v \<le> 99999" if "ParseUdec t = Some v" "length t \<le> 5" for t v
  proof -
    have "list_all is_digit t" "v = int (dec_value t)" using that(1) by (auto simp: ParseUdec_def split: if_splits)
    then show ?thesis
      using dec_value_bound [of t] power_increasing [of "length t" 5 "10 :: nat"] that(2) by auto
  qed
  have "n \<le> 99999"
  proof (cases num)
    case (Cons c r)
    then show ?thesis using num(1,2,3) ud [of r] ud [of num]
      by (fastforce simp: ParseInt_def Let_def split: if_splits option.splits)
  qed (use num(1) in simp)
  then show "1 \<le> n" "n \<le> 99999" "isHexMD5 d" using num by auto
qed

lemma isHexMD5_hex: "length s = 16 \<Longrightarrow> isHexMD5 (hex_lower s)"
proof -
  assume s: "length s = 16"
  have "list_all is_lower_hex (hex_lower t)" for t
    by (induction t) (simp_all add: hex_lower_def hex_digit_lower of_char_digit)
  moreover have "length (hex_lower t) = 2 * length t" for t by (induction t) (simp_all add: hex_lower_def)
  ultimately show ?thesis using s by (simp add: isHexMD5_def isLowerHex_def)
qed

section \<open>The parts of an upload\<close>

lemma row_of_perm:
  assumes "keyed key t" "mset u = mset t"
  shows "row_of key u k = row_of key t k"
proof -
  have "mset (map key u) = mset (map key t)" using assms(2) by simp
  then have ku: "keyed key u" using assms(1) mset_eq_imp_distinct_iff unfolding keyed_def by blast
  have eq: "set u = set t" using mset_eq_setD [OF assms(2)] .
  show ?thesis
  proof (cases "row_of key t k")
    case None
    then show ?thesis using eq row_of_None [of key u k] row_of_None [of key t k] by simp
  next
    case (Some r)
    then have "r \<in> set u" "key r = k" using row_of_SomeD [OF Some] eq by auto
    then show ?thesis using Some row_of_Some [OF ku] by simp
  qed
qed

definition best :: "Part option \<Rightarrow> Part \<Rightarrow> Part option" where
  "best current c = (if newer_part current c then Some c else current)"

lemma collect_keyed: "keyed ptNumber acc \<Longrightarrow> keyed ptNumber (foldl collect_part acc fs)"
  by (induction fs arbitrary: acc) (simp_all add: collect_part_def keyed_upsert split: option.splits)

lemma collect_row:
  "row_of ptNumber (foldl collect_part acc fs) m =
   foldl best (row_of ptNumber acc m) (filter (\<lambda>c. ptNumber c = m) (List.map_filter part_of fs))"
  by (induction fs arbitrary: acc)
    (auto simp: collect_part_def best_def row_of_upsert map_filter_simps split: option.splits)

lemma parts_of_row:
  "row_of ptNumber (parts_of fs) m = foldl best None (filter (\<lambda>c. ptNumber c = m) (List.map_filter part_of fs))"
  using collect_row [of "[]" fs m] row_of_perm [OF collect_keyed [of "[]" fs], of "parts_of fs" m]
  by (simp add: parts_of_def keyed_def)

lemma foldl_best_mem: "foldl best c ps = Some p \<Longrightarrow> c = Some p \<or> p \<in> set ps"
  by (induction ps arbitrary: c) (fastforce simp: best_def split: if_splits)+

lemma parts_of_file:
  assumes "row_of ptNumber (parts_of fs) m = Some p"
  obtains f where "f \<in> set fs" "part_of f = Some p" "ptNumber p = m"
proof -
  have "p \<in> set (filter (\<lambda>c. ptNumber c = m) (List.map_filter part_of fs))"
    using assms foldl_best_mem by (fastforce simp: parts_of_row)
  then show thesis using that by (auto simp: map_filter_def)
qed

lemma part_ofD:
  assumes "part_of f = Some p"
  shows "parsePartFileName (sfName f) = Some (ptNumber p, ptETag p)" "ptSize p = int (length (sfData f))"
  using assms by (auto simp: part_of_def split: if_splits option.splits)

section \<open>A completion publishes exactly the parts it names\<close>

lemma copy_parts_files:
  assumes "copy_parts md5 env fs ps = Inr (data, raws, written)"
  shows "\<exists>files. list_all2 (\<lambda>p f. f \<in> set fs \<and> sfName f = partFileName (ptNumber p) (ptETag p) \<and>
            hex_lower (md5 (sfData f)) = ptETag p \<and> int (length (sfData f)) = ptSize p) ps files \<and>
          data = concat (map sfData files) \<and> raws = concat (map (\<lambda>f. md5 (sfData f)) files)"
  using assms
proof (induction ps arbitrary: data raws written)
  case (Cons p ps)
  obtain f where f: "row_of sfName fs (partFileName (ptNumber p) (ptETag p)) = Some f"
    and h: "hex_lower (md5 (sfData f)) = ptETag p" "int (length (sfData f)) = ptSize p"
    and r: "result_bind (copy_parts md5 env fs ps) (\<lambda>(data, raws, written).
        Inr (sfData f @ data, md5 (sfData f) @ raws, wrap64 (int (length (sfData f)) + written))) = Inr (data, raws, written)"
    using Cons.prems by (auto simp: Let_def split: option.splits os_error.splits if_splits)
  obtain d' r' w' where c: "copy_parts md5 env fs ps = Inr (d', r', w')" "data = sfData f @ d'" "raws = md5 (sfData f) @ r'"
    using r by (auto simp: result_bind_Inr)
  obtain files where "list_all2 (\<lambda>p f. f \<in> set fs \<and> sfName f = partFileName (ptNumber p) (ptETag p) \<and>
            hex_lower (md5 (sfData f)) = ptETag p \<and> int (length (sfData f)) = ptSize p) ps files"
      "d' = concat (map sfData files)" "r' = concat (map (\<lambda>f. md5 (sfData f)) files)"
    using Cons.IH [OF c(1)] by blast
  then show ?case using c h row_of_SomeD [OF f] by (intro exI [of _ "f # files"]) simp
qed simp

lemma select_parts_ConsE:
  assumes "select_parts limits staged acc (w # ws) = Inr (ps, t)"
  obtains p qs where "row_of ptNumber staged (cpNumber w) = Some p" "etagMatches (cpETag w) (ptETag p)"
    "ws \<noteq> [] \<longrightarrow> MinPartBytes limits \<le> ptSize p"
    "MaxObjectBytes limits > 0 \<longrightarrow> wrap64 (acc + ptSize p) \<le> MaxObjectBytes limits"
    "select_parts limits staged (wrap64 (acc + ptSize p)) ws = Inr (qs, t)" "ps = p # qs"
proof (cases "row_of ptNumber staged (cpNumber w)")
  case (Some p)
  then show thesis using assms that [of p]
    by (auto simp: Let_def result_bind_Inr split: if_splits)
qed (use assms in simp)

lemma select_parts_sound:
  assumes "select_parts limits staged acc want = Inr (ps, t)"
  shows "list_all2 (\<lambda>w p. row_of ptNumber staged (cpNumber w) = Some p \<and> etagMatches (cpETag w) (ptETag p)) want ps"
    "\<forall>p \<in> set (butlast ps). MinPartBytes limits \<le> ptSize p"
    "want \<noteq> [] \<Longrightarrow> MaxObjectBytes limits > 0 \<Longrightarrow> t \<le> MaxObjectBytes limits"
proof -
  let ?R = "\<lambda>w p. row_of ptNumber staged (cpNumber w) = Some p \<and> etagMatches (cpETag w) (ptETag p)"
  have "list_all2 ?R want ps \<and> (\<forall>p \<in> set (butlast ps). MinPartBytes limits \<le> ptSize p) \<and>
      (want \<noteq> [] \<longrightarrow> MaxObjectBytes limits > 0 \<longrightarrow> t \<le> MaxObjectBytes limits)"
    using assms
  proof (induction want arbitrary: acc ps)
    case (Cons w ws)
    obtain p qs where p: "row_of ptNumber staged (cpNumber w) = Some p" "etagMatches (cpETag w) (ptETag p)"
      "ws \<noteq> [] \<longrightarrow> MinPartBytes limits \<le> ptSize p"
      "MaxObjectBytes limits > 0 \<longrightarrow> wrap64 (acc + ptSize p) \<le> MaxObjectBytes limits"
      "select_parts limits staged (wrap64 (acc + ptSize p)) ws = Inr (qs, t)" "ps = p # qs"
      by (rule select_parts_ConsE [OF Cons.prems])
    note IH = Cons.IH [OF p(5)]
    have "qs \<noteq> [] \<Longrightarrow> ws \<noteq> []" using IH by auto
    then show ?case using IH p by (cases "ws = []") auto
  qed simp
  then show "list_all2 ?R want ps" "\<forall>p \<in> set (butlast ps). MinPartBytes limits \<le> ptSize p"
    "want \<noteq> [] \<Longrightarrow> MaxObjectBytes limits > 0 \<Longrightarrow> t \<le> MaxObjectBytes limits" by blast+
qed

lemma check_order_sorted:
  "check_order limit prev want = Inr () \<Longrightarrow>
   sorted_wrt (<) (prev # map cpNumber want) \<and> (\<forall>w \<in> set want. 1 \<le> cpNumber w \<and> cpNumber w \<le> limit)"
proof (induction want arbitrary: prev)
  case (Cons w ws)
  then have "prev < cpNumber w" "1 \<le> cpNumber w" "cpNumber w \<le> limit" "check_order limit (cpNumber w) ws = Inr ()"
    by (auto split: if_splits)
  then show ?case using Cons.IH [of "cpNumber w"] by fastforce
qed simp

lemma removeStagingEntry_keeps [simp]:
  "mpObjects (snd (removeStagingEntry out s name)) = mpObjects s"
  "mpCompleted (snd (removeStagingEntry out s name)) = mpCompleted s"
  "mpRoot (snd (removeStagingEntry out s name)) = mpRoot s"
  "mpLimits (snd (removeStagingEntry out s name)) = mpLimits s"
  "mpInFlight (snd (removeStagingEntry out s name)) = mpInFlight s"
  by (auto simp: removeStagingEntry_def split: remove_outcome.splits)

lemma recordCompletion_keeps [simp]:
  "mpObjects (recordCompletion sha256_hex env s up parts dest etag info) = mpObjects s"
  "mpStaging (recordCompletion sha256_hex env s up parts dest etag info) = mpStaging s"
  "mpRoot (recordCompletion sha256_hex env s up parts dest etag info) = mpRoot s"
  "mpLimits (recordCompletion sha256_hex env s up parts dest etag info) = mpLimits s"
  "mpInFlight (recordCompletion sha256_hex env s up parts dest etag info) = mpInFlight s"
  by (auto simp: recordCompletion_def Let_def split: publish_outcome.splits)

text \<open>A completion that was not answered from a record went through every stage.\<close>

lemma CompleteIf_stages:
  assumes "CompleteIf md5 sha256_hex fs env s ident want dest precondition = (Inr r, s')" "\<not> reRepeated r"
  obtains up d selected sz etag info s1 where
    "ValidUploadID ident" "want \<noteq> []" "validateDest fs s dest = Inr ()"
    "readMeta (coMeta env) s ident = Inr up"
    "row_of seName (mpStaging s) ident = Some d"
    "check_order (MaxParts (mpLimits s)) 0 want = Inr ()"
    "select_parts (mpLimits s) (parts_of (seFiles d)) 0 want = Inr (selected, sz)"
    "assemble md5 env precondition s (seFiles d) selected sz dest = (Inr (etag, info), s1)"
    "s' = snd (removeStagingEntry (coRemove env) (recordCompletion sha256_hex env s1 up want dest etag info) ident)"
    "r = \<lparr> reBucket = upBucket up, reKey = upKey up, reETag = etag, reSize = osSize info,
           reParts = int (length selected), reInfo = info, reRepeated = False \<rparr>"
proof -
  have basic: "ValidUploadID ident" "want \<noteq> []" "validateDest fs s dest = Inr ()"
    using assms(1) by (auto simp: CompleteIf_def split: if_splits sum.splits)
  have norep: "\<not> (repeatCompletion sha256_hex env s ident want dest = Inr r)"
    using assms(2) by (auto simp: repeatCompletion_def split: option.splits sum.splits if_splits)
  obtain up where up: "readMeta (coMeta env) s ident = Inr up"
    using assms(1) basic norep by (auto simp: CompleteIf_def split: sum.splits mp_error.splits)
  obtain d where d: "row_of seName (mpStaging s) ident = Some d" "seIsDir d"
    using up by (auto simp: readMeta_def split: if_splits option.splits)
  obtain selected sz where sel: "chosen_parts env s ident want = Inr (selected, sz)"
    using assms(1) basic up by (auto simp: CompleteIf_def split: sum.splits)
  obtain etag info s1 where as: "assemble md5 env precondition s (seFiles d) selected sz dest = (Inr (etag, info), s1)"
    using assms(1) basic up d sel by (auto simp: CompleteIf_def split: sum.splits prod.splits)
  have "check_order (MaxParts (mpLimits s)) 0 want = Inr ()"
    "select_parts (mpLimits s) (parts_of (seFiles d)) 0 want = Inr (selected, sz)"
    using sel d by (auto simp: chosen_parts_def stagedParts_def result_bind_Inr split: option.splits)
  moreover have "s' = snd (removeStagingEntry (coRemove env) (recordCompletion sha256_hex env s1 up want dest etag info) ident)"
    "r = \<lparr> reBucket = upBucket up, reKey = upKey up, reETag = etag, reSize = osSize info,
           reParts = int (length selected), reInfo = info, reRepeated = False \<rparr>"
    using assms(1) basic up d sel as by (auto simp: CompleteIf_def Let_def)
  ultimately show thesis using that basic up d(1) as by blast
qed

lemma assemble_sound:
  assumes "assemble md5 env precondition s fs ps sz dest = (Inr (etag, info), s1)"
  obtains files where
    "list_all2 (\<lambda>p f. f \<in> set fs \<and> sfName f = partFileName (ptNumber p) (ptETag p) \<and>
       hex_lower (md5 (sfData f)) = ptETag p \<and> int (length (sfData f)) = ptSize p) ps files"
    "etag = hex_lower (md5 (concat (map (\<lambda>f. md5 (sfData f)) files))) @ ''-'' @ FormatInt (int (length ps))"
    "sz = int (length (concat (map sfData files)))"
    "info = \<lparr> osSize = sz, osModTime = coModTime env, osRegular = True \<rparr>"
    "s1 = s\<lparr>mpObjects := upsert ofPath \<lparr> ofPath = dest, ofData = concat (map sfData files),
            ofModTime = coModTime env, ofRegular = True \<rparr> (mpObjects s)\<rparr>"
proof -
  obtain data raws written where c: "copy_parts md5 env fs ps = Inr (data, raws, written)" "int (length data) = sz"
    and p: "publish_object env precondition s dest data = (Inr info, s1)"
    and e: "etag = hex_lower (md5 raws) @ ''-'' @ FormatInt (int (length ps))"
    using assms by (auto simp: assemble_def split: option.splits sum.splits prod.splits if_splits)
  obtain files where files: "list_all2 (\<lambda>p f. f \<in> set fs \<and> sfName f = partFileName (ptNumber p) (ptETag p) \<and>
       hex_lower (md5 (sfData f)) = ptETag p \<and> int (length (sfData f)) = ptSize p) ps files"
    "data = concat (map sfData files)" "raws = concat (map (\<lambda>f. md5 (sfData f)) files)"
    using copy_parts_files [OF c(1)] by blast
  have "info = \<lparr> osSize = sz, osModTime = coModTime env, osRegular = True \<rparr>"
    "s1 = s\<lparr>mpObjects := upsert ofPath \<lparr> ofPath = dest, ofData = data, ofModTime = coModTime env, ofRegular = True \<rparr> (mpObjects s)\<rparr>"
    using p c(2) by (auto simp: publish_object_def stat_of_def Let_def split: if_splits option.splits publish_outcome.splits)
  then show thesis using that [OF files(1)] files(2,3) e c(2) by simp
qed

lemma list_all2_parts_files:
  assumes "list_all2 (\<lambda>w p. row_of ptNumber staged (cpNumber w) = Some p \<and> etagMatches (cpETag w) (ptETag p)) want ps"
    "list_all2 (\<lambda>p f. f \<in> set fs \<and> sfName f = partFileName (ptNumber p) (ptETag p) \<and>
       hex_lower (md5 (sfData f)) = ptETag p \<and> int (length (sfData f)) = ptSize p) ps files"
  shows "list_all2 (\<lambda>w f. f \<in> set fs \<and> sfName f = partFileName (cpNumber w) (hex_lower (md5 (sfData f))) \<and>
       etagMatches (cpETag w) (hex_lower (md5 (sfData f)))) want files"
    "map (\<lambda>f. int (length (sfData f))) files = map ptSize ps"
  using assms
proof (induction want arbitrary: ps files)
  case (Cons w ws)
  {
    case 1
    then show ?case using Cons.IH(1) by (auto simp: list_all2_Cons1 list_all2_Cons2 dest!: row_of_SomeD)
  next
    case 2
    then show ?case using Cons.IH(2) by (auto simp: list_all2_Cons1 list_all2_Cons2)
  }
qed simp_all

text \<open>C28: A completion that succeeds without being a repetition published exactly the bytes of the parts
  the client listed, in that order. The list is not empty and strictly ascending; each entry names a file
  of the upload with that number whose name carries the MD5 of its bytes, which matches the ETag the client
  gave; every part but the last has the minimum size; a configured cap on the object holds although the sizes
  are added up in 64 bits. The answer carries the MD5 of the binary part digests and the number of parts.\<close>

theorem CompleteIf_sound:
  assumes "CompleteIf md5 sha256_hex fs env s ident want dest precondition = (Inr r, s')" "\<not> reRepeated r"
  shows "\<exists>d files f. row_of seName (mpStaging s) ident = Some d \<and> want \<noteq> [] \<and>
     sorted_wrt (<) (0 # map cpNumber want) \<and>
     list_all2 (\<lambda>w g. g \<in> set (seFiles d) \<and> sfName g = partFileName (cpNumber w) (hex_lower (md5 (sfData g))) \<and>
       etagMatches (cpETag w) (hex_lower (md5 (sfData g)))) want files \<and>
     (\<forall>g \<in> set (butlast files). MinPartBytes (mpLimits s) \<le> int (length (sfData g))) \<and>
     row_of ofPath (mpObjects s') dest = Some f \<and> ofData f = concat (map sfData files) \<and>
     reSize r = int (length (ofData f)) \<and>
     (MaxObjectBytes (mpLimits s) > 0 \<longrightarrow> reSize r \<le> MaxObjectBytes (mpLimits s)) \<and>
     reETag r = hex_lower (md5 (concat (map (\<lambda>g. md5 (sfData g)) files))) @ ''-'' @ FormatInt (int (length want))"
proof -
  obtain up d selected sz etag info s1 where st: "want \<noteq> []"
    "row_of seName (mpStaging s) ident = Some d" "check_order (MaxParts (mpLimits s)) 0 want = Inr ()"
    "select_parts (mpLimits s) (parts_of (seFiles d)) 0 want = Inr (selected, sz)"
    "assemble md5 env precondition s (seFiles d) selected sz dest = (Inr (etag, info), s1)"
    "s' = snd (removeStagingEntry (coRemove env) (recordCompletion sha256_hex env s1 up want dest etag info) ident)"
    "r = \<lparr> reBucket = upBucket up, reKey = upKey up, reETag = etag, reSize = osSize info,
           reParts = int (length selected), reInfo = info, reRepeated = False \<rparr>"
    by (rule CompleteIf_stages [OF assms])
  note sel = select_parts_sound [OF st(4)]
  obtain files where as:
    "list_all2 (\<lambda>p f. f \<in> set (seFiles d) \<and> sfName f = partFileName (ptNumber p) (ptETag p) \<and>
       hex_lower (md5 (sfData f)) = ptETag p \<and> int (length (sfData f)) = ptSize p) selected files"
    "etag = hex_lower (md5 (concat (map (\<lambda>f. md5 (sfData f)) files))) @ ''-'' @ FormatInt (int (length selected))"
    "sz = int (length (concat (map sfData files)))"
    "info = \<lparr> osSize = sz, osModTime = coModTime env, osRegular = True \<rparr>"
    "s1 = s\<lparr>mpObjects := upsert ofPath \<lparr> ofPath = dest, ofData = concat (map sfData files),
            ofModTime = coModTime env, ofRegular = True \<rparr> (mpObjects s)\<rparr>"
    by (rule assemble_sound [OF st(5)])
  note both = list_all2_parts_files [OF sel(1) as(1)]
  have "map (\<lambda>f. int (length (sfData f))) (butlast files) = map ptSize (butlast selected)"
    using both(2) by (simp add: map_butlast)
  then have "\<forall>g \<in> set (butlast files). int (length (sfData g)) \<in> ptSize ` set (butlast selected)"
    by (metis (no_types, lifting) image_eqI list.set_map)
  then have "\<forall>g \<in> set (butlast files). MinPartBytes (mpLimits s) \<le> int (length (sfData g))" using sel(2) by fastforce
  moreover have "length selected = length want" using list_all2_lengthD [OF sel(1)] by simp
  moreover have "row_of ofPath (mpObjects s') dest = Some \<lparr> ofPath = dest, ofData = concat (map sfData files),
            ofModTime = coModTime env, ofRegular = True \<rparr>"
    using st(6) as(5) by (simp add: row_of_upsert)
  moreover have "MaxObjectBytes (mpLimits s) > 0 \<longrightarrow> sz \<le> MaxObjectBytes (mpLimits s)" using sel(3) st(1) by blast
  moreover have "sorted_wrt (<) (0 # map cpNumber want)" using check_order_sorted [OF st(3)] by blast
  ultimately show ?thesis
    using st(1,2) both(1) as(2,3)
    by (intro exI [of _ d] exI [of _ files] exI [of _ "\<lparr> ofPath = dest, ofData = concat (map sfData files),
        ofModTime = coModTime env, ofRegular = True \<rparr>"]) (simp add: st(7) as(4))
qed

text \<open>C29: Retrying a completion whose answer was lost gives the same answer. Once a completion succeeded, was
  recorded and removed its staging directory, the same request on the store it left returns the same bucket, key,
  ETag, size and stat, marked as repeated, changes nothing, and does not evaluate a precondition again.\<close>

theorem CompleteIf_repeat:
  assumes "CompleteIf md5 sha256_hex fs env s ident want dest precondition = (Inr r, s')" "\<not> reRepeated r"
    "coRecord env = Published" "coRemove env = Removed"
    "coMeta env' = None" "coReadRecord env' = None" "\<not> coStat env'"
  shows "CompleteIf md5 sha256_hex fs env' s' ident want dest precondition' = (Inr (r\<lparr>reRepeated := True\<rparr>), s')"
proof -
  obtain up d selected sz etag info s1 where st: "ValidUploadID ident" "want \<noteq> []" "validateDest fs s dest = Inr ()"
    "readMeta (coMeta env) s ident = Inr up" "row_of seName (mpStaging s) ident = Some d"
    "check_order (MaxParts (mpLimits s)) 0 want = Inr ()"
    "select_parts (mpLimits s) (parts_of (seFiles d)) 0 want = Inr (selected, sz)"
    "assemble md5 env precondition s (seFiles d) selected sz dest = (Inr (etag, info), s1)"
    "s' = snd (removeStagingEntry (coRemove env) (recordCompletion sha256_hex env s1 up want dest etag info) ident)"
    "r = \<lparr> reBucket = upBucket up, reKey = upKey up, reETag = etag, reSize = osSize info,
           reParts = int (length selected), reInfo = info, reRepeated = False \<rparr>"
    by (rule CompleteIf_stages [OF assms(1,2)])
  obtain files where as:
    "list_all2 (\<lambda>p f. f \<in> set (seFiles d) \<and> sfName f = partFileName (ptNumber p) (ptETag p) \<and>
       hex_lower (md5 (sfData f)) = ptETag p \<and> int (length (sfData f)) = ptSize p) selected files"
    "etag = hex_lower (md5 (concat (map (\<lambda>f. md5 (sfData f)) files))) @ ''-'' @ FormatInt (int (length selected))"
    "sz = int (length (concat (map sfData files)))"
    "info = \<lparr> osSize = sz, osModTime = coModTime env, osRegular = True \<rparr>"
    "s1 = s\<lparr>mpObjects := upsert ofPath \<lparr> ofPath = dest, ofData = concat (map sfData files),
            ofModTime = coModTime env, ofRegular = True \<rparr> (mpObjects s)\<rparr>"
    by (rule assemble_sound [OF st(8)])
  have up: "upID up = ident" using st(4) by (auto simp: readMeta_def split: if_splits option.splits sum.splits)
  have "mpRoot s' = mpRoot s" using st(9) as(5) by simp
  then have "validateDest fs s' dest = validateDest fs s dest" by (simp add: validateDest_def)
  then have "validateDest fs s' dest = Inr ()" using st(3) by simp
  moreover have "row_of seName (mpStaging s') ident = None"
    using st(9) assms(4) by (simp add: removeStagingEntry_def row_of_delete_key)
  then have "readMeta (coMeta env') s' ident = Inl ErrNoSuchUpload"
    using st(1) assms(5) by (simp add: readMeta_def)
  moreover have "row_of ofPath (mpObjects s') dest = Some \<lparr> ofPath = dest, ofData = concat (map sfData files),
            ofModTime = coModTime env, ofRegular = True \<rparr>"
    using st(9) as(5) by (simp add: row_of_upsert)
  moreover have "\<exists>cf. row_of cfID (mpCompleted s') ident = Some cf \<and> cfRecord cf =
      Inr \<lparr> cmUploadID = ident, cmBucket = upBucket up, cmKey = upKey up, cmDest = destName s' dest,
            cmParts = partListDigest sha256_hex want, cmPartCount = int (length want), cmETag = etag,
            cmSize = osSize info, cmModTime = osModTime info \<rparr>"
    using st(9) assms(3) up as(5) by (simp add: recordCompletion_def row_of_upsert destName_def)
  moreover have "length selected = length want" using list_all2_lengthD [OF select_parts_sound(1) [OF st(7)]] by simp
  ultimately show ?thesis
    using st(1,2) assms(6,7) as(3,4) by (auto simp: CompleteIf_def repeatCompletion_def stat_of_def st(10))
qed

section \<open>The invariant of the staging area\<close>

text \<open>Every part file carries the MD5 of its bytes in its name, a descriptor belongs to its directory, and the
  directories stay within the configured number.\<close>

definition file_ok :: "(string \<Rightarrow> string) \<Rightarrow> staged_file \<Rightarrow> bool" where
  "file_ok md5 f \<longleftrightarrow> \<not> sfIsDir f \<and>
     (case parsePartFileName (sfName f) of
        None \<Rightarrow> True
      | Some (n, digest) \<Rightarrow> sfName f = partFileName n digest \<and> digest = hex_lower (md5 (sfData f)))"

definition entry_ok :: "(string \<Rightarrow> string) \<Rightarrow> staging_entry \<Rightarrow> bool" where
  "entry_ok md5 d \<longleftrightarrow> keyed sfName (seFiles d) \<and> list_all (file_ok md5) (seFiles d) \<and>
     (case seMeta d of Some (Inr up, _) \<Rightarrow> upID up = seName d | _ \<Rightarrow> True)"

definition mp_ok :: "(string \<Rightarrow> string) \<Rightarrow> mp_store \<Rightarrow> bool" where
  "mp_ok md5 s \<longleftrightarrow> keyed seName (mpStaging s) \<and> list_all (entry_ok md5) (mpStaging s) \<and>
     (MaxActiveUploads (mpLimits s) > 0 \<longrightarrow> countUploads s \<le> MaxActiveUploads (mpLimits s))"

text \<open>Any sequence of requests and sweeps, with any faults; requests that run while a part is received or
  between the two looks of the cleanup are again such sequences.\<close>

inductive mp_reach ::
    "(string \<Rightarrow> string) \<Rightarrow> (string \<Rightarrow> string) \<Rightarrow> mp_store \<Rightarrow> mp_store \<Rightarrow> bool"
  for md5 sha256_hex where
  refl: "mp_reach md5 sha256_hex s s"
| create: "mp_reach md5 sha256_hex s t \<Longrightarrow> \<forall>b. ceRand env = Inr b \<longrightarrow> length b = 16 \<Longrightarrow>
    mp_reach md5 sha256_hex s (snd (Create env t bucket key))"
| stage: "mp_reach md5 sha256_hex s t \<Longrightarrow> \<forall>u. mp_reach md5 sha256_hex u (others u) \<Longrightarrow>
    mp_reach md5 sha256_hex s (snd (WritePart md5 sha256_hex env others t ident number checks))"
| complete: "mp_reach md5 sha256_hex s t \<Longrightarrow>
    mp_reach md5 sha256_hex s (snd (CompleteIf md5 sha256_hex fs env t ident want dest precondition))"
| abort: "mp_reach md5 sha256_hex s t \<Longrightarrow> mp_reach md5 sha256_hex s (snd (Abort eRead out t ident))"
| cleanup: "mp_reach md5 sha256_hex s t \<Longrightarrow> \<forall>name u. mp_reach md5 sha256_hex u (clOthers env name u) \<Longrightarrow>
    mp_reach md5 sha256_hex s (snd (Cleanup env now t))"

lemma mp_ok_other_fields:
  "mp_ok md5 s \<Longrightarrow> mpStaging t = mpStaging s \<Longrightarrow> mpLimits t = mpLimits s \<Longrightarrow> mp_ok md5 t"
  by (simp add: mp_ok_def countUploads_def)

lemma keyed_map_same: "(\<And>x. key (f x) = key x) \<Longrightarrow> keyed key (map f t) = keyed key t"
  by (simp add: keyed_def comp_def)

lemma entry_ok_strip: "entry_ok md5 d \<Longrightarrow> entry_ok md5 (strip_entry names meta d)"
  by (auto simp: entry_ok_def strip_entry_def keyed_filter list_all_iff split: option.splits sum.splits)

lemma strip_entry_keeps [simp]:
  "seName (strip_entry names meta d) = seName d" "seIsDir (strip_entry names meta d) = seIsDir d"
  by (simp_all add: strip_entry_def)

lemma mp_ok_delete: "mp_ok md5 s \<Longrightarrow> mp_ok md5 (s\<lparr>mpStaging := delete_key seName name (mpStaging s)\<rparr>)"
  using length_filter_le [of "\<lambda>d. seName d \<noteq> name" "filter (\<lambda>d. seIsDir d \<and> ValidUploadID (seName d)) (mpStaging s)"]
  by (auto simp: mp_ok_def countUploads_def keyed_filter delete_key_def list_all_iff conj_commute)

lemma mp_ok_remove:
  assumes "mp_ok md5 s"
  shows "mp_ok md5 (snd (removeStagingEntry out s name))"
proof (cases out)
  case (RemovePartly x names meta)
  let ?f = "\<lambda>d. if seName d = name then strip_entry names meta d else d"
  have "keyed seName (map ?f (mpStaging s))" using assms by (subst keyed_map_same) (auto simp: mp_ok_def)
  moreover have "length (filter (\<lambda>d. seIsDir d \<and> ValidUploadID (seName d)) (map ?f (mpStaging s))) =
      length (filter (\<lambda>d. seIsDir d \<and> ValidUploadID (seName d)) (mpStaging s))"
    by (simp add: filter_map comp_def if_distrib cong: if_cong)
  ultimately show ?thesis using assms RemovePartly
    by (auto simp: removeStagingEntry_def mp_ok_def countUploads_def list_all_iff entry_ok_strip)
qed (use assms mp_ok_delete in \<open>auto simp: removeStagingEntry_def\<close>)

lemma mp_ok_replace:
  assumes "mp_ok md5 s" "row_of seName (mpStaging s) (seName d) = Some d0" "entry_ok md5 d" "seIsDir d = seIsDir d0"
  shows "mp_ok md5 (s\<lparr>mpStaging := upsert seName d (mpStaging s)\<rparr>)"
proof -
  have "length (filter (\<lambda>d. seIsDir d \<and> ValidUploadID (seName d)) (upsert seName d t)) =
      length (filter (\<lambda>d. seIsDir d \<and> ValidUploadID (seName d)) t)"
    if "row_of seName t (seName d) = Some d0" for t
    using that assms(4) by (induction t) (auto split: if_splits)
  moreover have "list_all (entry_ok md5) (upsert seName d (mpStaging s))"
    using assms(1,3) set_upsert_subset [of seName d "mpStaging s"] by (auto simp: mp_ok_def list_all_iff)
  ultimately show ?thesis using assms(1,2) by (simp add: mp_ok_def countUploads_def keyed_upsert)
qed

lemma mp_ok_create_entry:
  assumes "mp_ok md5 s" "row_of seName (mpStaging s) (seName d) = None" "entry_ok md5 d"
    "MaxActiveUploads (mpLimits s) > 0 \<longrightarrow> countUploads s < MaxActiveUploads (mpLimits s)"
  shows "mp_ok md5 (s\<lparr>mpStaging := upsert seName d (mpStaging s)\<rparr>)"
proof -
  have "upsert seName d (mpStaging s) = mpStaging s @ [d]"
    using assms(2) by (intro upsert_fresh) (simp add: row_of_None)
  moreover have "keyed seName (upsert seName d (mpStaging s))" using assms(1) by (simp add: mp_ok_def keyed_upsert)
  ultimately show ?thesis using assms(1,3,4) by (auto simp: mp_ok_def countUploads_def)
qed

lemma mp_ok_Create:
  assumes "mp_ok md5 s"
  shows "mp_ok md5 (snd (Create env s bucket key))"
proof -
  have entry: "mp_ok md5 (s\<lparr>mpStaging := upsert seName \<lparr> seName = ident, seIsDir = True, seModTime = t, seMeta = m,
        seFiles = [] \<rparr> (mpStaging s)\<rparr>)"
    if "row_of seName (mpStaging s) ident = None" "case m of Some (Inr up, _) \<Rightarrow> upID up = ident | _ \<Rightarrow> True"
      "MaxActiveUploads (mpLimits s) > 0 \<longrightarrow> countUploads s < MaxActiveUploads (mpLimits s)" for ident t m
    using that by (intro mp_ok_create_entry [OF assms]) (auto simp: entry_ok_def keyed_def split: option.splits sum.splits)
  show ?thesis
    using assms entry
    by (auto simp: Create_def Let_def split: option.splits sum.splits intro!: mp_ok_remove)
qed

lemma remove_files_sub: "set (snd (remove_files err skip fs)) \<subseteq> set fs \<and> (keyed sfName fs \<longrightarrow> keyed sfName (snd (remove_files err skip fs)))"
  by (induction err skip fs rule: remove_files.induct)
    (auto simp: keyed_def split: option.splits prod.splits if_splits, (metis image_eqI subsetD)+)

lemma file_ok_fresh:
  assumes "\<forall>x. length (md5 x) = 16" "1 \<le> n"
  shows "file_ok md5 \<lparr> sfName = partFileName n (hex_lower (md5 data)), sfData = data, sfModTime = t, sfIsDir = False \<rparr>"
  using parsePartFileName_partFileName [OF assms(2) isHexMD5_hex, of "md5 data"] assms(1) by (simp add: file_ok_def)

lemma entry_ok_sub:
  "entry_ok md5 e \<Longrightarrow> set fs \<subseteq> set (seFiles e) \<Longrightarrow> keyed sfName fs \<Longrightarrow> entry_ok md5 (e\<lparr>seFiles := fs\<rparr>)"
  by (auto simp: entry_ok_def list_all_iff split: option.splits sum.splits)

lemma entry_ok_supersede:
  assumes "entry_ok md5 e"
  shows "entry_ok md5 (snd (removeSupersededParts x err e n dg))"
proof (cases x)
  case None
  let ?fs = "snd (remove_files err (\<lambda>f. \<not> other_part n dg f) (seFiles e))"
  have "snd (removeSupersededParts x err e n dg) = e\<lparr>seFiles := ?fs\<rparr>"
    by (simp add: removeSupersededParts_def None Let_def case_prod_beta)
  moreover have "entry_ok md5 (e\<lparr>seFiles := ?fs\<rparr>)"
    using remove_files_sub [of err "\<lambda>f. \<not> other_part n dg f" "seFiles e"] assms
    by (intro entry_ok_sub) (auto simp: entry_ok_def)
  ultimately show ?thesis by simp
qed (simp add: removeSupersededParts_def assms)

lemma entry_ok_publish_file:
  assumes "entry_ok md5 d" "\<forall>x. length (md5 x) = 16" "1 \<le> n"
  shows "entry_ok md5 (snd (publish_file env d n (hex_lower (md5 data)) data))"
proof -
  let ?f = "\<lparr> sfName = partFileName n (hex_lower (md5 data)), sfData = data, sfModTime = wpModTime env, sfIsDir = False \<rparr>"
  define d1 where "d1 = d\<lparr>seFiles := upsert sfName ?f (seFiles d), seModTime := wpNow env\<rparr>"
  have d1: "entry_ok md5 d1"
    using assms(1) file_ok_fresh [OF assms(2,3), of data "wpModTime env"] set_upsert_subset [of sfName ?f "seFiles d"]
    by (auto simp: d1_def entry_ok_def keyed_upsert list_all_iff split: option.splits sum.splits)
  have "entry_ok md5 (d1\<lparr>seFiles := delete_key sfName nm (seFiles d1)\<rparr>)" for nm
    using d1 by (intro entry_ok_sub) (auto simp: delete_key_def entry_ok_def keyed_filter)
  then show ?thesis
    using assms(1) d1 entry_ok_supersede [OF d1, of "wpReadDir env" "wpRemove env" n "hex_lower (md5 data)"]
    by (simp add: publish_file_def Let_def d1_def [symmetric] case_prod_beta split: option.splits)
qed

lemma publish_file_keeps [simp]:
  "seName (snd (publish_file env d n digest data)) = seName d" "seIsDir (snd (publish_file env d n digest data)) = seIsDir d"
  by (auto simp: publish_file_def Let_def removeSupersededParts_def split: option.splits prod.splits)

lemma mp_ok_part_publish:
  assumes "mp_ok md5 s" "\<forall>x. length (md5 x) = 16" "1 \<le> n"
  shows "mp_ok md5 (snd (part_publish md5 env s ident n data))"
proof -
  have "mp_ok md5 (s\<lparr>mpStaging := upsert seName (snd (publish_file env d n (hex_lower (md5 data)) data)) (mpStaging s)\<rparr>)"
    if d: "row_of seName (mpStaging s) ident = Some d" for d
  proof -
    have "entry_ok md5 d" "seName d = ident" using row_of_SomeD [OF d] assms(1) by (auto simp: mp_ok_def list_all_iff)
    then show ?thesis using d entry_ok_publish_file [OF _ assms(2,3)] by (intro mp_ok_replace [OF assms(1)]) auto
  qed
  then show ?thesis using assms(1)
    by (simp add: part_publish_def Let_def case_prod_beta split: sum.splits option.splits)
qed

lemma mp_ok_WritePart:
  assumes "mp_ok md5 s" "\<forall>x. length (md5 x) = 16" "\<forall>u. mp_ok md5 u \<longrightarrow> mp_ok md5 (others u)"
  shows "mp_ok md5 (snd (WritePart md5 sha256_hex env others s ident n checks))"
proof (cases "part_admit s ident n checks")
  case (Inr a)
  obtain wantMD5 slot where a: "a = (wantMD5, slot)" by (cases a)
  let ?s1 = "s\<lparr>mpInFlight := mpInFlight s + (if slot then 1 else 0)\<rparr>"
  have n: "1 \<le> n" using Inr by (auto simp: part_admit_def split: if_splits)
  have s1: "mp_ok md5 ?s1" using mp_ok_other_fields [OF assms(1)] by simp
  then have s2: "mp_ok md5 (others ?s1)" using assms(3) by blast
  have taken: "mp_ok md5 (t\<lparr>mpInFlight := x\<rparr>)" if "mp_ok md5 t" for t x using mp_ok_other_fields [OF that] by simp
  have s3: "mp_ok md5 (snd (part_publish md5 env (others ?s1) ident n data))" for data
    using mp_ok_part_publish [OF s2 assms(2) n] .
  show ?thesis
    unfolding WritePart_def Inr a using taken [OF s1] taken [OF s2] taken [OF s3] assms(1) s2 s3
    by (cases slot) (simp_all add: Let_def case_prod_beta split: sum.splits option.splits os_error.splits)
qed (simp add: WritePart_def assms(1))

lemma CompleteIf_staging:
  "\<exists>s1. mpStaging s1 = mpStaging s \<and> mpLimits s1 = mpLimits s \<and>
     (snd (CompleteIf md5 sha256_hex fs env s ident want dest precondition) = s1 \<or>
      snd (CompleteIf md5 sha256_hex fs env s ident want dest precondition) = snd (removeStagingEntry (coRemove env) s1 ident))"
proof -
  have "mpStaging (snd (publish_object env p s dest data)) = mpStaging s \<and> mpLimits (snd (publish_object env p s dest data)) = mpLimits s"
    for p data
    by (auto simp: publish_object_def Let_def split: option.splits publish_outcome.splits)
  then have a: "mpStaging (snd (assemble md5 env p s fl ps sz dest)) = mpStaging s \<and>
      mpLimits (snd (assemble md5 env p s fl ps sz dest)) = mpLimits s" for p fl ps sz
    by (simp add: assemble_def case_prod_beta split: option.splits sum.splits)
  show ?thesis
  proof (cases "\<exists>r. fst (CompleteIf md5 sha256_hex fs env s ident want dest precondition) = Inr r \<and> \<not> reRepeated r")
    case True
    then obtain r s' where c: "CompleteIf md5 sha256_hex fs env s ident want dest precondition = (Inr r, s')" "\<not> reRepeated r"
      by (metis prod.collapse)
    show ?thesis
    proof (rule CompleteIf_stages [OF c])
      fix up d selected sz etag info s1
      assume as: "assemble md5 env precondition s (seFiles d) selected sz dest = (Inr (etag, info), s1)"
        "s' = snd (removeStagingEntry (coRemove env) (recordCompletion sha256_hex env s1 up want dest etag info) ident)"
      show ?thesis
        using a [of precondition "seFiles d" selected sz] as c(1)
        by (intro exI [of _ "recordCompletion sha256_hex env s1 up want dest etag info"]) simp
    qed
  next
    case False
    have "snd (CompleteIf md5 sha256_hex fs env s ident want dest precondition) = s \<or>
        (\<exists>fl ps sz. snd (CompleteIf md5 sha256_hex fs env s ident want dest precondition) =
          snd (assemble md5 env precondition s fl ps sz dest))"
    proof (cases "chosen_parts env s ident want")
      case (Inr b)
      obtain ps sz where b: "b = (ps, sz)" by (cases b)
      define fl where "fl = (case row_of seName (mpStaging s) ident of None \<Rightarrow> [] | Some d \<Rightarrow> seFiles d)"
      obtain q s1 where q: "assemble md5 env precondition s fl ps sz dest = (q, s1)" by fastforce
      have "snd (assemble md5 env precondition s fl ps sz dest) = s1" using q by simp
      moreover have "snd (CompleteIf md5 sha256_hex fs env s ident want dest precondition) \<in> {s, s1}" using False q b Inr
        by (cases q) (auto simp: CompleteIf_def Let_def fl_def [symmetric] split: sum.splits mp_error.splits)
      ultimately show ?thesis by blast
    qed (auto simp: CompleteIf_def split: sum.splits mp_error.splits)
    then show ?thesis using a by metis
  qed
qed

lemma mp_ok_CompleteIf:
  assumes "mp_ok md5 s"
  shows "mp_ok md5 (snd (CompleteIf md5 sha256_hex fs env s ident want dest precondition))"
  using CompleteIf_staging [of s md5 sha256_hex fs env ident want dest precondition] mp_ok_other_fields [OF assms] mp_ok_remove
  by metis

lemma mp_ok_Abort: "mp_ok md5 s \<Longrightarrow> mp_ok md5 (snd (Abort eRead out s ident))"
  by (auto simp: Abort_def mp_ok_remove split: sum.splits)

lemma mp_ok_Cleanup:
  assumes "mp_ok md5 s" "\<forall>name u. mp_ok md5 u \<longrightarrow> mp_ok md5 (clOthers env name u)"
  shows "mp_ok md5 (snd (Cleanup env now s))"
proof -
  have rec: "mp_ok md5 (foldl (cleanup_record env now) t cs)" if "mp_ok md5 t" for t cs
    using that
  proof (induction cs arbitrary: t)
    case (Cons c cs)
    have "mp_ok md5 (cleanup_record env now t c)"
      using mp_ok_other_fields [OF Cons.prems, of "cleanup_record env now t c"]
      by (auto simp: cleanup_record_def split: publish_outcome.splits)
    then show ?case using Cons.IH by simp
  qed simp
  have step: "mp_ok md5 (snd (cleanup_entry env now e acc))" if "mp_ok md5 (snd acc)" for e acc
  proof -
    have "mp_ok md5 (clOthers env name (snd acc))" for name using that assms(2) by blast
    then have "mp_ok md5 (snd (removeStagingEntry out (clOthers env name (snd acc)) m))" for out name m
      using mp_ok_remove by blast
    then show ?thesis using that assms(2) mp_ok_remove
      by (simp add: cleanup_entry_def Let_def case_prod_beta split: option.splits sum.splits)
  qed
  have "mp_ok md5 (snd (fold (cleanup_entry env now) es acc))" if "mp_ok md5 (snd acc)" for es acc
    using that by (induction es arbitrary: acc) (simp_all add: step)
  then show ?thesis using assms(1) rec by (simp add: Cleanup_def cleanupCompletions_def Let_def)
qed

lemma mp_reach_ok:
  assumes "mp_reach md5 sha256_hex s t" "mp_ok md5 s" "\<forall>x. length (md5 x) = 16"
  shows "mp_ok md5 t"
proof -
  have "mp_ok md5 s \<longrightarrow> mp_ok md5 t" using assms(1)
  proof (induction rule: mp_reach.induct)
    case (stage s t others env ident number checks)
    then show ?case using mp_ok_WritePart assms(3) by blast
  next
    case (cleanup s t env now)
    then show ?case using mp_ok_Cleanup by blast
  qed (auto intro: mp_ok_Create mp_ok_CompleteIf mp_ok_Abort)
  then show ?thesis using assms(2) by blast
qed

lemma copy_parts_intact:
  assumes "entry_ok md5 d" "\<forall>p \<in> set ps. row_of ptNumber (parts_of (seFiles d)) (ptNumber p) = Some p"
  shows "copy_parts md5 env (seFiles d) ps \<noteq> Inl ErrCorruptPart"
  using assms(2)
proof (induction ps)
  case (Cons p ps)
  obtain f where f: "f \<in> set (seFiles d)" "part_of f = Some p" using Cons.prems by (auto elim: parts_of_file)
  have ok: "sfName f = partFileName (ptNumber p) (ptETag p)" "hex_lower (md5 (sfData f)) = ptETag p"
    using assms(1) f(1) part_ofD [OF f(2)] by (auto simp: entry_ok_def list_all_iff file_ok_def)
  have "row_of sfName (seFiles d) (partFileName (ptNumber p) (ptETag p)) = Some f"
    using assms(1) f(1) ok(1) by (auto simp: entry_ok_def row_of_Some)
  then show ?case using Cons ok(2) part_ofD(2) [OF f(2)]
    by (auto simp: Let_def result_bind_def split: option.splits os_error.splits sum.splits)
qed simp

lemma select_parts_rows:
  assumes "select_parts lim staged acc want = Inr (ps, t)"
  shows "\<forall>p \<in> set ps. row_of ptNumber staged (ptNumber p) = Some p"
proof
  fix p assume "p \<in> set ps"
  then obtain w :: CompletePart where "row_of ptNumber staged (cpNumber w) = Some p"
    using select_parts_sound(1) [OF assms] unfolding list_all2_conv_all_nth in_set_conv_nth by metis
  then show "row_of ptNumber staged (ptNumber p) = Some p" using row_of_SomeD by fastforce
qed

lemma check_order_errors: "check_order limit prev want \<noteq> Inl ErrCorruptPart"
  by (induction limit prev want rule: check_order.induct) auto

lemma select_parts_errors: "select_parts lim staged acc want \<noteq> Inl ErrCorruptPart"
  by (induction lim staged acc want rule: select_parts.induct)
    (auto simp: Let_def result_bind_def split: option.splits sum.splits)

lemma early_errors:
  "readMeta e s ident \<noteq> Inl ErrCorruptPart" "stagedParts e s ident \<noteq> Inl ErrCorruptPart"
  "repeatCompletion sha256_hex env s ident want dest \<noteq> Inl ErrCorruptPart" "validateDest fs s dest \<noteq> Inl ErrCorruptPart"
  by (auto simp: readMeta_def stagedParts_def repeatCompletion_def validateDest_def Let_def
      split: if_splits option.splits sum.splits)

lemma assemble_errors:
  "copy_parts md5 env fl ps \<noteq> Inl ErrCorruptPart \<Longrightarrow> fst (assemble md5 env precondition s fl ps sz dest) \<noteq> Inl ErrCorruptPart"
  by (auto simp: assemble_def publish_object_def Let_def split: option.splits sum.splits publish_outcome.splits)

lemma mp_ok_no_corruption:
  assumes "mp_ok md5 s"
  shows "fst (CompleteIf md5 sha256_hex fs env s ident want dest precondition) \<noteq> Inl ErrCorruptPart"
proof (cases "readMeta (coMeta env) s ident")
  case (Inl e)
  then show ?thesis using early_errors by (auto simp: CompleteIf_def split: sum.splits mp_error.splits)
next
  case (Inr up)
  then obtain d where d: "row_of seName (mpStaging s) ident = Some d"
    by (auto simp: readMeta_def split: if_splits option.splits)
  have ok: "entry_ok md5 d" using row_of_SomeD [OF d] assms by (auto simp: mp_ok_def list_all_iff)
  show ?thesis
  proof (cases "chosen_parts env s ident want")
    case (Inl e)
    have "e \<noteq> ErrCorruptPart"
      using Inl check_order_errors select_parts_errors early_errors(2)
      by (fastforce simp: chosen_parts_def result_bind_def split: sum.splits)
    then show ?thesis using Inr Inl early_errors(4) by (auto simp: CompleteIf_def split: sum.splits)
  next
    case (Inr b)
    obtain ps sz where b: "b = (ps, sz)" by (cases b)
    then have "select_parts (mpLimits s) (parts_of (seFiles d)) 0 want = Inr (ps, sz)"
      using Inr d by (auto simp: chosen_parts_def stagedParts_def result_bind_Inr split: option.splits if_splits)
    then have a: "fst (assemble md5 env precondition s (seFiles d) ps sz dest) \<noteq> Inl ErrCorruptPart"
      by (intro assemble_errors copy_parts_intact [OF ok] select_parts_rows)
    obtain q s1 where q: "assemble md5 env precondition s (seFiles d) ps sz dest = (q, s1)" by fastforce
    show ?thesis using a q \<open>readMeta _ _ _ = Inr up\<close> Inr b d early_errors(4)
      by (cases q) (auto simp: CompleteIf_def Let_def split: sum.splits)
  qed
qed

text \<open>C30: Whatever requests, faults, interleavings and sweeps the staging store has seen, every part file holds the
  bytes whose MD5 its name carries, no more uploads are open than configured, and a completion never fails because
  of a corrupt part: the digest check on assembly can only fire for damage done behind the store's back.\<close>

theorem staging_invariant:
  assumes "mp_reach md5 sha256_hex s t" "mp_ok md5 s" "\<forall>x. length (md5 x) = 16"
  shows "mp_ok md5 t \<and> fst (CompleteIf md5 sha256_hex fs env t ident want dest precondition) \<noteq> Inl ErrCorruptPart"
  using mp_reach_ok [OF assms] mp_ok_no_corruption by blast

section \<open>Staging a part\<close>

lemma remove_files_all:
  "fst (remove_files err skip fs) = None \<Longrightarrow> snd (remove_files err skip fs) = filter skip fs"
  by (induction err skip fs rule: remove_files.induct) (auto simp: case_prod_beta Let_def split: option.splits if_splits)

text \<open>The candidates of one number, in the order of the directory.\<close>

definition candidates :: "int \<Rightarrow> staged_file list \<Rightarrow> Part list" where
  "candidates m fs = filter (\<lambda>c. ptNumber c = m) (List.map_filter part_of fs)"

lemma candidates_simps [simp]:
  "candidates m [] = []"
  "candidates m (g # fs) = (case part_of g of Some c \<Rightarrow> if ptNumber c = m then c # candidates m fs else candidates m fs
     | None \<Rightarrow> candidates m fs)"
  by (simp_all add: candidates_def map_filter_simps split: option.splits)

lemma candidates_filter:
  "\<forall>g \<in> set fs. \<not> P g \<longrightarrow> candidates m [g] = [] \<Longrightarrow> candidates m (filter P fs) = candidates m fs"
  by (induction fs) (auto split: option.splits if_splits)

lemma candidates_upsert:
  "candidates m [f] = [] \<Longrightarrow> \<forall>g \<in> set fs. sfName g = sfName f \<longrightarrow> candidates m [g] = [] \<Longrightarrow>
   candidates m (upsert sfName f fs) = candidates m fs"
  by (induction fs) (auto split: option.splits if_splits)

lemma candidates_single:
  "distinct fs \<Longrightarrow> f \<in> set fs \<Longrightarrow> \<forall>g \<in> set fs. g \<noteq> f \<longrightarrow> candidates m [g] = [] \<Longrightarrow> candidates m fs = candidates m [f]"
proof (induction fs)
  case (Cons g fs)
  have none: "\<forall>g \<in> set gs. candidates m [g] = [] \<Longrightarrow> candidates m gs = []" for gs
    by (induction gs) (auto split: option.splits if_splits)
  show ?case
  proof (cases "g = f")
    case True
    then have "\<forall>h \<in> set fs. candidates m [h] = []" using Cons.prems by (metis distinct.simps(2) list.set_intros(2))
    then show ?thesis using True none [of fs] by (auto split: option.splits)
  next
    case False
    then have "candidates m fs = candidates m [f]" using Cons by auto
    then show ?thesis using Cons.prems(3) False by (auto split: option.splits if_splits)
  qed
qed simp

lemma parts_of_candidates: "row_of ptNumber (parts_of fs) m = foldl best None (candidates m fs)"
  by (simp add: parts_of_row candidates_def)

lemma published_parts:
  assumes "entry_ok md5 d" "\<forall>x. length (md5 x) = 16" "1 \<le> n" "n \<le> 99999"
    "publish_file env d n (hex_lower (md5 data)) data = (None, d')"
  shows "row_of ptNumber (parts_of (seFiles d')) n =
      Some \<lparr> ptNumber = n, ptSize = int (length data), ptETag = hex_lower (md5 data), ptLastModified = wpModTime env \<rparr>"
    "m \<noteq> n \<Longrightarrow> row_of ptNumber (parts_of (seFiles d')) m = row_of ptNumber (parts_of (seFiles d)) m"
proof -
  let ?dg = "hex_lower (md5 data)"
  define f where "f = \<lparr> sfName = partFileName n ?dg, sfData = data, sfModTime = wpModTime env, sfIsDir = False \<rparr>"
  define P where "P = (\<lambda>g. \<not> other_part n ?dg g)"
  have parse: "parsePartFileName (sfName f) = Some (n, ?dg)"
    using parsePartFileName_partFileName [OF assms(3) isHexMD5_hex, of "md5 data"] assms(2,4) by (simp add: f_def)
  have files: "seFiles d' = filter P (upsert sfName f (seFiles d))"
  proof -
    obtain e d2 where s: "removeSupersededParts (wpReadDir env) (wpRemove env)
        (d\<lparr>seFiles := upsert sfName f (seFiles d), seModTime := wpNow env\<rparr>) n ?dg = (e, d2)" by fastforce
    then have "e = None" "d' = d2"
      using assms(5) by (auto simp: publish_file_def Let_def f_def split: if_splits option.splits)
    then show ?thesis using s remove_files_all [of "wpRemove env" P "upsert sfName f (seFiles d)"]
      by (auto simp: removeSupersededParts_def P_def case_prod_beta split: option.splits)
  qed
  have pf: "part_of f = Some \<lparr> ptNumber = n, ptSize = int (length data), ptETag = ?dg, ptLastModified = wpModTime env \<rparr>"
    using parse by (simp add: part_of_def f_def)
  show "row_of ptNumber (parts_of (seFiles d')) m = row_of ptNumber (parts_of (seFiles d)) m" if "m \<noteq> n"
  proof -
    have other: "candidates m [g] = []" if "parsePartFileName (sfName g) = Some (n, x)" for g x
      using that \<open>m \<noteq> n\<close> by (auto dest!: part_ofD(1) split: option.splits)
    have "candidates m (seFiles d') = candidates m (upsert sfName f (seFiles d))"
      unfolding files using other by (intro candidates_filter) (auto simp: P_def other_part_def split: option.splits)
    also have "\<dots> = candidates m (seFiles d)"
      using other parse by (intro candidates_upsert) auto
    finally show ?thesis by (simp add: parts_of_candidates)
  qed
  have "keyed sfName (seFiles d')"
    unfolding files using assms(1) by (intro keyed_filter keyed_upsert) (simp add: entry_ok_def)
  then have k: "keyed sfName (seFiles d')" "distinct (seFiles d')" by (auto simp: keyed_def distinct_map)
  have mem: "f \<in> set (seFiles d')" unfolding files using in_set_upsert [of f] parse by (auto simp: P_def other_part_def)
  have "candidates n [g] = []" if "g \<in> set (seFiles d')" "g \<noteq> f" for g
  proof (rule ccontr)
    assume "candidates n [g] \<noteq> []"
    then obtain x where x: "parsePartFileName (sfName g) = Some (n, x)"
      by (auto dest!: part_ofD(1) split: option.splits if_splits)
    then have "x = ?dg" using that(1) by (auto simp: files P_def other_part_def)
    moreover have "file_ok md5 g"
      using that set_upsert_subset [of sfName f "seFiles d"] assms(1) by (auto simp: files entry_ok_def list_all_iff)
    ultimately have "sfName g = sfName f" using x by (simp add: file_ok_def f_def)
    then show False using k(1) that mem by (auto simp: keyed_def distinct_map dest: inj_onD)
  qed
  then have "candidates n (seFiles d') = candidates n [f]" using candidates_single [OF k(2) mem] by blast
  then show "row_of ptNumber (parts_of (seFiles d')) n =
      Some \<lparr> ptNumber = n, ptSize = int (length data), ptETag = ?dg, ptLastModified = wpModTime env \<rparr>"
    using pf by (simp add: parts_of_candidates best_def newer_part_def)
qed

lemma part_receive_all:
  assumes "part_receive md5 sha256_hex env limits wantMD5 checks = Inr data"
    "0 \<le> MaxPartBytes limits" "MaxPartBytes limits < MaxInt64"
  shows "data = wpBody env" "int (length data) \<le> MaxPartBytes limits" "wantMD5 = None \<or> wantMD5 = Some (md5 data)"
    "declaresSHA256 (ckContentSHA256 checks) \<Longrightarrow> sha256_hex data = normalizeHex (ckContentSHA256 checks)"
proof -
  have w: "wrap64 (MaxPartBytes limits + 1) = MaxPartBytes limits + 1"
    using assms(2,3) by (intro wrap64_id) (simp add: in_int64_def)
  have len: "int (length data) \<le> MaxPartBytes limits"
    and data: "data = fst (limit_read (MaxPartBytes limits + 1) (wpBody env) (wpReadErr env))"
    using assms(1) by (auto simp: part_receive_def w case_prod_beta split: option.splits if_splits)
  show "int (length data) \<le> MaxPartBytes limits" by (fact len)
  show "data = wpBody env" using len data assms(2) by (auto simp: limit_read_def split: if_splits)
  show "wantMD5 = None \<or> wantMD5 = Some (md5 data)"
    using assms(1) by (cases wantMD5) (auto simp: part_receive_def case_prod_beta split: option.splits if_splits)
  show "sha256_hex data = normalizeHex (ckContentSHA256 checks)" if "declaresSHA256 (ckContentSHA256 checks)"
    using assms(1) that by (auto simp: part_receive_def case_prod_beta split: option.splits if_splits)
qed

lemma WritePart_stages:
  assumes "WritePart md5 sha256_hex env others s ident n checks = (Inr p, s')"
  obtains wantMD5 slot data s2 s3 where
    "part_admit s ident n checks = Inr (wantMD5, slot)"
    "s2 = others (s\<lparr>mpInFlight := mpInFlight s + (if slot then 1 else 0)\<rparr>)"
    "part_receive md5 sha256_hex env (mpLimits s) wantMD5 checks = Inr data"
    "part_publish md5 env s2 ident n data = (Inr p, s3)" "mpStaging s' = mpStaging s3"
proof -
  obtain wantMD5 slot where a: "part_admit s ident n checks = Inr (wantMD5, slot)"
    using assms by (auto simp: WritePart_def split: sum.splits)
  let ?s2 = "others (s\<lparr>mpInFlight := mpInFlight s + (if slot then 1 else 0)\<rparr>)"
  obtain data where r: "part_receive md5 sha256_hex env (mpLimits s) wantMD5 checks = Inr data"
    using assms a by (auto simp: WritePart_def Let_def split: sum.splits option.splits os_error.splits)
  obtain q s3 where q: "part_publish md5 env ?s2 ident n data = (q, s3)" by fastforce
  have "q = Inr p \<and> mpStaging s' = mpStaging s3"
    using assms a r q by (auto simp: WritePart_def Let_def split: sum.splits option.splits os_error.splits)
  then show thesis using that a r q by blast
qed

text \<open>C31: A part that is staged successfully is the whole body the client sent, within the size limit and matching
  every digest the client declared; afterwards the upload lists it under its number with the MD5 of the body as its
  ETag, instead of whatever that number held before, and lists every other part as before, even when other requests
  ran while the body was received. The limit is below the largest 64-bit integer and the number has at most
  five digits.\<close>

theorem WritePart_replaces:
  assumes "WritePart md5 sha256_hex env others s ident n checks = (Inr p, s')"
    "mp_ok md5 s" "\<forall>u. mp_ok md5 u \<longrightarrow> mp_ok md5 (others u)" "\<forall>x. length (md5 x) = 16"
    "n \<le> 99999" "0 \<le> MaxPartBytes (mpLimits s)" "MaxPartBytes (mpLimits s) < MaxInt64"
    "before = others (s\<lparr>mpInFlight := mpInFlight s + (if MaxConcurrentParts (mpLimits s) > 0 then 1 else 0)\<rparr>)"
  shows "int (length (wpBody env)) \<le> MaxPartBytes (mpLimits s) \<and>
     (ckContentMD5 checks \<noteq> [] \<longrightarrow> base64_DecodeString (TrimSpace (ckContentMD5 checks)) = Some (md5 (wpBody env))) \<and>
     (declaresSHA256 (ckContentSHA256 checks) \<longrightarrow> sha256_hex (wpBody env) = normalizeHex (ckContentSHA256 checks)) \<and>
     (\<exists>old parts. stagedParts None before ident = Inr old \<and> stagedParts None s' ident = Inr parts \<and>
        row_of ptNumber parts n = Some \<lparr> ptNumber = n, ptSize = int (length (wpBody env)),
          ptETag = hex_lower (md5 (wpBody env)), ptLastModified = wpModTime env \<rparr> \<and>
        (\<forall>m. m \<noteq> n \<longrightarrow> row_of ptNumber parts m = row_of ptNumber old m))"
proof -
  obtain wantMD5 slot data s2 s3 where st: "part_admit s ident n checks = Inr (wantMD5, slot)"
    "s2 = others (s\<lparr>mpInFlight := mpInFlight s + (if slot then 1 else 0)\<rparr>)"
    "part_receive md5 sha256_hex env (mpLimits s) wantMD5 checks = Inr data"
    "part_publish md5 env s2 ident n data = (Inr p, s3)" "mpStaging s' = mpStaging s3"
    by (rule WritePart_stages [OF assms(1)])
  have adm: "1 \<le> n" "slot = (MaxConcurrentParts (mpLimits s) > 0)"
    using st(1) by (auto simp: part_admit_def Let_def split: if_splits option.splits)
  have want: "ckContentMD5 checks \<noteq> [] \<longrightarrow> (\<exists>w. wantMD5 = Some w \<and> base64_DecodeString (TrimSpace (ckContentMD5 checks)) = Some w)"
    using st(1) by (cases "base64_DecodeString (TrimSpace (ckContentMD5 checks))",
        auto simp: part_admit_def Let_def split: if_splits)
  have s2: "s2 = before" "mp_ok md5 s2"
    using st(2) adm(2) assms(3,8) mp_ok_other_fields [OF assms(2)] by auto
  note rec = part_receive_all [OF st(3) assms(6,7)]
  obtain d d' where d: "row_of seName (mpStaging s2) ident = Some d" "seIsDir d"
    "publish_file env d n (hex_lower (md5 data)) data = (None, d')" "mpStaging s3 = upsert seName d' (mpStaging s2)"
    using st(4) by (auto simp: part_publish_def readMeta_def Let_def split: sum.splits option.splits prod.splits if_splits)
  have names: "seName d = ident" "seName d' = ident" "seIsDir d'" "entry_ok md5 d"
    using row_of_SomeD [OF d(1)] publish_file_keeps [of env d n "hex_lower (md5 data)" data] d(2,3) s2(2)
    by (auto simp: mp_ok_def list_all_iff)
  have "stagedParts None s' ident = Inr (parts_of (seFiles d'))" "stagedParts None before ident = Inr (parts_of (seFiles d))"
    using st(5) d names s2(1) by (auto simp: stagedParts_def row_of_upsert)
  then show ?thesis
    using published_parts [OF names(4) assms(4) adm(1) assms(5) d(3)] rec want by auto
qed

text \<open>C33: The configured number of parts is not bounded by what a part file name can carry. A part with a number above
  99999 is accepted, but its six-digit file name is not recognised as a part again: no listing of any upload ever
  shows such a part, and a completion that names one is never carried out.\<close>

theorem six_digit_parts_unusable:
  assumes "isHexMD5 d" "99999 < n"
  shows "parsePartFileName (partFileName n d) = None \<and>
     (stagedParts e s ident = Inr parts \<longrightarrow> row_of ptNumber parts n = None) \<and>
     (n \<in> cpNumber ` set want \<longrightarrow> CompleteIf md5 sha256_hex fs env s ident want dest precondition = (Inr r, s') \<longrightarrow> reRepeated r)"
proof -
  have row: "row_of ptNumber (parts_of fl) n = None" for fl
  proof (rule ccontr)
    assume "row_of ptNumber (parts_of fl) n \<noteq> None"
    then obtain p where "row_of ptNumber (parts_of fl) n = Some p" by blast
    then obtain f where "part_of f = Some p" "ptNumber p = n" by (auto elim: parts_of_file)
    then show False using parsePartFileName_bounds(2) [OF part_ofD(1)] assms(2) by fastforce
  qed
  have "reRepeated r" if n: "n \<in> cpNumber ` set want" and c: "CompleteIf md5 sha256_hex fs env s ident want dest precondition = (Inr r, s')"
  proof (rule ccontr)
    assume "\<not> reRepeated r"
    then obtain d' :: staging_entry and ps sz where "select_parts (mpLimits s) (parts_of (seFiles d')) 0 want = Inr (ps, sz)"
      by (rule CompleteIf_stages [OF c])
    then have "list_all2 (\<lambda>w p. row_of ptNumber (parts_of (seFiles d')) (cpNumber w) = Some p \<and> etagMatches (cpETag w) (ptETag p)) want ps"
      by (rule select_parts_sound(1))
    moreover obtain i where "i < length want" "cpNumber (want ! i) = n" using n by (auto simp: in_set_conv_nth)
    ultimately show False using row by (auto simp: list_all2_conv_all_nth)
  qed
  then show ?thesis
    using row parsePartFileName_partFileName [of n d] assms by (auto simp: stagedParts_def split: option.splits if_splits)
qed

text \<open>The largest configurable part size is no limit either: one more wraps around, and nothing of the body is read.\<close>

lemma part_limit_wraps:
  assumes "MaxPartBytes limits = MaxInt64" "wpWriteErr env = None" "wpSyncErr env = None" "wpCloseErr env = None"
    "\<not> declaresSHA256 (ckContentSHA256 checks)"
  shows "part_receive md5 sha256_hex env limits None checks = Inr []"
  using assms by (simp add: part_receive_def limit_read_def wrap64_def)

section \<open>Listings\<close>

definition parts_page :: "string \<Rightarrow> mp_store \<Rightarrow> int \<Rightarrow> int \<Rightarrow> Part list" where
  "parts_page ident s n a = (case ListParts None None s ident a n of Inl _ \<Rightarrow> [] | Inr (ps, _) \<Rightarrow> ps)"

definition uploads_page :: "(string \<Rightarrow> string option) \<Rightarrow> string \<Rightarrow> string \<Rightarrow> mp_store \<Rightarrow> int \<Rightarrow> string \<times> string \<Rightarrow> Upload list" where
  "uploads_page eRead bucket keyPrefix s n a =
     (case List_uploads None eRead s bucket keyPrefix (fst a) (snd a) n of Inl _ \<Rightarrow> [] | Inr (us, _) \<Rightarrow> us)"

lemma parts_of_keyed: "keyed ptNumber (parts_of fs)" "sorted (map ptNumber (parts_of fs))"
proof -
  have "distinct (map ptNumber (foldl collect_part [] fs))" using collect_keyed [of "[]" fs] by (simp add: keyed_def)
  then show "keyed ptNumber (parts_of fs)"
    unfolding keyed_def parts_of_def by (metis mset_eq_imp_distinct_iff mset_map mset_sort)
qed (simp add: parts_of_def)

lemma bucket_upload_entry:
  assumes "u \<in> set (bucket_uploads eRead s bucket keyPrefix)"
  obtains d where "d \<in> set (mpStaging s)" "upID u = seName d" "ValidUploadID (upID u)"
proof -
  obtain d where d: "d \<in> set (mpStaging s)" "ValidUploadID (seName d)" "readMeta (eRead (seName d)) s (seName d) = Inr u"
    using assms by (auto simp: bucket_uploads_def split: if_splits sum.splits)
  then have "upID u = seName d" by (auto simp: readMeta_def split: option.splits if_splits sum.splits)
  then show thesis using that d by simp
qed

lemma bucket_uploads_distinct:
  assumes "keyed seName (mpStaging s)"
  shows "distinct (map upID (bucket_uploads eRead s bucket keyPrefix))"
proof -
  define g where "g = (\<lambda>d :: staging_entry. if \<not> seIsDir d \<or> \<not> ValidUploadID (seName d) then []
       else case readMeta (eRead (seName d)) s (seName d) of
              Inl _ \<Rightarrow> []
            | Inr up \<Rightarrow> if upBucket up \<noteq> bucket then []
                        else if keyPrefix \<noteq> [] \<and> \<not> HasPrefix (upKey up) keyPrefix then []
                        else [up])"
  have g: "map upID (g d) = [] \<or> map upID (g d) = [seName d]" for d
    by (auto simp: g_def readMeta_def split: sum.splits option.splits if_splits)
  have "distinct (map upID (concat (map g ds))) \<and> set (map upID (concat (map g ds))) \<subseteq> seName ` set ds"
    if "keyed seName ds" for ds
    using that
  proof (induction ds)
    case (Cons d ds)
    define L where "L = map upID (concat (map g ds))"
    have IH: "distinct L" "set L \<subseteq> seName ` set ds" "seName d \<notin> seName ` set ds"
      using Cons by (auto simp: keyed_def L_def)
    have eq: "map upID (concat (map g (d # ds))) = map upID (g d) @ L" by (simp add: L_def)
    show ?case unfolding eq using g [of d]
    proof
      assume e: "map upID (g d) = [seName d]"
      show "distinct (map upID (g d) @ L) \<and> set (map upID (g d) @ L) \<subseteq> seName ` set (d # ds)"
        unfolding e using IH by auto
    qed (use IH in auto)
  qed simp
  then show ?thesis using assms unfolding bucket_uploads_def g_def by blast
qed

lemma dropWhile_sorted_filter:
  "sorted (map key xs) \<Longrightarrow> dropWhile (\<lambda>x. \<not> a < key x) xs = filter (\<lambda>x. a < (key x :: 'k::linorder)) xs"
proof (induction xs)
  case (Cons x xs)
  then show ?case
  proof (cases "a < key x")
    case True
    then have "\<forall>y \<in> set xs. a < key y" using Cons.prems by (auto intro: less_le_trans)
    then have "filter (\<lambda>x. a < key x) xs = xs" by (simp add: filter_id_conv)
    then show ?thesis using True by simp
  qed auto
qed simp

interpretation staged: paged_query
  "\<lambda>s. is_ok (readMeta None s ident)"
  "\<lambda>s. case stagedParts None s ident of Inl _ \<Rightarrow> [] | Inr ps \<Rightarrow> ps" ptNumber "parts_page ident" for ident
proof
  fix s :: mp_store and n a :: int
  assume ok: "is_ok (readMeta None s ident)"
  then obtain up where up: "readMeta None s ident = Inr up" by (auto simp: is_ok_def split: sum.splits)
  then obtain d :: staging_entry where d: "stagedParts None s ident = Inr (parts_of (seFiles d))"
    by (auto simp: readMeta_def stagedParts_def split: option.splits if_splits sum.splits)
  show "distinct (map ptNumber (case stagedParts None s ident of Inl _ \<Rightarrow> [] | Inr ps \<Rightarrow> ps))"
    using parts_of_keyed(1) by (simp add: d keyed_def)
  assume "0 < n"
  then show "parts_page ident s n a = take (nat n) (filter (\<lambda>r. a < ptNumber r)
      (sort_key ptNumber (case stagedParts None s ident of Inl _ \<Rightarrow> [] | Inr ps \<Rightarrow> ps)))"
    using up d parts_of_keyed(2) [of "seFiles d"]
    by (auto simp: parts_page_def ListParts_def Let_def sorted_sort_id sort_key_id_if_sorted)
qed

interpretation uploads: paged_query
  "\<lambda>s. keyed seName (mpStaging s)" "\<lambda>s. bucket_uploads eRead s bucket keyPrefix" upload_order
  "uploads_page eRead bucket keyPrefix" for eRead bucket keyPrefix
proof
  fix s :: mp_store and n :: int and a :: "string \<times> string"
  assume k: "keyed seName (mpStaging s)"
  let ?us = "sort_key upload_order (bucket_uploads eRead s bucket keyPrefix)"
  have "distinct (map upID (bucket_uploads eRead s bucket keyPrefix))" by (rule bucket_uploads_distinct [OF k])
  then show "distinct (map upload_order (bucket_uploads eRead s bucket keyPrefix))"
    by (auto simp: distinct_map upload_order_def inj_on_def)
  assume "0 < n"
  have marker: "(if upKey u \<noteq> fst a then upKey u > fst a else upID u > snd a) = (a < upload_order u)" for u
    by (cases a) (auto simp: upload_order_def)
  have all: "filter (\<lambda>u. a < upload_order u) ?us = ?us" if "fst a = []" "snd a = []"
  proof -
    have "a < upload_order u" if "u \<in> set ?us" for u
    proof -
      have "upID u \<noteq> []" using that by (auto simp: ValidUploadID_def elim!: bucket_upload_entry)
      then show ?thesis using \<open>fst a = []\<close> \<open>snd a = []\<close> by (cases a) (auto simp: upload_order_def neq_Nil_conv)
    qed
    then show ?thesis by (simp add: filter_id_conv)
  qed
  have drop: "dropWhile (\<lambda>u. \<not> a < upload_order u) ?us = filter (\<lambda>u. a < upload_order u) ?us"
    by (rule dropWhile_sorted_filter) simp
  show "uploads_page eRead bucket keyPrefix s n a = take (nat n) (filter (\<lambda>r. a < upload_order r) ?us)"
    using \<open>0 < n\<close> all drop unfolding uploads_page_def List_uploads_def marker by (auto simp: Let_def)
qed

text \<open>A client that follows the markers of the listings sees everything once and in order: the pages of the uploads of
  a bucket, started without a marker, are exactly its uploads sorted by key and upload id, and the pages of the parts of
  an upload are exactly its staged parts sorted by number, whatever the page size.\<close>

theorem multipart_listings_complete:
  assumes "keyed seName (mpStaging s)" "readMeta None s ident = Inr up" "stagedParts None s ident = Inr parts"
    "0 < n" "length (bucket_uploads eRead s bucket keyPrefix) \<le> fuel" "length parts \<le> fuel"
  shows "scan_pages fuel (uploads_page eRead bucket keyPrefix s n) upload_order ([], []) =
       sort_key upload_order (bucket_uploads eRead s bucket keyPrefix) \<and>
     scan_pages fuel (parts_page ident s n) ptNumber 0 = parts"
proof
  have "([], []) < upload_order u" if "u \<in> set (bucket_uploads eRead s bucket keyPrefix)" for u
  proof -
    have "upID u \<noteq> []" using that by (auto simp: ValidUploadID_def elim!: bucket_upload_entry)
    then show ?thesis by (auto simp: upload_order_def neq_Nil_conv)
  qed
  then have "filter (\<lambda>u. ([], []) < upload_order u) (sort_key upload_order (bucket_uploads eRead s bucket keyPrefix)) =
      sort_key upload_order (bucket_uploads eRead s bucket keyPrefix)" by (simp add: filter_id_conv)
  then show "scan_pages fuel (uploads_page eRead bucket keyPrefix s n) upload_order ([], []) =
       sort_key upload_order (bucket_uploads eRead s bucket keyPrefix)"
    using uploads.scan_complete [OF assms(1,5,4), of "([], [])"] by simp
  obtain d :: staging_entry where d: "parts = parts_of (seFiles d)"
    using assms(3) by (auto simp: stagedParts_def split: option.splits if_splits)
  have "0 < ptNumber p" if "p \<in> set parts" for p
  proof -
    have "row_of ptNumber (parts_of (seFiles d)) (ptNumber p) = Some p"
      using that d row_of_Some [OF parts_of_keyed(1)] by blast
    then obtain f where "part_of f = Some p" by (rule parts_of_file)
    then show ?thesis using parsePartFileName_bounds(1) [OF part_ofD(1)] by fastforce
  qed
  then have "filter (\<lambda>p. 0 < ptNumber p) (sort_key ptNumber parts) = parts"
    using d parts_of_keyed(2) [of "seFiles d"] by (simp add: filter_id_conv sort_key_id_if_sorted)
  then show "scan_pages fuel (parts_page ident s n) ptNumber 0 = parts"
    using staged.scan_complete [of s ident fuel n 0] assms(2,3,4,6) by simp
qed

section \<open>Cleanup\<close>

definition entry_expired :: "int \<Rightarrow> int \<Rightarrow> staging_entry \<Rightarrow> bool" where
  "entry_expired ttl now e \<longleftrightarrow>
     time_Sub now (if seIsDir e \<and> ValidUploadID (seName e) then lastActivity e else seModTime e) > ttl"

lemma removeStagingEntry_other:
  "seName d \<noteq> name \<Longrightarrow> row_of seName (mpStaging s) (seName d) = Some d \<Longrightarrow>
   row_of seName (mpStaging (snd (removeStagingEntry out s name))) (seName d) = Some d"
proof (cases out)
  case (RemovePartly x names meta)
  assume a: "seName d \<noteq> name" "row_of seName (mpStaging s) (seName d) = Some d"
  have "row_of seName (map (\<lambda>e. if seName e = name then strip_entry names meta e else e) t) (seName d) = Some d"
    if "row_of seName t (seName d) = Some d" for t
    using that a(1) by (induction t) (auto split: if_splits)
  then show ?thesis using a by (simp add: removeStagingEntry_def RemovePartly)
qed (auto simp: removeStagingEntry_def row_of_delete_key)

lemma cleanup_entry_keeps:
  assumes "row_of seName (mpStaging (snd acc)) (seName d) = Some d" "\<not> entry_expired (UploadTTL (mpLimits (snd acc))) now d"
    "\<forall>name u. clOthers env name u = u" "seName e = seName d \<Longrightarrow> e = d"
  shows "row_of seName (mpStaging (snd (cleanup_entry env now e acc))) (seName d) = Some d \<and>
    mpLimits (snd (cleanup_entry env now e acc)) = mpLimits (snd acc)"
proof (cases "seName e = seName d")
  case True
  then have "e = d" using assms(4) by blast
  then show ?thesis using assms(1,2) by (auto simp: cleanup_entry_def entry_expired_def Let_def case_prod_beta)
next
  case False
  then have "row_of seName (mpStaging (snd (removeStagingEntry out (snd acc) (seName e)))) (seName d) = Some d" for out
    using removeStagingEntry_other assms(1) by metis
  then show ?thesis using assms(1,3)
    by (simp add: cleanup_entry_def Let_def case_prod_beta split: option.splits sum.splits)
qed

lemma cleanupCompletions_keeps [simp]:
  "mpStaging (cleanupCompletions env now s) = mpStaging s" "mpLimits (cleanupCompletions env now s) = mpLimits s"
proof -
  have "mpStaging (foldl (cleanup_record env now) t cs) = mpStaging t \<and> mpLimits (foldl (cleanup_record env now) t cs) = mpLimits t" for t cs
    by (induction cs arbitrary: t) (auto simp: cleanup_record_def split: publish_outcome.splits)
  then show "mpStaging (cleanupCompletions env now s) = mpStaging s" "mpLimits (cleanupCompletions env now s) = mpLimits s"
    by (auto simp: cleanupCompletions_def)
qed

lemma cleanup_entry_faultless:
  assumes "row_of seName (mpStaging (snd acc)) (seName e) = Some e" "\<forall>name u. clOthers env name u = u"
    "\<forall>name. clRemove env name = Removed" "\<forall>name. \<not> clGone env name"
  shows "mpStaging (snd (cleanup_entry env now e acc)) =
      (if entry_expired (UploadTTL (mpLimits (snd acc))) now e then delete_key seName (seName e) (mpStaging (snd acc))
       else mpStaging (snd acc)) \<and> mpLimits (snd (cleanup_entry env now e acc)) = mpLimits (snd acc)"
  using assms by (auto simp: cleanup_entry_def entry_expired_def removeStagingEntry_def Let_def case_prod_beta)

lemma cleanup_fold_faultless:
  assumes "\<forall>name u. clOthers env name u = u" "\<forall>name. clRemove env name = Removed" "\<forall>name. \<not> clGone env name"
    "keyed seName es" "\<forall>e \<in> set es. row_of seName (mpStaging (snd acc)) (seName e) = Some e"
  shows "mpStaging (snd (fold (cleanup_entry env now) es acc)) =
     filter (\<lambda>x. \<forall>e \<in> set es. entry_expired (UploadTTL (mpLimits (snd acc))) now e \<longrightarrow> seName x \<noteq> seName e) (mpStaging (snd acc))"
  using assms(4,5)
proof (induction es arbitrary: acc)
  case (Cons e es)
  let ?ttl = "UploadTTL (mpLimits (snd acc))"
  define a where "a = cleanup_entry env now e acc"
  have r: "row_of seName (mpStaging (snd acc)) (seName e) = Some e" using Cons.prems(2) by simp
  note f = cleanup_entry_faultless [OF r assms(1-3), of now, folded a_def]
  note eq = f [THEN conjunct1] f [THEN conjunct2]
  have "\<forall>x \<in> set es. row_of seName (mpStaging (snd a)) (seName x) = Some x"
  proof
    fix x assume "x \<in> set es"
    then have "seName x \<in> seName ` set es" by simp
    then have "row_of seName (mpStaging (snd acc)) (seName x) = Some x" "seName x \<noteq> seName e"
      using Cons.prems(2) \<open>x \<in> set es\<close> Cons.prems(1) unfolding keyed_def by (simp, metis distinct.simps(2) list.set_map list.simps(9))
    then show "row_of seName (mpStaging (snd a)) (seName x) = Some x" unfolding eq(1) by (simp add: row_of_delete_key)
  qed
  moreover have "keyed seName es" using Cons.prems(1) by (simp add: keyed_def)
  ultimately have "mpStaging (snd (fold (cleanup_entry env now) es a)) =
     filter (\<lambda>x. \<forall>e \<in> set es. entry_expired ?ttl now e \<longrightarrow> seName x \<noteq> seName e) (mpStaging (snd a))"
    using Cons.IH [of a] unfolding eq(2) by blast
  then show ?case unfolding eq(1) by (simp add: a_def delete_key_def split: if_splits)
qed simp


section \<open>A concrete run\<close>

definition sample_md5 :: "string \<Rightarrow> string" where
  "sample_md5 x = replicate 16 (if x = ''one'' then CHR ''1'' else CHR ''2'')"

definition sample_id :: string where
  "sample_id = replicate 32 (CHR ''a'')"

definition sample_limits :: Limits where
  "sample_limits = \<lparr> MinPartBytes = 3, MaxPartBytes = 100, MaxParts = 10, MaxObjectBytes = 50, MaxActiveUploads = 2,
     MaxConcurrentParts = 1, UploadTTL = 1000, CleanupInterval = 10, TempFileMaxAge = 10 \<rparr>"

definition sample_upload :: Upload where
  "sample_upload = \<lparr> upID = sample_id, upBucket = ''b'', upKey = ''k'', upInitiated = 0 \<rparr>"

definition sample_file :: "int \<Rightarrow> string \<Rightarrow> staged_file" where
  "sample_file n data = \<lparr> sfName = partFileName n (hex_lower (sample_md5 data)), sfData = data, sfModTime = 7, sfIsDir = False \<rparr>"

definition sample_store :: "staged_file list \<Rightarrow> mp_store" where
  "sample_store fs = \<lparr> mpRoot = ''/srv'', mpLimits = sample_limits,
     mpStaging = [\<lparr> seName = sample_id, seIsDir = True, seModTime = 5, seMeta = Some (Inr sample_upload, 5), seFiles = fs \<rparr>],
     mpCompleted = [], mpObjects = [], mpInFlight = 0 \<rparr>"

definition sample_complete_env :: complete_env where
  "sample_complete_env = \<lparr> coMeta = None, coStaged = None, coMkdir = None, coCreate = None, coOpen = (\<lambda>_. None),
     coCopy = (\<lambda>_. None), coSync = None, coFence = None, coModTime = 9, coPublish = Published, coRecord = Published,
     coRecorded = 9, coRemove = Removed, coReadRecord = None, coStat = False \<rparr>"

definition sample_want :: "CompletePart list" where
  "sample_want = [\<lparr> cpNumber = 1, cpETag = hex_lower (sample_md5 ''one'') \<rparr>, \<lparr> cpNumber = 2, cpETag = hex_lower (sample_md5 ''two'') \<rparr>]"

definition sample_fs :: link_view where
  "sample_fs = \<lparr> realRoot = None, evalDeepestAncestor = (\<lambda>x. x) \<rparr>"

definition sample_completion :: "(mp_error, CompleteResult) result \<times> mp_store" where
  "sample_completion = CompleteIf sample_md5 (\<lambda>x. x) sample_fs sample_complete_env
     (sample_store [sample_file 1 ''one'', sample_file 2 ''two'']) sample_id sample_want ''/srv/b/k'' None"

lemma sample_completes:
  obtains r s' where "sample_completion = (Inr r, s')" "\<not> reRepeated r"
proof -
  have "fst sample_completion = Inr \<lparr> reBucket = ''b'', reKey = ''k'', reETag = hex_lower (sample_md5 []) @ ''-2'', reSize = 6,
     reParts = 2, reInfo = \<lparr> osSize = 6, osModTime = 9, osRegular = True \<rparr>, reRepeated = False \<rparr>"
    by code_simp
  then show thesis using that [of _ "snd sample_completion"] by (simp add: prod_eq_iff)
qed

definition sample_checks :: Checksums where
  "sample_checks = \<lparr> ckContentMD5 = [], ckContentSHA256 = ''UNSIGNED-PAYLOAD'' \<rparr>"

definition sample_part_env :: part_env where
  "sample_part_env = \<lparr> wpBody = ''two'', wpReadErr = None, wpWriteErr = None, wpSyncErr = None, wpCloseErr = None,
     wpMeta1 = None, wpCreate = None, wpMeta2 = None, wpFence = None, wpStat = None, wpRename = None, wpSync1 = None,
     wpUndo = None, wpReadDir = None, wpRemove = (\<lambda>_. None), wpSync2 = None, wpModTime = 8, wpNow = 8 \<rparr>"

definition sample_cleanup_env :: cleanup_env where
  "sample_cleanup_env = \<lparr> clDir = None, clRecords = None, clGone = (\<lambda>_. False), clRemove = (\<lambda>_. Removed),
     clOthers = (\<lambda>_ u. u), clDelete = (\<lambda>_. Published) \<rparr>"

lemma sample_md5_length: "\<forall>x. length (sample_md5 x) = 16"
  by (simp add: sample_md5_def)

lemma sample_store_ok: "mp_ok sample_md5 (sample_store [sample_file 1 ''one''])"
  by code_simp

theorem CompleteIf_sound_witness:
  "\<exists>r s' f. sample_completion = (Inr r, s') \<and> \<not> reRepeated r \<and>
     row_of ofPath (mpObjects s') ''/srv/b/k'' = Some f \<and> reSize r = int (length (ofData f))"
proof -
  obtain r s' where c: "sample_completion = (Inr r, s')" "\<not> reRepeated r"
    by (rule sample_completes)
  show ?thesis using CompleteIf_sound [OF c(1) [unfolded sample_completion_def] c(2)] c by blast
qed

theorem CompleteIf_repeat_witness:
  "\<exists>r s'. sample_completion = (Inr r, s') \<and> \<not> reRepeated r \<and>
     CompleteIf sample_md5 (\<lambda>x. x) sample_fs sample_complete_env s' sample_id sample_want ''/srv/b/k'' None =
       (Inr (r\<lparr>reRepeated := True\<rparr>), s')"
proof -
  obtain r s' where c: "sample_completion = (Inr r, s')" "\<not> reRepeated r"
    by (rule sample_completes)
  show ?thesis
    using CompleteIf_repeat [OF c(1) [unfolded sample_completion_def] c(2), of sample_complete_env None] c
    by (intro exI [of _ r] exI [of _ s']) (simp add: sample_complete_env_def)
qed

theorem staging_invariant_witness:
  "mp_ok sample_md5 (snd (Abort None Removed (sample_store [sample_file 1 ''one'']) sample_id))"
  using staging_invariant [OF mp_reach.abort [OF mp_reach.refl] sample_store_ok sample_md5_length] by blast

theorem WritePart_replaces_witness:
  "\<exists>p s'. WritePart sample_md5 (\<lambda>x. x) sample_part_env (\<lambda>u. u) (sample_store [sample_file 1 ''one'']) sample_id 1 sample_checks =
       (Inr p, s') \<and>
     (\<exists>parts. stagedParts None s' sample_id = Inr parts \<and>
        map_option ptETag (row_of ptNumber parts 1) = Some (hex_lower (sample_md5 ''two'')))"
proof -
  let ?s = "sample_store [sample_file 1 ''one'']"
  have "is_ok (fst (WritePart sample_md5 (\<lambda>x. x) sample_part_env (\<lambda>u. u) ?s sample_id 1 sample_checks))" by code_simp
  then obtain p s' where w: "WritePart sample_md5 (\<lambda>x. x) sample_part_env (\<lambda>u. u) ?s sample_id 1 sample_checks = (Inr p, s')"
    by (metis (no_types, lifting) is_ok_simps(2) prod.collapse sum.exhaust)
  show ?thesis
    using WritePart_replaces [OF w sample_store_ok _ sample_md5_length, of "?s\<lparr>mpInFlight := 1\<rparr>"] w
    by (auto simp: sample_store_def sample_limits_def sample_part_env_def)
qed

theorem six_digit_parts_unusable_witness:
  "is_ok (part_admit ((sample_store [])\<lparr>mpLimits := sample_limits\<lparr>MaxParts := 200000\<rparr>\<rparr>) sample_id 100000 sample_checks) \<and>
   isHexMD5 (replicate 32 (CHR ''0'')) \<and> parsePartFileName (partFileName 100000 (replicate 32 (CHR ''0''))) = None"
proof -
  have "isHexMD5 (replicate 32 (CHR ''0''))" by code_simp
  moreover have "is_ok (part_admit ((sample_store [])\<lparr>mpLimits := sample_limits\<lparr>MaxParts := 200000\<rparr>\<rparr>) sample_id 100000 sample_checks)"
    by code_simp
  ultimately show ?thesis using six_digit_parts_unusable [of "replicate 32 (CHR ''0'')" 100000] by simp
qed

theorem multipart_listings_complete_witness:
  "\<exists>parts. stagedParts None (sample_store [sample_file 2 ''two'', sample_file 1 ''one'']) sample_id = Inr parts \<and>
     scan_pages 2 (parts_page sample_id (sample_store [sample_file 2 ''two'', sample_file 1 ''one'']) 1) ptNumber 0 = parts"
proof -
  let ?s = "sample_store [sample_file 2 ''two'', sample_file 1 ''one'']"
  have "keyed seName (mpStaging ?s)" "readMeta None ?s sample_id = Inr sample_upload"
    "length (bucket_uploads (\<lambda>_. None) ?s ''b'' []) \<le> 2" by code_simp+
  moreover obtain parts where p: "stagedParts None ?s sample_id = Inr parts" by (simp add: stagedParts_def sample_store_def)
  moreover have "length (rows_or_nil (stagedParts None ?s sample_id)) \<le> 2" by code_simp
  ultimately show ?thesis using multipart_listings_complete [of ?s sample_id sample_upload parts 1 "\<lambda>_. None" "''b''" "[]" 2]
    by (simp add: rows_or_nil_def)
qed


end
