(* ===== verification/Peer_Server.thy ===== *)
theory Peer_Server
  imports Sync_Stream
begin

text \<open>
  The peer API (internal/server/server.go): the guard in front of every cluster endpoint, the handlers of
  changes, manifest, metadata, files, status and readiness, and the comparison of modification times at
  the granularity of a volume (internal/fileops/mtime.go). A handler maps a server and a request to the
  reply and the server it leaves; a JSON body is the value it encodes, of a size given by an argument. The
  last sections connect the handlers with the syncer that calls them: two nodes talking to each other.
\<close>

section \<open>Modification times\<close>

definition absDuration :: "int \<Rightarrow> int" where
  "absDuration d = (if d < 0 then wrap64 (- d) else d)"

definition SetModTimeGranularity :: "int \<Rightarrow> int" where
  "SetModTimeGranularity granularity = max granularity 1"

text \<open>\<open>stored\<close> is the recorded granularity of the volume, zero when nobody measured it.\<close>

definition ModTimeGranularity :: "int \<Rightarrow> int" where
  "ModTimeGranularity stored = (if stored > 0 then stored else 1)"

definition SameModTime :: "int \<Rightarrow> int \<Rightarrow> int \<Rightarrow> bool" where
  "SameModTime stored onDisk recorded =
     (let granularity = ModTimeGranularity stored; diff = wrap64 (onDisk - recorded)
      in if granularity \<le> 1 then diff = 0 else absDuration diff < granularity)"

definition modTimeGranularities :: "int list" where
  "modTimeGranularities = [1, 100, 1000, 1000000, 1000000000, 2000000000]"

definition modTimeProbes :: "int list" where
  "modTimeProbes = [1600000001123456789, 1600000002987654321]"

text \<open>\<open>keep\<close> is what the file system stores for a time, or an error of one of the calls.\<close>

fun probe_worst :: "(int \<Rightarrow> (string, int) result) \<Rightarrow> int \<Rightarrow> int list \<Rightarrow> (string, int) result" where
  "probe_worst keep worst [] = Inr worst"
| "probe_worst keep worst (stamp # stamps) =
     (case keep stamp of
        Inl x \<Rightarrow> Inl x
      | Inr t \<Rightarrow> probe_worst keep (max worst (absDuration (time_Sub t stamp))) stamps)"

definition DetectModTimeGranularity ::
    "string option \<Rightarrow> (int \<Rightarrow> (string, int) result) \<Rightarrow> int \<times> string option" where
  "DetectModTimeGranularity eWrite keep =
     (case eWrite of
        Some x \<Rightarrow> (1, Some x)
      | None \<Rightarrow>
          case probe_worst keep 0 modTimeProbes of
            Inl x \<Rightarrow> (1, Some x)
          | Inr worst \<Rightarrow>
              case find (\<lambda>g. worst < g) modTimeGranularities of
                Some g \<Rightarrow> (g, None)
              | None \<Rightarrow> (1, Some ''filesystem moved a modification time''))"

section \<open>The server\<close>

record Server =
  svStore :: Store
  svSyncDir :: string
  svNodeID :: string
  svIgnore :: "string list"
  svSecret :: string
  svMetricsToken :: string
  svVersion :: string
  svPollers :: "(string \<times> int) list"

record peer_request =
  prSecret :: string
  prNodeID :: string
  prProtocol :: string
  prNodeEpoch :: string
  prAuthorization :: string
  prQuery :: "(string \<times> string) list"
  prName :: string

definition query_get :: "peer_request \<Rightarrow> string \<Rightarrow> string" where
  "query_get r k = (case map_of (prQuery r) k of None \<Rightarrow> [] | Some v \<Rightarrow> v)"

type_synonym 'b handler = "Server \<Rightarrow> peer_request \<Rightarrow> (int \<times> 'b option) \<times> Server"

text \<open>The protocol header is set before the secret is compared; the rest of the headers only once the
  caller is admitted. \<open>json_size\<close> is the number of bytes of an encoded body.\<close>

definition refusal :: "int \<Rightarrow> 'b response" where
  "refusal status = \<lparr> rspStatus = status, rspProtocol = ProtocolVersion, rspNodeID = [], rspEpoch = [], rspMaxVersion = [],
     rspSize = 0, rspValue = None \<rparr>"

definition guard :: "int \<Rightarrow> ('b \<Rightarrow> int) \<Rightarrow> 'b handler \<Rightarrow> Server \<Rightarrow> peer_request \<Rightarrow> 'b response \<times> Server" where
  "guard now json_size next_handler srv r =
     (if svSecret srv \<noteq> [] \<and> prSecret r \<noteq> svSecret srv then (refusal 401, srv)
      else if prNodeID r \<noteq> [] \<and> prProtocol r \<noteq> ProtocolVersion then (refusal 426, srv)
      else
        let srv1 = (if prNodeID r \<noteq> [] then srv\<lparr>svPollers := upsert fst (prNodeID r, now) (svPollers srv)\<rparr> else srv);
            ((status, body), srv2) = next_handler srv1 r
        in (\<lparr> rspStatus = status, rspProtocol = ProtocolVersion, rspNodeID = svNodeID srv1,
              rspEpoch = incarnation (svStore srv1), rspMaxVersion = FormatInt (MaxVersion (svStore srv1)),
              rspSize = (case body of None \<Rightarrow> 0 | Some v \<Rightarrow> json_size v), rspValue = body \<rparr>, srv2))"

definition metricsGuard ::
    "(Server \<Rightarrow> peer_request \<Rightarrow> 'b response \<times> Server) \<Rightarrow> (Server \<Rightarrow> peer_request \<Rightarrow> 'b response \<times> Server)
     \<Rightarrow> Server \<Rightarrow> peer_request \<Rightarrow> 'b response \<times> Server" where
  "metricsGuard guarded metrics srv r =
     (if svMetricsToken srv \<noteq> [] \<and> CutPrefix (prAuthorization r) ''Bearer '' = Some (svMetricsToken srv)
      then metrics srv r else guarded srv r)"

definition parseLimit :: "peer_request \<Rightarrow> int \<Rightarrow> int option" where
  "parseLimit r def =
     (let limitStr = query_get r ''limit''
      in if limitStr = [] then Some def
         else case ParseInt limitStr of
                None \<Rightarrow> None
              | Some parsed \<Rightarrow> if parsed \<le> 0 then None else Some (if parsed > 10000 then 10000 else parsed))"

definition handleChanges :: "string option \<Rightarrow> string option \<Rightarrow> int \<Rightarrow> FileMeta list handler" where
  "handleChanges eAck eGet now srv r =
     (let sinceStr = query_get r ''since''
      in if sinceStr = [] then ((400, None), srv)
         else case ParseInt sinceStr of
           None \<Rightarrow> ((400, None), srv)
         | Some since \<Rightarrow>
             if since < 0 then ((400, None), srv)
             else case parseLimit r 1000 of
               None \<Rightarrow> ((400, None), srv)
             | Some limit \<Rightarrow>
                 let ep = query_get r ''epoch'';
                     ack = (if ep \<noteq> [] \<and> ep \<noteq> incarnation (svStore srv) then 0 else since);
                     srv1 = (if prNodeID r \<noteq> []
                             then srv\<lparr>svStore := snd (RecordAckEpoch eAck now (svStore srv) (prNodeID r) (prNodeEpoch r) ack)\<rparr>
                             else srv)
                 in case GetChanges eGet (svStore srv1) since limit of
                      Inl _ \<Rightarrow> ((500, None), srv1)
                    | Inr changes \<Rightarrow> ((200, Some (map json_meta changes)), srv1))"

definition handleManifest :: "string option \<Rightarrow> FileMeta list handler" where
  "handleManifest eGet srv r =
     (case parseLimit r 1000 of
        None \<Rightarrow> ((400, None), srv)
      | Some limit \<Rightarrow>
          case ListManifest eGet (svStore srv) (query_get r ''after'') limit of
            Inl _ \<Rightarrow> ((500, None), srv)
          | Inr entries \<Rightarrow> ((200, Some (map json_meta entries)), srv))"

definition handleMeta :: "link_view \<Rightarrow> string option \<Rightarrow> FileMeta handler" where
  "handleMeta fs eGet srv r =
     (case SafePath fs (svSyncDir srv) (prName r) (svIgnore srv) of
        Inl _ \<Rightarrow> ((404, None), srv)
      | Inr (cleaned, _) \<Rightarrow>
          if cleaned = [] then ((404, None), srv)
          else case GetFile eGet (svStore srv) cleaned of
            Inl _ \<Rightarrow> ((500, None), srv)
          | Inr None \<Rightarrow> ((404, None), srv)
          | Inr (Some meta) \<Rightarrow> ((200, Some (json_meta meta)), srv))"

text \<open>What the file system reports for the requested path: the stat, the open reader and its stat, and the
  granularity of the volume. \<open>FileServe\<close> is the point at which \<open>http.ServeContent\<close> takes over.\<close>

record served_stat =
  ssSize :: int
  ssModTime :: int
  ssPerm :: nat
  ssIsRegular :: bool

datatype stat_outcome = StatMissing | StatFailed | StatOk served_stat

record file_view =
  fvStat :: "string \<Rightarrow> stat_outcome"
  fvOpen :: "string \<Rightarrow> served_stat option"
  fvOpenStatFails :: bool
  fvGranularity :: int

datatype file_reply = FileError int | FileServe string "string option" served_stat string

fun FormatOct :: "nat \<Rightarrow> string" where
  "FormatOct n = (if n < 8 then [char_of (48 + n)] else FormatOct (n div 8) @ [char_of (48 + n mod 8)])"

definition handleFile :: "link_view \<Rightarrow> file_view \<Rightarrow> string option \<Rightarrow> Server \<Rightarrow> peer_request \<Rightarrow> file_reply" where
  "handleFile fs view eGet srv r =
     (if prName r = [] then FileError 400
      else case SafePath fs (svSyncDir srv) (prName r) (svIgnore srv) of
        Inl _ \<Rightarrow> FileError 404
      | Inr (cleaned, fullPath) \<Rightarrow>
          if cleaned = [] then FileError 404
          else case fvStat view fullPath of
            StatMissing \<Rightarrow> FileError 404
          | StatFailed \<Rightarrow> FileError 500
          | StatOk info0 \<Rightarrow>
              if \<not> ssIsRegular info0 then FileError 400
              else case fvOpen view fullPath of
                None \<Rightarrow> FileError 500
              | Some info \<Rightarrow>
                  if fvOpenStatFails view then FileError 500
                  else if \<not> ssIsRegular info then FileError 400
                  else
                    FileServe (FormatOct (ssPerm info))
                      (case GetFile eGet (svStore srv) cleaned of
                         Inr (Some meta) \<Rightarrow>
                           if \<not> Deleted meta \<and> Size meta = ssSize info \<and>
                              SameModTime (fvGranularity view) (ssModTime info) (ModTime meta)
                           then Some ([CHR 0x22] @ Hash meta @ [CHR 0x22]) else None
                       | _ \<Rightarrow> None)
                      info fullPath)"

text \<open>Readiness and status. The statistics provider is the syncer; its scan status is an argument with the
  two fields the handlers touch.\<close>

record scan_status =
  ssReady :: bool
  ssLastError :: string

record StatusResponse =
  srNodeID :: string
  srVersion :: string
  srEpoch :: string
  srMaxVersion :: int
  srFileCount :: int
  srRepairs :: RepairStats
  srPeers :: "PeerStatus list"
  srUnconfigured :: "string list"
  srLocal :: "scan_status option"

definition handleReadyz :: "(scan_status \<times> string option) option \<Rightarrow> int" where
  "handleReadyz local =
     (case local of
        None \<Rightarrow> 503
      | Some (status, storage) \<Rightarrow> if storage \<noteq> None \<or> \<not> ssReady status then 503 else 200)"

abbreviation (input) pollerWindow :: int where
  "pollerWindow \<equiv> 600000000000"

definition unconfiguredPollers :: "int \<Rightarrow> Syncer option \<Rightarrow> Server \<Rightarrow> string list" where
  "unconfiguredPollers now stats srv =
     (case stats of
        None \<Rightarrow> []
      | Some sy \<Rightarrow>
          let (peers, complete) = PeerNodeIDs sy
          in if \<not> complete then []
             else sort (map fst (filter (\<lambda>(i, t). time_Sub now t < pollerWindow \<and> i \<notin> set peers \<and> i \<noteq> svNodeID srv) (svPollers srv))))"

definition handleStatus ::
    "string option \<Rightarrow> string option \<Rightarrow> int \<Rightarrow> (Syncer \<times> scan_status \<times> string option) option \<Rightarrow> StatusResponse handler" where
  "handleStatus eCount eStats now stats srv r =
     (let maxVer = MaxVersion (svStore srv); (count, s1) = FileCount eCount (svStore srv)
      in case count of
           Inl _ \<Rightarrow> ((500, None), srv\<lparr>svStore := s1\<rparr>)
         | Inr c \<Rightarrow>
             let (repairs, s2) = RepairQueueStats eStats now s1; srv2 = srv\<lparr>svStore := s2\<rparr>
             in case repairs of
                  Inl _ \<Rightarrow> ((500, None), srv2)
                | Inr q \<Rightarrow>
                    ((200, Some \<lparr> srNodeID = svNodeID srv, srVersion = svVersion srv, srEpoch = incarnation s2,
                        srMaxVersion = maxVer, srFileCount = c, srRepairs = q,
                        srPeers = (case stats of None \<Rightarrow> [] | Some (sy, _) \<Rightarrow> PeerStats now sy),
                        srUnconfigured = unconfiguredPollers now (map_option fst stats) srv,
                        srLocal = (case stats of
                          None \<Rightarrow> None
                        | Some (_, status, storage) \<Rightarrow>
                            Some (case storage of None \<Rightarrow> status | Some x \<Rightarrow> status\<lparr>ssReady := False, ssLastError := x\<rparr>)) \<rparr>),
                     srv2))"

section \<open>Requests of the syncer\<close>

definition setClusterHeaders :: "string \<Rightarrow> Syncer \<Rightarrow> (string \<times> string) list \<Rightarrow> string \<Rightarrow> peer_request" where
  "setClusterHeaders secret sy query name =
     \<lparr> prSecret = secret, prNodeID = syNodeID sy, prProtocol = ProtocolVersion,
       prNodeEpoch = incarnation (syStore sy), prAuthorization = [], prQuery = query, prName = name \<rparr>"

definition changes_query :: "Syncer \<Rightarrow> PeerState \<Rightarrow> (string \<times> string) list" where
  "changes_query sy state =
     [(''since'', FormatInt (psVersion state)), (''limit'', FormatInt (syBatchLimit sy)), (''epoch'', psEpoch state)]"

definition manifest_query :: "string \<Rightarrow> (string \<times> string) list" where
  "manifest_query after = [(''after'', after), (''limit'', FormatInt manifestPageSize)]"

text \<open>Polls of one node at another, one after the other, until a poll brings nothing: what \<open>pollPeer\<close> does
  between two pauses. \<open>now\<close> gives the clock of each round; \<open>None\<close> means that rounds are still missing when
  the fuel is used up.\<close>

fun poll_peer ::
    "(string \<Rightarrow> string) \<Rightarrow> (FileMeta list \<Rightarrow> int) \<Rightarrow> (nat \<Rightarrow> int) \<Rightarrow> string \<Rightarrow> string \<Rightarrow> nat \<Rightarrow> Server \<Rightarrow> Syncer
     \<Rightarrow> ((sync_error, unit) result \<times> Server \<times> Syncer) option" where
  "poll_peer sha256_hex json_size now secret peer 0 srv sy = None"
| "poll_peer sha256_hex json_size now secret peer (Suc fuel) srv sy =
     (let state = (case GetPeerState None (syStore sy) peer of Inr st \<Rightarrow> st | Inl _ \<Rightarrow> \<lparr> psVersion = 0, psEpoch = [] \<rparr>);
          (resp, srv1) = guard (now fuel) json_size (handleChanges None None (now fuel)) srv
             (setClusterHeaders secret sy (changes_query sy state) []);
          env = \<lparr> beState = None, beReply = Inr resp, beReset = None, beEpoch = None, beCancelled = False, beFiles = None,
                  beQueue = None, beCursor = None, beNow = now fuel \<rparr>
      in case syncBatch sha256_hex env sy peer of
           (Inl x, sy1) \<Rightarrow> Some (Inl x, srv1, sy1)
         | (Inr (n, reset), sy1) \<Rightarrow>
             if n = 0 \<and> \<not> reset then Some (Inr (), srv1, sy1)
             else poll_peer sha256_hex json_size now secret peer fuel srv1 sy1)"

end
