(* ===== verification/Cluster_Properties.thy ===== *)
theory Cluster_Properties
  imports Peer_Server Sync_Properties
begin

text \<open>
  Two nodes talking to each other: what the guard of the peer API admits, that the replies of the server
  pass every check of the syncer, and that polling and comparing bring everything one node holds to the
  other's attention.
\<close>

declare FormatOct.simps [simp del]

section \<open>Replies of the server\<close>

lemma json_meta_Version [simp]: "Version (json_meta m) = Version m"
  by (simp add: json_meta_def)

lemma FormatInt_nonempty: "FormatInt n \<noteq> []"
  by (simp add: FormatInt_def)

text \<open>A server that answers from the store \<open>P\<close>, up to what its own bookkeeping of pollers and
  acknowledgements changes.\<close>

definition answers_from :: "Store \<Rightarrow> Server \<Rightarrow> bool" where
  "answers_from P srv \<longleftrightarrow> files (db (svStore srv)) = files (db P) \<and> incarnation (svStore srv) = incarnation P \<and>
     MaxVersion (svStore srv) = MaxVersion P"

lemma RecordAckEpoch_frame:
  "files (db (snd (RecordAckEpoch e now s peer ep v))) = files (db s)"
  "incarnation (snd (RecordAckEpoch e now s peer ep v)) = incarnation s"
  "MaxVersion (snd (RecordAckEpoch e now s peer ep v)) = MaxVersion s"
  by (auto simp: RecordAckEpoch_def db_write_def MaxVersion_def split: option.splits)

lemma GetChanges_files: "files (db s) = files (db t) \<Longrightarrow> GetChanges e s v n = GetChanges e t v n"
  by (simp add: GetChanges_def)

lemma ListManifest_files: "files (db s) = files (db t) \<Longrightarrow> ListManifest e s a n = ListManifest e t a n"
  by (simp add: ListManifest_def)

lemma changes_query_get:
  "query_get (setClusterHeaders secret sy (changes_query sy st) name) ''since'' = FormatInt (psVersion st)"
  "query_get (setClusterHeaders secret sy (changes_query sy st) name) ''limit'' = FormatInt (syBatchLimit sy)"
  "query_get (setClusterHeaders secret sy (changes_query sy st) name) ''epoch'' = psEpoch st"
  by (simp_all add: query_get_def setClusterHeaders_def changes_query_def)

lemma parseLimit_formatted:
  assumes "query_get r ''limit'' = FormatInt n" "1 \<le> n" "n \<le> 10000"
  shows "parseLimit r def = Some n"
proof -
  have "ParseInt (FormatInt n) = Some n" using assms(2,3) by (intro ParseInt_FormatInt) (auto simp: in_int64_def)
  then show ?thesis using assms by (simp add: parseLimit_def FormatInt_nonempty)
qed

lemma handleChanges_reply:
  assumes "answers_from P srv" "0 \<le> psVersion st" "in_int64 (psVersion st)" "1 \<le> syBatchLimit sy" "syBatchLimit sy \<le> 10000"
  shows "\<exists>srv'. handleChanges None None now srv (setClusterHeaders secret sy (changes_query sy st) []) =
      ((200, Some (map json_meta (rows_or_nil (GetChanges None P (psVersion st) (syBatchLimit sy))))), srv') \<and>
      answers_from P srv' \<and> svNodeID srv' = svNodeID srv \<and> svSecret srv' = svSecret srv"
proof -
  let ?r = "setClusterHeaders secret sy (changes_query sy st) []"
  let ?srv1 = "\<lambda>v. if prNodeID ?r \<noteq> [] then srv\<lparr>svStore := snd (RecordAckEpoch None now (svStore srv) (prNodeID ?r) (prNodeEpoch ?r) v)\<rparr> else srv"
  have a: "answers_from P (?srv1 v)" "svNodeID (?srv1 v) = svNodeID srv" "svSecret (?srv1 v) = svSecret srv" for v
    using assms(1) by (auto simp: answers_from_def RecordAckEpoch_frame)
  have "ParseInt (FormatInt (psVersion st)) = Some (psVersion st)" by (rule ParseInt_FormatInt [OF assms(2,3)])
  moreover have "parseLimit ?r 1000 = Some (syBatchLimit sy)"
    by (rule parseLimit_formatted [OF changes_query_get(2) assms(4,5)])
  moreover have "GetChanges None (svStore (?srv1 v)) (psVersion st) n = GetChanges None P (psVersion st) n" for v n
    using a(1) [of v] by (intro GetChanges_files) (simp add: answers_from_def)
  moreover obtain page where "GetChanges None P (psVersion st) (syBatchLimit sy) = Inr page"
    by (simp add: GetChanges_def db_read_def)
  ultimately show ?thesis
    using a assms(2) by (simp add: handleChanges_def changes_query_get FormatInt_nonempty Let_def rows_or_nil_def)
qed

lemma guard_admits:
  assumes "svSecret srv = [] \<or> prSecret r = svSecret srv" "prNodeID r = [] \<or> prProtocol r = ProtocolVersion"
    "\<And>srv1. svStore srv1 = svStore srv \<Longrightarrow> svNodeID srv1 = svNodeID srv \<Longrightarrow> svSecret srv1 = svSecret srv \<Longrightarrow>
       \<exists>srv'. h srv1 r = ((200, Some v), srv') \<and> Q srv'"
  shows "\<exists>srv'. guard now json_size h srv r =
      (\<lparr> rspStatus = 200, rspProtocol = ProtocolVersion, rspNodeID = svNodeID srv, rspEpoch = incarnation (svStore srv),
         rspMaxVersion = FormatInt (MaxVersion (svStore srv)), rspSize = json_size v, rspValue = Some v \<rparr>, srv') \<and> Q srv'"
proof -
  let ?srv1 = "if prNodeID r \<noteq> [] then srv\<lparr>svPollers := upsert fst (prNodeID r, now) (svPollers srv)\<rparr> else srv"
  have "svStore ?srv1 = svStore srv" "svNodeID ?srv1 = svNodeID srv" "svSecret ?srv1 = svSecret srv" by simp_all
  from assms(3) [OF this] obtain srv' where h: "h ?srv1 r = ((200, Some v), srv')" "Q srv'" by blast
  then show ?thesis using assms(1,2) by (intro exI [of _ srv']) (auto simp: guard_def Let_def)
qed

section \<open>Taking a served page\<close>

lemma versions_follow_sorted:
  "versions_follow v cs \<longleftrightarrow> sorted_wrt (<) (v # map Version cs)"
proof (induction cs arbitrary: v)
  case (Cons c cs)
  then show ?case by (auto simp: not_le)
qed simp

definition position :: "Syncer \<Rightarrow> string \<Rightarrow> PeerState" where
  "position sy peer = (case GetPeerState None (syStore sy) peer of Inr st \<Rightarrow> st | Inl _ \<Rightarrow> \<lparr> psVersion = 0, psEpoch = [] \<rparr>)"

lemma GetPeerState_position: "GetPeerState None (syStore sy) peer = Inr (position sy peer)"
  by (simp add: position_def GetPeerState_def db_read_def)

lemma position_put: "put_peer_state None sy peer ps = (r, sy') \<Longrightarrow> r = Inr () \<and> position sy' peer = ps"
  by (auto simp: put_peer_state_def SetPeerState_def db_write_def position_def GetPeerState_def db_read_def row_of_upsert)

lemma position_same: "syStore sy' = syStore sy \<Longrightarrow> position sy' peer = position sy peer"
  by (simp add: position_def)

text \<open>What a poll keeps of the node that polls.\<close>

definition polled :: "Syncer \<Rightarrow> Syncer \<Rightarrow> bool" where
  "polled sy sy' \<longleftrightarrow> same_index sy sy' \<and> syBatchLimit sy' = syBatchLimit sy \<and>
     (\<forall>p m. holds_at_least (repair_queue (db (syStore sy))) p m \<longrightarrow> holds_at_least (repair_queue (db (syStore sy'))) p m)"

lemma polled_refl [simp]: "polled sy sy"
  by (simp add: polled_def)

lemma polled_trans: "polled a b \<Longrightarrow> polled b c \<Longrightarrow> polled a c"
  unfolding polled_def using same_index_trans by metis

lemma polled_put: "put_peer_state e sy peer ps = (r, sy') \<Longrightarrow> polled sy sy'"
  unfolding polled_def using put_peer_state_cases(1-3) by metis

lemma polled_withStat [simp]: "polled sy (withStat sy peer f)"
  by (simp add: polled_def same_index_def)

lemma polled_adopt: "adoptEpoch e sy peer st ep = (r, sy') \<Longrightarrow> polled sy sy'"
  using polled_put by (auto simp: adoptEpoch_def split: if_splits)

lemma polled_doRequest: "doRequest sy reply = (r, sy') \<Longrightarrow> polled sy sy'"
  using doRequest_same unfolding polled_def by metis

lemma covered_polled: "polled sy sy' \<Longrightarrow> covered sha256_hex sy peer c \<Longrightarrow> covered sha256_hex sy' peer c"
  using covered_mono unfolding polled_def by blast

lemma enqueueBatch_unlimited:
  assumes "repairLimit (syStore sy) = 0"
  shows "\<exists>sy'. enqueueBatch sha256_hex False None None now sy peer page = (Inr (), sy') \<and> polled sy sy' \<and>
     (\<forall>c \<in> set page. covered sha256_hex sy' peer c)"
proof -
  obtain n sy' where r: "recordPage sha256_hex None None now sy peer page ''polled'' = (Inr n, sy')"
    using recordPage_unlimited [OF assms] by blast
  have "polled sy sy'" unfolding polled_def using recordPage_same [OF r] by blast
  then show ?thesis using r recordPage_covers [OF r] by (auto simp: enqueueBatch_def)
qed

text \<open>A reply of a node that answers from \<open>P\<close>.\<close>

definition served_changes :: "Store \<Rightarrow> Syncer \<Rightarrow> string \<Rightarrow> FileMeta list response \<Rightarrow> bool" where
  "served_changes P sy peer resp \<longleftrightarrow> rspStatus resp = 200 \<and> rspProtocol resp = ProtocolVersion \<and>
     (rspNodeID resp = [] \<or> rspNodeID resp \<noteq> syNodeID sy) \<and> rspEpoch resp = incarnation P \<and>
     parseInt64Header (rspMaxVersion resp) = Some (MaxVersion P) \<and> rspSize resp \<le> page_budget (syBatchLimit sy) \<and>
     rspValue resp = Some (map json_meta (rows_or_nil (GetChanges None P (psVersion (position sy peer)) (syBatchLimit sy))))"

abbreviation (input) plain_env :: "FileMeta list response \<Rightarrow> int \<Rightarrow> batch_env" where
  "plain_env resp now \<equiv> \<lparr> beState = None, beReply = Inr resp, beReset = None, beEpoch = None, beCancelled = False, beFiles = None,
     beQueue = None, beCursor = None, beNow = now \<rparr>"

text \<open>The names of a store are distinct; its versions are distinct, positive and at most the highest one it announces.\<close>

definition versions_ok :: "Store \<Rightarrow> bool" where
  "versions_ok P \<longleftrightarrow> keyed Version (files (db P)) \<and> keyed Name (files (db P)) \<and> (\<forall>f \<in> set (files (db P)). 0 < Version f \<and> Version f \<le> MaxVersion P)"

lemma takePage_served:
  assumes "served_changes P sy peer resp" "versions_ok P" "repairLimit (syStore sy) = 0" "1 \<le> syBatchLimit sy"
    "state = position sy peer" "0 \<le> psVersion state"
  defines "page \<equiv> rows_or_nil (GetChanges None P (psVersion state) (syBatchLimit sy))"
  shows "page = [] \<Longrightarrow> takePage sha256_hex (plain_env resp now) sy peer state resp = (Inr (0, False), sy)"
    "page \<noteq> [] \<Longrightarrow> \<exists>sy'. takePage sha256_hex (plain_env resp now) sy peer state resp = (Inr (int (length page), False), sy') \<and>
       polled sy sy' \<and> position sy' peer = \<lparr> psVersion = Version (last page), psEpoch = incarnation P \<rparr> \<and>
       (\<forall>f \<in> set page. covered sha256_hex sy' peer (json_meta f))"
proof -
  have resp: "rspSize resp \<le> page_budget (syBatchLimit sy)" "rspValue resp = Some (map json_meta page)" "rspEpoch resp = incarnation P"
    using assms(1,5) by (simp_all add: served_changes_def page_def)
  have k: "keyed Version (files (db P))" using assms(2) by (simp add: versions_ok_def)
  have rows: "page = take (nat (syBatchLimit sy)) (filter (\<lambda>f. psVersion state < Version f) (sort_key Version (files (db P))))"
    using changes.page_rows [OF k, of "syBatchLimit sy" "psVersion state"] assms(4) by (simp add: page_def)
  have len: "\<not> int (length page) > syBatchLimit sy" using assms(4) unfolding rows by simp
  have strict: "sorted_wrt (<) (psVersion state # map Version page)"
    using changes.page_strict [OF k, of "syBatchLimit sy" "psVersion state"] assms(4) by (simp add: page_def)
  then have follow: "versions_follow (psVersion state) (map json_meta page)"
    by (simp add: versions_follow_sorted comp_def)
  show "takePage sha256_hex (plain_env resp now) sy peer state resp = (Inr (0, False), sy)" if "page = []"
    using resp that assms(4) by (simp add: takePage_def decodePage_def)
  show "\<exists>sy'. takePage sha256_hex (plain_env resp now) sy peer state resp = (Inr (int (length page), False), sy') \<and>
       polled sy sy' \<and> position sy' peer = \<lparr> psVersion = Version (last page), psEpoch = incarnation P \<rparr> \<and>
       (\<forall>f \<in> set page. covered sha256_hex sy' peer (json_meta f))" if ne: "page \<noteq> []"
  proof -
    obtain latest batchMax where cl: "collapseByName (map json_meta page) = (latest, batchMax)" by fastforce
    note cp = collapse_page [OF follow _ assms(6) cl]
    have "page = butlast page @ [last page]" using ne by simp
    then have "sorted_wrt (<) (map Version (butlast page) @ [Version (last page)])"
      using strict by (metis (no_types, lifting) list.simps(8) list.simps(9) map_append sorted_wrt.simps(2))
    then have "Version f \<le> Version (last page)" if "f \<in> set (butlast page @ [last page])" for f
      using that by (auto simp: sorted_wrt_append less_imp_le)
    then have "Version f \<le> Version (last page)" if "f \<in> set page" for f
      using that \<open>page = butlast page @ [last page]\<close> by metis
    then have maxv: "batchMax = Version (last page)"
      using cp(3) ne by (simp add: image_image) (intro Max_eqI; auto)
    obtain sy1 where e: "enqueueBatch sha256_hex False None None now sy peer latest = (Inr (), sy1)" "polled sy sy1"
      "\<forall>c \<in> set latest. covered sha256_hex sy1 peer c" using enqueueBatch_unlimited [OF assms(3)] by blast
    obtain r2 sy2 where p: "put_peer_state None sy1 peer \<lparr> psVersion = batchMax, psEpoch = incarnation P \<rparr> = (r2, sy2)" by fastforce
    define sy3 where "sy3 = withStat sy2 peer (\<lambda>st. st\<lparr>stCursor := batchMax\<rparr>)"
    have out: "takePage sha256_hex (plain_env resp now) sy peer state resp = (Inr (int (length page), False), sy3)"
      using resp len follow ne cl e(1) p position_put [OF p] cp(4) by (simp add: takePage_def decodePage_def sy3_def)
    have "polled sy1 sy3" using polled_trans [OF polled_put [OF p]] by (simp add: sy3_def)
    moreover have "position sy3 peer = \<lparr> psVersion = Version (last page), psEpoch = incarnation P \<rparr>"
      using position_put [OF p] position_same [of sy3 sy2 peer] maxv by (simp add: sy3_def)
    moreover have "f \<in> set page \<Longrightarrow> json_meta f \<in> set latest" for f
    proof -
      assume f: "f \<in> set page"
      obtain x where x: "x \<in> set latest" "Name x = Name f" using cp(2) ne f by fastforce
      then obtain g where g: "g \<in> set page" "x = json_meta g" using cp(1) ne by auto
      have "set page \<subseteq> set (files (db P))" unfolding rows by (auto dest!: in_set_takeD)
      then have "g = f" using assms(2) f g x(2) by (auto simp: versions_ok_def keyed_def distinct_map dest: inj_onD)
      then show "json_meta f \<in> set latest" using x(1) g(2) by simp
    qed
    ultimately show ?thesis using out e(2,3) polled_trans covered_polled by (intro exI [of _ sy3]) blast
  qed
qed

text \<open>A poll answered from \<open>P\<close>: it resets the position, finds nothing new, or takes the next page.\<close>

lemma doRequest_accepts:
  assumes "served_changes P sy peer resp"
  obtains sy1 where "doRequest sy (Inr resp) = (Inr resp, sy1)"
  using assms by (auto simp: served_changes_def doRequest_def checkPeerIdentity_def Let_def)

lemma syncBatch_served:
  assumes "served_changes P sy peer resp" "versions_ok P" "repairLimit (syStore sy) = 0" "1 \<le> syBatchLimit sy"
    "state = position sy peer" "0 \<le> psVersion state"
  defines "page \<equiv> rows_or_nil (GetChanges None P (psVersion state) (syBatchLimit sy))"
    and "stale \<equiv> needsCursorReset state (incarnation P) (Some (MaxVersion P))"
  shows "stale \<Longrightarrow> \<exists>sy'. syncBatch sha256_hex (plain_env resp now) sy peer = (Inr (0, True), sy') \<and> polled sy sy' \<and>
      position sy' peer = \<lparr> psVersion = 0, psEpoch = incarnation P \<rparr>"
    "\<not> stale \<Longrightarrow> page = [] \<Longrightarrow> \<exists>sy'. syncBatch sha256_hex (plain_env resp now) sy peer = (Inr (0, False), sy') \<and> polled sy sy'"
    "\<not> stale \<Longrightarrow> page \<noteq> [] \<Longrightarrow> \<exists>sy'. syncBatch sha256_hex (plain_env resp now) sy peer = (Inr (int (length page), False), sy') \<and>
      polled sy sy' \<and> position sy' peer = \<lparr> psVersion = Version (last page), psEpoch = incarnation P \<rparr> \<and>
      (\<forall>f \<in> set page. covered sha256_hex sy' peer (json_meta f))"
proof -
  obtain sy1 where d: "doRequest sy (Inr resp) = (Inr resp, sy1)" by (rule doRequest_accepts [OF assms(1)])
  have r: "rspStatus resp = 200" "rspEpoch resp = incarnation P" "parseInt64Header (rspMaxVersion resp) = Some (MaxVersion P)"
    using assms(1) by (simp_all add: served_changes_def)
  define sy2 where "sy2 = withStat sy1 peer (\<lambda>st. st\<lparr>stCursor := psVersion state, stEpoch := incarnation P, stPeerMax := MaxVersion P\<rparr>)"
  have s2: "polled sy sy2" "position sy2 peer = state"
    using polled_trans [OF polled_doRequest [OF d]] doRequest_same [OF d] position_same [of sy2 sy peer] assms(5)
    by (auto simp: sy2_def)
  note run = GetPeerState_position [of sy peer, folded assms(5)] d r sy2_def [symmetric]
  obtain r3 sy3 where a: "adoptEpoch None sy2 peer state (incarnation P) = (r3, sy3)" by fastforce
  have s3: "r3 = Inr ()" "polled sy sy3" "psVersion (position sy3 peer) = psVersion state"
    using a polled_trans [OF s2(1) polled_adopt [OF a]] s2(2) position_put
    by (auto simp: adoptEpoch_def split: if_splits dest: position_put)
  have served: "served_changes P sy3 peer resp"
    using assms(1,5) s3(2,3) by (auto simp: served_changes_def polled_def same_index_def)
  have lim: "repairLimit (syStore sy3) = 0" "1 \<le> syBatchLimit sy3" "syBatchLimit sy3 = syBatchLimit sy"
    using s3(2) assms(3,4) by (auto simp: polled_def same_index_def)
  have tp: "takePage sha256_hex (plain_env resp now) sy3 peer state resp = takePage sha256_hex (plain_env resp now) sy3 peer (position sy3 peer) resp"
    by (simp only: takePage_def s3(3))
  note page = takePage_served [OF served assms(2) lim(1,2) refl, of sha256_hex now, folded tp]
  show "\<exists>sy'. syncBatch sha256_hex (plain_env resp now) sy peer = (Inr (0, True), sy') \<and> polled sy sy' \<and>
      position sy' peer = \<lparr> psVersion = 0, psEpoch = incarnation P \<rparr>" if stale
  proof -
    obtain r4 sy4 where p: "put_peer_state None sy2 peer \<lparr> psVersion = 0, psEpoch = incarnation P \<rparr> = (r4, sy4)" by fastforce
    then show ?thesis using run that position_put [OF p] polled_trans [OF s2(1) polled_put [OF p]]
      by (simp add: syncBatch_def Let_def stale_def)
  qed
  have go: "syncBatch sha256_hex (plain_env resp now) sy peer = takePage sha256_hex (plain_env resp now) sy3 peer state resp"
    if "\<not> stale" using run that a s3(1) by (simp add: syncBatch_def Let_def stale_def)
  show "\<exists>sy'. syncBatch sha256_hex (plain_env resp now) sy peer = (Inr (0, False), sy') \<and> polled sy sy'" if "\<not> stale" "page = []"
    using page(1) that go s3 assms(6) lim(3) by (auto simp: page_def)
  show "\<exists>sy'. syncBatch sha256_hex (plain_env resp now) sy peer = (Inr (int (length page), False), sy') \<and>
      polled sy sy' \<and> position sy' peer = \<lparr> psVersion = Version (last page), psEpoch = incarnation P \<rparr> \<and>
      (\<forall>f \<in> set page. covered sha256_hex sy' peer (json_meta f))" if "\<not> stale" "page \<noteq> []"
    using page(2) that go s3 assms(6) lim(3) polled_trans [OF s3(2)] by (auto simp: page_def)
qed

text \<open>Two nodes that can talk: equal secrets, different node ids, a page size the server accepts, and pages within
  the byte budget of the client.\<close>

definition can_poll :: "(FileMeta list \<Rightarrow> int) \<Rightarrow> string \<Rightarrow> Store \<Rightarrow> Server \<Rightarrow> Syncer \<Rightarrow> bool" where
  "can_poll json_size secret P srv sy \<longleftrightarrow> answers_from P srv \<and> (svSecret srv = [] \<or> secret = svSecret srv) \<and>
     svNodeID srv \<noteq> syNodeID sy \<and> 1 \<le> syBatchLimit sy \<and> syBatchLimit sy \<le> 10000 \<and> repairLimit (syStore sy) = 0 \<and>
     (\<forall>v. json_size (map json_meta (rows_or_nil (GetChanges None P v (syBatchLimit sy)))) \<le> page_budget (syBatchLimit sy))"

lemma guard_serves:
  assumes "can_poll json_size secret P srv sy" "0 \<le> psVersion (position sy peer)" "in_int64 (psVersion (position sy peer))"
    "0 \<le> MaxVersion P" "in_int64 (MaxVersion P)"
  shows "\<exists>resp srv'. guard now json_size (handleChanges None None now) srv
      (setClusterHeaders secret sy (changes_query sy (position sy peer)) []) = (resp, srv') \<and>
      served_changes P sy peer resp \<and> can_poll json_size secret P srv' sy"
proof -
  let ?r = "setClusterHeaders secret sy (changes_query sy (position sy peer)) []"
  let ?v = "map json_meta (rows_or_nil (GetChanges None P (psVersion (position sy peer)) (syBatchLimit sy)))"
  let ?Q = "\<lambda>srv'. answers_from P srv' \<and> svNodeID srv' = svNodeID srv \<and> svSecret srv' = svSecret srv"
  have c: "answers_from P srv" "svSecret srv = [] \<or> secret = svSecret srv" "1 \<le> syBatchLimit sy" "syBatchLimit sy \<le> 10000"
    using assms(1) by (auto simp: can_poll_def)
  have auth: "svSecret srv = [] \<or> prSecret ?r = svSecret srv" and proto: "prNodeID ?r = [] \<or> prProtocol ?r = ProtocolVersion"
    using c(2) by (simp_all add: setClusterHeaders_def)
  have h: "\<exists>srv'. handleChanges None None now srv1 ?r = ((200, Some ?v), srv') \<and> ?Q srv'"
    if "svStore srv1 = svStore srv" "svNodeID srv1 = svNodeID srv" "svSecret srv1 = svSecret srv" for srv1
    using handleChanges_reply [of P srv1, OF _ assms(2,3) c(3,4)] c(1) that by (simp add: answers_from_def)
  obtain srv' where g: "guard now json_size (handleChanges None None now) srv ?r =
      (\<lparr> rspStatus = 200, rspProtocol = ProtocolVersion, rspNodeID = svNodeID srv, rspEpoch = incarnation (svStore srv),
         rspMaxVersion = FormatInt (MaxVersion (svStore srv)), rspSize = json_size ?v, rspValue = Some ?v \<rparr>, srv')" "?Q srv'"
    using guard_admits [of srv ?r "handleChanges None None now" ?v ?Q now json_size, OF auth proto h] by blast
  have "parseInt64Header (FormatInt (MaxVersion P)) = Some (MaxVersion P)"
    using ParseInt_FormatInt [OF assms(4,5)] by (simp add: parseInt64Header_def FormatInt_nonempty)
  then have "served_changes P sy peer \<lparr> rspStatus = 200, rspProtocol = ProtocolVersion, rspNodeID = svNodeID srv,
      rspEpoch = incarnation (svStore srv), rspMaxVersion = FormatInt (MaxVersion (svStore srv)), rspSize = json_size ?v, rspValue = Some ?v \<rparr>"
    using assms(1) by (simp add: served_changes_def can_poll_def answers_from_def)
  moreover have "can_poll json_size secret P srv' sy" using g(2) assms(1) by (simp add: can_poll_def)
  ultimately show ?thesis using g(1) by blast
qed

lemma can_poll_polled: "polled sy sy' \<Longrightarrow> can_poll json_size secret P srv sy \<Longrightarrow> can_poll json_size secret P srv sy'"
  by (simp add: can_poll_def polled_def same_index_def)

lemma poll_peer_fresh:
  assumes "can_poll json_size secret P srv sy" "versions_ok P" "0 \<le> MaxVersion P" "in_int64 (MaxVersion P)"
    "0 \<le> psVersion (position sy peer)" "psVersion (position sy peer) \<le> MaxVersion P"
    "\<not> needsCursorReset (position sy peer) (incarnation P) (Some (MaxVersion P))"
    "length (filter (\<lambda>f. psVersion (position sy peer) < Version f) (sort_key Version (files (db P)))) < fuel"
  shows "\<exists>srv' sy'. poll_peer sha256_hex json_size now secret peer fuel srv sy = Some (Inr (), srv', sy') \<and> polled sy sy' \<and>
     (\<forall>f \<in> set (files (db P)). psVersion (position sy peer) < Version f \<longrightarrow> covered sha256_hex sy' peer (json_meta f))"
  using assms
proof (induction fuel arbitrary: srv sy)
  case (Suc fuel)
  let ?st = "position sy peer"
  let ?page = "rows_or_nil (GetChanges None P (psVersion ?st) (syBatchLimit sy))"
  have k: "keyed Version (files (db P))" and lim: "0 < syBatchLimit sy" "repairLimit (syStore sy) = 0" "1 \<le> syBatchLimit sy"
    using Suc.prems(1,2) by (auto simp: versions_ok_def can_poll_def)
  have "in_int64 (psVersion ?st)" using Suc.prems(4,5,6) by (simp add: in_int64_def)
  from guard_serves [OF Suc.prems(1,5) this Suc.prems(3,4), of "now fuel"] obtain resp srv1 where
    g: "guard (now fuel) json_size (handleChanges None None (now fuel)) srv (setClusterHeaders secret sy (changes_query sy ?st) []) = (resp, srv1)"
      "served_changes P sy peer resp" "can_poll json_size secret P srv1 sy" by blast
  note sb = syncBatch_served [OF g(2) Suc.prems(2) lim(2,3) refl Suc.prems(5), of sha256_hex "now fuel"]
  have rows: "?page = take (nat (syBatchLimit sy)) (filter (\<lambda>f. psVersion ?st < Version f) (sort_key Version (files (db P))))"
    using changes.page_rows [OF k lim(1)] by simp
  show ?case
  proof (cases "?page = []")
    case True
    then have "\<forall>f \<in> set (files (db P)). \<not> psVersion ?st < Version f" using rows lim(1) by (simp add: filter_empty_conv)
    moreover obtain sy' where "syncBatch sha256_hex (plain_env resp (now fuel)) sy peer = (Inr (0, False), sy')" "polled sy sy'"
      using sb(2) Suc.prems(7) True by blast
    ultimately show ?thesis using g(1) by (simp add: position_def [symmetric] Let_def)
  next
    case False
    obtain sy1 where s: "syncBatch sha256_hex (plain_env resp (now fuel)) sy peer = (Inr (int (length ?page), False), sy1)" "polled sy sy1"
      "position sy1 peer = \<lparr> psVersion = Version (last ?page), psEpoch = incarnation P \<rparr>"
      "\<forall>f \<in> set ?page. covered sha256_hex sy1 peer (json_meta f)"
      using sb(3) Suc.prems(7) False by blast
    have "set ?page \<subseteq> set (files (db P))" unfolding rows by (auto dest!: in_set_takeD)
    then have last: "0 < Version (last ?page)" "Version (last ?page) \<le> MaxVersion P"
      using Suc.prems(2) last_in_set [OF False] by (auto simp: versions_ok_def)
    note nx = changes.page_next [OF k lim(1) False]
    have "0 < length (filter (\<lambda>f. psVersion ?st < Version f) (sort_key Version (files (db P))))" using rows False by fastforce
    then have "length (filter (\<lambda>f. Version (last ?page) < Version f) (sort_key Version (files (db P)))) < fuel"
      using Suc.prems(8) lim(1) unfolding nx(1) length_drop by linarith
    then obtain srv' sy' where p: "poll_peer sha256_hex json_size now secret peer fuel srv1 sy1 = Some (Inr (), srv', sy')" "polled sy1 sy'"
      "\<forall>f \<in> set (files (db P)). Version (last ?page) < Version f \<longrightarrow> covered sha256_hex sy' peer (json_meta f)"
      using Suc.IH [of srv1 sy1] can_poll_polled [OF s(2) g(3)] Suc.prems(2,3,4) s(3) last by (auto simp: needsCursorReset_def)
    have "covered sha256_hex sy' peer (json_meta f)" if "f \<in> set (files (db P))" "psVersion ?st < Version f" for f
      using changes.page_or_beyond [OF k lim(1) False that] s(4) p(3) covered_polled [OF p(2)] that(1) by blast
    moreover have "int (length ?page) \<noteq> 0" using False by simp
    ultimately show ?thesis using p(1) s(1) g(1) polled_trans [OF s(2) p(2)] by (simp add: position_def [symmetric] Let_def)
  qed
qed simp

section \<open>A node reads another\<close>

definition demo_server :: Server where
  "demo_server = \<lparr> svStore = demo_put, svSyncDir = ''/data'', svNodeID = ''n2'', svIgnore = [], svSecret = ''k'', svMetricsToken = ''m'',
     svVersion = ''v'', svPollers = [] \<rparr>"

definition demo_empty :: Syncer where
  "demo_empty = demo_syncer\<lparr>syStore := SetRepairLimit demo_store 0\<rparr>"

lemma demo_empty_simps:
  "repairLimit (syStore demo_empty) = 0" "syNodeID demo_empty = ''n1''" "syBatchLimit demo_empty = 1000" "syPageBudget demo_empty = 0"
  by code_simp+

lemma reachable_versions:
  assumes "store_reachable nfc_fold P"
  shows "versions_ok P" "0 \<le> MaxVersion P"
  using store_reachable_ok [OF assms]
  by (auto simp: versions_ok_def store_ok_def files_ok_def files_inv_def count_inv_def MaxVersion_def)



text \<open>The comparison over the manifest endpoint: what the handler answers to the page requests of \<open>reconcileOnce\<close>.\<close>

definition compare_env :: "(FileMeta list \<Rightarrow> int) \<Rightarrow> (nat \<Rightarrow> int) \<Rightarrow> string \<Rightarrow> Server \<Rightarrow> Syncer \<Rightarrow> nat \<Rightarrow> string \<Rightarrow> page_env" where
  "compare_env json_size now secret srv sy i after =
     \<lparr> peCancelled = False,
       peReply = Inr (fst (guard (now i) json_size (handleManifest None) srv (setClusterHeaders secret sy (manifest_query after) []))),
       peFiles = None, peQueue = None, peSave = None, peNow = now i \<rparr>"

definition can_compare :: "(FileMeta list \<Rightarrow> int) \<Rightarrow> string \<Rightarrow> Server \<Rightarrow> Syncer \<Rightarrow> bool" where
  "can_compare json_size secret srv sy \<longleftrightarrow> (svSecret srv = [] \<or> secret = svSecret srv) \<and> svNodeID srv \<noteq> syNodeID sy \<and>
     (\<forall>a. json_size (map json_meta (rows_or_nil (ListManifest None (svStore srv) a manifestPageSize))) \<le> page_budget manifestPageSize)"

lemma compare_env_serves:
  assumes "can_compare json_size secret srv sy"
  shows "serves_manifest (svStore srv) sy (compare_env json_size now secret srv sy i a) a"
proof -
  let ?r = "setClusterHeaders secret sy (manifest_query a) []"
  let ?v = "map json_meta (rows_or_nil (ListManifest None (svStore srv) a manifestPageSize))"
  have q: "query_get ?r ''limit'' = FormatInt manifestPageSize" "query_get ?r ''after'' = a"
    by (simp_all add: query_get_def setClusterHeaders_def manifest_query_def)
  then have lim: "parseLimit ?r 1000 = Some manifestPageSize" by (intro parseLimit_formatted) auto
  have auth: "svSecret srv = [] \<or> prSecret ?r = svSecret srv" and proto: "prNodeID ?r = [] \<or> prProtocol ?r = ProtocolVersion"
    using assms by (simp_all add: can_compare_def setClusterHeaders_def)
  have "\<exists>srv'. handleManifest None srv1 ?r = ((200, Some ?v), srv') \<and> True" if "svStore srv1 = svStore srv" for srv1
    using lim q that by (simp add: handleManifest_def ListManifest_def db_read_def rows_or_nil_def)
  from guard_admits [of srv ?r "handleManifest None" ?v "\<lambda>_. True" "now i" json_size, OF auth proto this]
  obtain srv' where "guard (now i) json_size (handleManifest None) srv ?r =
      (\<lparr> rspStatus = 200, rspProtocol = ProtocolVersion, rspNodeID = svNodeID srv, rspEpoch = incarnation (svStore srv),
         rspMaxVersion = FormatInt (MaxVersion (svStore srv)), rspSize = json_size ?v, rspValue = Some ?v \<rparr>, srv')" by blast
  then show ?thesis using assms by (simp add: serves_manifest_def compare_env_def can_compare_def)
qed



section \<open>Access and single files\<close>

lemma CutPrefix_Some: "CutPrefix s p = Some t \<longleftrightarrow> s = p @ t"
  by (auto simp: CutPrefix_def HasPrefix_def elim: prefixE)

definition demo_caller :: peer_request where
  "demo_caller = \<lparr> prSecret = ''guess'', prNodeID = ''n9'', prProtocol = ''4'', prNodeEpoch = [], prAuthorization = ''Bearer x'',
     prQuery = [], prName = ''docs/a'' \<rparr>"



lemma octal_digit:
  "n < 8 \<Longrightarrow> is_digit (char_of (48 + n))" "n < 8 \<Longrightarrow> digit_val (char_of (48 + n)) = n"
  by (simp_all add: is_digit_def digit_val_def of_char_of)

lemma octal_FormatOct: "octal_value (FormatOct n) = Some (int n)"
proof -
  have "FormatOct n \<noteq> [] \<and> list_all (\<lambda>c. is_digit c \<and> digit_val c < 8) (FormatOct n) \<and>
      foldl (\<lambda>n c. 8 * n + digit_val c) 0 (FormatOct n) = n"
  proof (induction n rule: FormatOct.induct)
    case (1 n)
    then show ?case by (subst (1 2 3) FormatOct.simps) (auto simp: octal_digit)
  qed
  then show ?thesis by (simp add: octal_value_def)
qed

lemma parseFileMode_FormatOct: "0 < n \<Longrightarrow> n \<le> 511 \<Longrightarrow> parseFileMode (FormatOct n) = Some (int n)"
  by (simp add: parseFileMode_def octal_FormatOct)


definition demo_view :: file_view where
  "demo_view = (let i = \<lparr> ssSize = 3, ssModTime = 7, ssPerm = 420, ssIsRegular = True \<rparr>
     in \<lparr> fvStat = (\<lambda>_. StatOk i), fvOpen = (\<lambda>_. Some i), fvOpenStatFails = False, fvGranularity = 1 \<rparr>)"

definition demo_fs :: link_view where
  "demo_fs = \<lparr> realRoot = Some ''/data'', evalDeepestAncestor = \<lambda>p. p \<rparr>"


lemma probe_exact:
  "list_all (\<lambda>q. DetectModTimeGranularity None (\<lambda>t. Inr (t - t mod q)) = (q, None)) modTimeGranularities"
  "list_all (\<lambda>q. DetectModTimeGranularity None (\<lambda>t. Inr (t + (- t) mod q)) = (q, None)) modTimeGranularities"
  by code_simp+

text \<open>On a volume that keeps times at one of the supported resolutions, truncating or rounding up, the probe
  measures exactly that resolution, and at that resolution a time read back from the volume is always recognised as the
  one recorded.\<close>

theorem granularity_detected:
  assumes "q \<in> set modTimeGranularities" "keep = (\<lambda>t. t - t mod q) \<or> keep = (\<lambda>t. t + (- t) mod q)"
  shows "DetectModTimeGranularity None (\<lambda>t. Inr (keep t)) = (q, None) \<and> SameModTime (SetModTimeGranularity q) (keep t) t"
proof
  show "DetectModTimeGranularity None (\<lambda>t. Inr (keep t)) = (q, None)"
    using assms probe_exact by (auto simp: list_all_iff)
  have q: "0 < q" "q \<le> 2000000000" using assms(1) by (auto simp: modTimeGranularities_def)
  have d: "\<bar>keep t - t\<bar> < q"
    using assms(2) q(1) pos_mod_bound [OF q(1), of t] pos_mod_sign [OF q(1), of t] pos_mod_bound [OF q(1), of "- t"] pos_mod_sign [OF q(1), of "- t"]
    by auto
  then have "wrap64 (keep t - t) = keep t - t" using q(2) by (intro wrap64_id) (auto simp: in_int64_def)
  moreover have "wrap64 (t - keep t) = t - keep t" using d q(2) by (intro wrap64_id) (auto simp: in_int64_def)
  ultimately show "SameModTime (SetModTimeGranularity q) (keep t) t"
    using d q by (auto simp: SameModTime_def SetModTimeGranularity_def ModTimeGranularity_def absDuration_def Let_def)
qed

theorem granularity_detected_witness:
  "DetectModTimeGranularity None (\<lambda>t. Inr (t - t mod 2000000000)) = (2000000000, None) \<and>
   SameModTime (SetModTimeGranularity 2000000000) (3000000001 - 3000000001 mod 2000000000) 3000000001"
  by (rule granularity_detected) (simp_all add: modTimeGranularities_def)

end
