(* ===== verification/S3_Streaming.thy ===== *)
theory S3_Streaming
  imports S3_Access "HOL-Library.Word"
begin

unbundle bit_operations_syntax

text \<open>
  Bodies of PutObject and UploadPart (gateway/s3/streaming.go): the decoder of aws-chunked framing with
  its chain of signatures and its trailers, the flexible checksums, and the payload that delivers the
  decoded bytes and reports the end only when length and checksum agree. The request body is a buffered
  reader: the bytes still to come, and the error that follows them if they do not end with the end of the
  body. How many bytes one read delivers is an argument. SHA-1 and SHA-256 are parameters, the CRCs are
  computed.
\<close>

section \<open>Base64\<close>

text \<open>\<open>base64.StdEncoding\<close>: line breaks are skipped, the last group is padded, its spare bits are ignored.\<close>

definition b64_char :: "nat \<Rightarrow> char" where
  "b64_char n = (if n < 26 then char_of (65 + n) else if n < 52 then char_of (71 + n) else if n < 62 then char_of (n - 4)
     else if n = 62 then CHR ''+'' else CHR ''/'')"

definition b64_val :: "char \<Rightarrow> nat option" where
  "b64_val c =
     (let n = (of_char c :: nat)
      in if 65 \<le> n \<and> n \<le> 90 then Some (n - 65)
         else if 97 \<le> n \<and> n \<le> 122 then Some (n - 71)
         else if 48 \<le> n \<and> n \<le> 57 then Some (n + 4)
         else if c = CHR ''+'' then Some 62
         else if c = CHR ''/'' then Some 63 else None)"

fun b64_encode :: "string \<Rightarrow> string" where
  "b64_encode [] = []"
| "b64_encode [x] =
     (let a = (of_char x :: nat) in [b64_char (a div 4), b64_char (a mod 4 * 16), CHR ''='', CHR ''=''])"
| "b64_encode [x, y] =
     (let a = (of_char x :: nat); b = (of_char y :: nat)
      in [b64_char (a div 4), b64_char (a mod 4 * 16 + b div 16), b64_char (b mod 16 * 4), CHR ''=''])"
| "b64_encode (x # y # z # s) =
     (let a = (of_char x :: nat); b = (of_char y :: nat); c = (of_char z :: nat)
      in [b64_char (a div 4), b64_char (a mod 4 * 16 + b div 16), b64_char (b mod 16 * 4 + c div 64), b64_char (c mod 64)]
         @ b64_encode s)"

fun b64_quanta :: "string \<Rightarrow> string option" where
  "b64_quanta [] = Some []"
| "b64_quanta (p # q # r # t # s) =
     (case (b64_val p, b64_val q) of
        (Some a, Some b) \<Rightarrow>
          if r = CHR ''='' then (if t = CHR ''='' \<and> s = [] then Some [char_of (a * 4 + b div 16)] else None)
          else (case b64_val r of
                  None \<Rightarrow> None
                | Some c \<Rightarrow>
                    if t = CHR ''='' then (if s = [] then Some [char_of (a * 4 + b div 16), char_of (b mod 16 * 16 + c div 4)] else None)
                    else (case b64_val t of
                            None \<Rightarrow> None
                          | Some d \<Rightarrow>
                              map_option ((@) [char_of (a * 4 + b div 16), char_of (b mod 16 * 16 + c div 4), char_of (c mod 4 * 64 + d)])
                                (b64_quanta s)))
      | _ \<Rightarrow> None)"
| "b64_quanta s = None"

definition b64_decode :: "string \<Rightarrow> string option" where
  "b64_decode s = b64_quanta (filter (\<lambda>c. c \<noteq> CHR 0x0D \<and> c \<noteq> CHR 0x0A) s)"

section \<open>Checksums\<close>

text \<open>The reflected CRCs of \<open>hash/crc32\<close> and \<open>hash/crc64\<close>: eight shifts per byte, complement before and after, and
  the sum in big-endian order.\<close>

definition crc_shift :: "'w::len word \<Rightarrow> 'w word \<Rightarrow> 'w word" where
  "crc_shift poly x = (if bit x 0 then drop_bit 1 x XOR poly else drop_bit 1 x)"

definition crc_byte :: "'w::len word \<Rightarrow> 'w word \<Rightarrow> char \<Rightarrow> 'w word" where
  "crc_byte poly x c = (crc_shift poly ^^ 8) (x XOR word_of_nat (of_char c))"

definition crc_update :: "'w::len word \<Rightarrow> string \<Rightarrow> 'w word" where
  "crc_update poly s = NOT (foldl (crc_byte poly) (NOT 0) s)"

fun big_endian :: "nat \<Rightarrow> nat \<Rightarrow> string" where
  "big_endian 0 n = []"
| "big_endian (Suc k) n = big_endian k (n div 256) @ [char_of (n mod 256)]"

definition crc32_sum :: "32 word \<Rightarrow> string \<Rightarrow> string" where
  "crc32_sum poly s = big_endian 4 (unat (crc_update poly s))"

definition crc64_sum :: "64 word \<Rightarrow> string \<Rightarrow> string" where
  "crc64_sum poly s = big_endian 8 (unat (crc_update poly s))"

record digests =
  dgSha1 :: "string \<Rightarrow> string"
  dgSha256 :: "string \<Rightarrow> string"

text \<open>The algorithms by header name, each with the size of its sum.\<close>

definition checksumAlgorithms :: "digests \<Rightarrow> string \<Rightarrow> ((string \<Rightarrow> string) \<times> nat) option" where
  "checksumAlgorithms dg name =
     (if name = ''x-amz-checksum-crc32'' then Some (crc32_sum 0xEDB88320, 4)
      else if name = ''x-amz-checksum-crc32c'' then Some (crc32_sum 0x82F63B78, 4)
      else if name = ''x-amz-checksum-crc64nvme'' then Some (crc64_sum 0x9A6C9329AC4BC9B5, 8)
      else if name = ''x-amz-checksum-sha1'' then Some (dgSha1 dg, 20)
      else if name = ''x-amz-checksum-sha256'' then Some (dgSha256 dg, 32)
      else None)"

definition checksumParameters :: "string \<Rightarrow> bool" where
  "checksumParameters name = (name \<in> {''x-amz-checksum-algorithm'', ''x-amz-checksum-type'', ''x-amz-checksum-mode''})"

text \<open>\<open>smData\<close> is what was written to the hash.\<close>

record checksum =
  smName :: string
  smHash :: "string \<Rightarrow> string"
  smSize :: nat
  smData :: string
  smWant :: "string option"
  smTrailing :: bool

definition sum_decode :: "checksum \<Rightarrow> string \<Rightarrow> string option" where
  "sum_decode c value =
     (case b64_decode (TrimSpace value) of
        None \<Rightarrow> None
      | Some want \<Rightarrow> if length want = smSize c then Some want else None)"

section \<open>Failures and the request body\<close>

datatype objectFailure =
    StreamingVariant | ChunkSignature | ChunkEncoding | ChunkTruncated | DecodedLength | MalformedTrailer
  | AuthorizationRequired | InvalidDecodedLength | EntityTooLarge | UnsupportedChecksum string | InvalidChecksum string
  | TrailerWithoutStreaming | UnsupportedTrailer string | MultipleChecksums | InvalidTrailer string | BadDigest string

datatype read_error = EOF | Failed objectFailure | ReadError string

record bufreader =
  bufData :: string
  bufFail :: "string option"

definition buf_end :: "bufreader \<Rightarrow> read_error" where
  "buf_end b = (case bufFail b of None \<Rightarrow> EOF | Some x \<Rightarrow> ReadError x)"

abbreviation (input) chunkLineLimit :: nat where
  "chunkLineLimit \<equiv> 4096"

abbreviation (input) maxTrailerLines :: nat where
  "maxTrailerLines \<equiv> 32"

abbreviation LF :: char where
  "LF \<equiv> CHR 0x0A"

abbreviation CR :: char where
  "CR \<equiv> CHR 0x0D"

text \<open>\<open>ReadSlice('\n')\<close> on a buffer of \<open>chunkLineLimit\<close> bytes: a line, a full buffer without one, or what is left
  when the body ends first. The end of the body is reported by a read of its own.\<close>

datatype slice_outcome = SliceLine | SliceFull | SliceEnd read_error

definition ReadSlice :: "bufreader \<Rightarrow> string \<times> slice_outcome \<times> bufreader" where
  "ReadSlice b =
     (let n = length (takeWhile (\<lambda>c. c \<noteq> LF) (bufData b))
      in if n < length (bufData b) \<and> n < chunkLineLimit
         then (take (Suc n) (bufData b), SliceLine, b\<lparr>bufData := drop (Suc n) (bufData b)\<rparr>)
         else if chunkLineLimit \<le> length (bufData b)
         then (take chunkLineLimit (bufData b), SliceFull, b\<lparr>bufData := drop chunkLineLimit (bufData b)\<rparr>)
         else (bufData b, SliceEnd (buf_end b), b\<lparr>bufData := []\<rparr>))"

definition truncation :: "read_error \<Rightarrow> read_error" where
  "truncation e = (case e of EOF \<Rightarrow> Failed ChunkTruncated | _ \<Rightarrow> e)"

section \<open>The signature chain\<close>

abbreviation (input) emptySHA256 :: string where
  "emptySHA256 \<equiv> ''e3b0c44298fc1c149afbf4c8996fb92427ae41e4649b934ca495991b7852b855''"

record chunkSigner =
  sgKey :: string
  sgAmzDate :: string
  sgScope :: string
  sgPrev :: string
  sgHash :: string

definition string_to_sign :: "chunkSigner \<Rightarrow> string \<Rightarrow> string \<Rightarrow> string" where
  "string_to_sign s algorithm digest =
     algorithm @ [LF] @ sgAmzDate s @ [LF] @ sgScope s @ [LF] @ sgPrev s @ [LF] @ digest"

definition sg_verify :: "sig_env \<Rightarrow> chunkSigner \<Rightarrow> string \<Rightarrow> string \<Rightarrow> string \<Rightarrow> bool \<times> chunkSigner" where
  "sg_verify env s sig algorithm digest =
     (let want = hex_lower (seHmac env (sgKey s) (string_to_sign s algorithm digest)); s1 = s\<lparr>sgHash := []\<rparr>
      in if want \<noteq> sig then (False, s1) else (True, s1\<lparr>sgPrev := sig\<rparr>))"

definition verifyChunk :: "sig_env \<Rightarrow> chunkSigner \<Rightarrow> string \<Rightarrow> bool \<times> chunkSigner" where
  "verifyChunk env s sig = sg_verify env s sig ''AWS4-HMAC-SHA256-PAYLOAD'' (emptySHA256 @ [LF] @ seSha env (sgHash s))"

definition verifyTrailer :: "sig_env \<Rightarrow> chunkSigner \<Rightarrow> string \<Rightarrow> string \<Rightarrow> bool \<times> chunkSigner" where
  "verifyTrailer env s canonical sig = sg_verify env s sig ''AWS4-HMAC-SHA256-TRAILER'' (seSha env canonical)"

definition streamingSigner :: "sig_env \<Rightarrow> http_request \<Rightarrow> string \<Rightarrow> chunkSigner option" where
  "streamingSigner env r secretKey =
     (let auth = Header_Get r ''Authorization''
      in if \<not> HasPrefix auth sigV4Algorithm then None
         else
           let params = parseAuthHeader auth; seed = auth_param params ''Signature''; amzDate = Header_Get r ''X-Amz-Date''
           in case parseCredential (auth_param params ''Credential'') of
                None \<Rightarrow> None
              | Some cred \<Rightarrow>
                  if seed = [] \<or> amzDate = [] then None
                  else Some \<lparr> sgKey = deriveSigningKey (seHmac env) secretKey (crDate cred) (crRegion cred) (crService cred),
                              sgAmzDate = amzDate, sgScope = crScope cred, sgPrev = seed, sgHash = [] \<rparr>)"

section \<open>The chunk reader\<close>

record chunkReader =
  ckSrc :: bufreader
  ckSigned :: bool
  ckSigner :: "chunkSigner option"
  ckTrailing :: bool
  ckDeclared :: string
  ckEmptyOK :: bool
  ckStarted :: bool
  ckLeft :: nat
  ckOpen :: bool
  ckSig :: string
  ckTrailers :: "(string \<times> string) list"
  ckErr :: "read_error option"

text \<open>\<open>strings.Cut\<close> as the decoder uses it: without the separator everything is before it.\<close>

definition Cut_or_all :: "string \<Rightarrow> char \<Rightarrow> string \<times> string" where
  "Cut_or_all s c = (case Cut s c of None \<Rightarrow> (s, []) | Some p \<Rightarrow> p)"

text \<open>The verification where the reader has a signer; without one every signature passes.\<close>

definition check_chunk :: "sig_env \<Rightarrow> chunkReader \<Rightarrow> bool \<times> chunkReader" where
  "check_chunk env c =
     (case ckSigner c of
        None \<Rightarrow> (True, c)
      | Some s \<Rightarrow> (case verifyChunk env s (ckSig c) of (ok, s1) \<Rightarrow> (ok, c\<lparr>ckSigner := Some s1\<rparr>)))"

definition check_trailer :: "sig_env \<Rightarrow> chunkReader \<Rightarrow> string \<Rightarrow> string \<Rightarrow> bool \<times> chunkReader" where
  "check_trailer env c canonical sig =
     (case ckSigner c of
        None \<Rightarrow> (True, c)
      | Some s \<Rightarrow> (case verifyTrailer env s canonical sig of (ok, s1) \<Rightarrow> (ok, c\<lparr>ckSigner := Some s1\<rparr>)))"

text \<open>One line of the trailer section, and the section. The fuel counts the lines that may still come.\<close>

definition trailer_line ::
    "sig_env \<Rightarrow> string \<Rightarrow> string \<times> bool \<times> chunkReader \<Rightarrow> read_error option \<times> string \<times> bool \<times> chunkReader" where
  "trailer_line env line st =
     (case st of (canonical, verified, c) \<Rightarrow>
        let text = TrimSpace line
        in if text = [] then (None, st)
           else
             let (name0, value0) = Cut_or_all text CHR '':'';
                 name = seLower env (TrimSpace name0); value = TrimSpace value0
             in if Cut text CHR '':'' = None \<or> name = [] \<or> verified then (Some (Failed MalformedTrailer), st)
                else if name = ''x-amz-trailer-signature'' then
                  if \<not> ckSigned c \<or> \<not> ckTrailing c then (Some (Failed MalformedTrailer), st)
                  else if \<not> isHexSHA256 value then (Some (Failed ChunkSignature), st)
                  else (case check_trailer env c canonical value of
                          (False, c1) \<Rightarrow> (Some (Failed ChunkSignature), canonical, verified, c1)
                        | (True, c1) \<Rightarrow> (None, canonical, True, c1))
                else if name \<noteq> ckDeclared c then (Some (Failed MalformedTrailer), st)
                else if row_of fst (ckTrailers c) name \<noteq> None then (Some (Failed MalformedTrailer), st)
                else (None, canonical @ name @ '':'' @ value @ [LF], verified, c\<lparr>ckTrailers := upsert fst (name, value) (ckTrailers c)\<rparr>))"

fun trailer_loop :: "sig_env \<Rightarrow> nat \<Rightarrow> string \<times> bool \<times> chunkReader \<Rightarrow> read_error \<times> chunkReader" where
  "trailer_loop env 0 (canonical, verified, c) = (Failed MalformedTrailer, c)"
| "trailer_loop env (Suc k) (canonical, verified, c) =
     (case ReadSlice (ckSrc c) of (line, outcome, src) \<Rightarrow>
        let c1 = c\<lparr>ckSrc := src\<rparr>
        in case outcome of
             SliceFull \<Rightarrow> (Failed MalformedTrailer, c1)
           | SliceEnd e \<Rightarrow>
               if e \<noteq> EOF then (truncation e, c1)
               else (case trailer_line env line (canonical, verified, c1) of
                       (Some x, _, _, c2) \<Rightarrow> (x, c2)
                     | (None, _, verified2, c2) \<Rightarrow>
                         if ckSigned c2 \<and> ckTrailing c2 \<and> \<not> verified2 then (Failed MalformedTrailer, c2) else (EOF, c2))
           | SliceLine \<Rightarrow>
               (case trailer_line env line (canonical, verified, c1) of
                  (Some x, _, _, c2) \<Rightarrow> (x, c2)
                | (None, st) \<Rightarrow> trailer_loop env k st))"

definition readTrailers :: "sig_env \<Rightarrow> chunkReader \<Rightarrow> read_error \<times> chunkReader" where
  "readTrailers env c = trailer_loop env maxTrailerLines ([], False, c\<lparr>ckTrailers := []\<rparr>)"

text \<open>\<open>strconv.ParseUint(size, 16, 63)\<close> on a size that was checked to consist of hexadecimal digits.\<close>

definition hex_size :: "string \<Rightarrow> nat" where
  "hex_size s = foldl (\<lambda>n c. 16 * n + (case unhex c of None \<Rightarrow> 0 | Some d \<Rightarrow> d)) 0 s"

definition parse_size :: "string \<Rightarrow> nat option" where
  "parse_size digits =
     (if digits = [] \<or> length digits > 16 \<or> \<not> list_all (\<lambda>c. unhex c \<noteq> None) digits then None
      else if hex_size digits \<ge> 2 ^ 63 then None else Some (hex_size digits))"

definition close_chunk :: "sig_env \<Rightarrow> chunkReader \<Rightarrow> read_error option \<times> chunkReader" where
  "close_chunk env c =
     (let src = ckSrc c; crlf = take 2 (bufData src); c1 = c\<lparr>ckSrc := src\<lparr>bufData := drop 2 (bufData src)\<rparr>\<rparr>
      in if length crlf < 2 then (Some (truncation (buf_end src)), c1)
         else if crlf \<noteq> [CR, LF] then (Some (Failed ChunkEncoding), c1)
         else (case check_chunk env c1 of
                 (False, c2) \<Rightarrow> (Some (Failed ChunkSignature), c2)
               | (True, c2) \<Rightarrow> (None, c2\<lparr>ckOpen := False\<rparr>)))"

definition open_chunk :: "sig_env \<Rightarrow> chunkReader \<Rightarrow> read_error option \<times> chunkReader" where
  "open_chunk env c =
     (case ReadSlice (ckSrc c) of (line, outcome, src) \<Rightarrow>
        let c1 = c\<lparr>ckSrc := src\<rparr>
        in case outcome of
             SliceFull \<Rightarrow> (Some (Failed ChunkEncoding), c1)
           | SliceEnd e \<Rightarrow>
               if \<not> ckStarted c \<and> line = [] \<and> e = EOF \<and> ckEmptyOK c then (Some EOF, c1\<lparr>ckTrailers := []\<rparr>)
               else (Some (truncation e), c1)
           | SliceLine \<Rightarrow>
               let c2 = c1\<lparr>ckStarted := True\<rparr>;
                   (digits, ext) = Cut_or_all (TrimSuffix (TrimSuffix line [LF]) [CR]) CHR '';'';
                   (name, sig) = Cut_or_all ext CHR ''=''
               in case parse_size digits of
                    None \<Rightarrow> (Some (Failed ChunkEncoding), c2)
                  | Some n \<Rightarrow>
                      if ckSigned c \<and> (name \<noteq> ''chunk-signature'' \<or> \<not> isHexSHA256 sig) then (Some (Failed ChunkSignature), c2)
                      else
                        let c3 = (if ckSigned c then c2\<lparr>ckSig := sig\<rparr> else c2)
                        in if n = 0 then
                             (case check_chunk env c3 of
                                (False, c4) \<Rightarrow> (Some (Failed ChunkSignature), c4)
                              | (True, c4) \<Rightarrow> (case readTrailers env c4 of (x, c5) \<Rightarrow> (Some x, c5)))
                           else (None, c3\<lparr>ckLeft := n, ckOpen := True\<rparr>))"

definition next_chunk :: "sig_env \<Rightarrow> chunkReader \<Rightarrow> read_error option \<times> chunkReader" where
  "next_chunk env c =
     (if ckOpen c then
        (case close_chunk env c of
           (Some x, c1) \<Rightarrow> (Some x, c1)
         | (None, c1) \<Rightarrow> open_chunk env c1)
      else open_chunk env c)"

text \<open>\<open>Read\<close> into a buffer of \<open>len\<close> bytes when the reader below delivers at most \<open>avail\<close> at once.\<close>

definition chunk_data :: "nat \<Rightarrow> nat \<Rightarrow> chunkReader \<Rightarrow> string \<times> read_error option \<times> chunkReader" where
  "chunk_data len avail c =
     (let src = ckSrc c; p = take (min (min len (ckLeft c)) (max 1 avail)) (bufData src);
          c1 = c\<lparr>ckSrc := src\<lparr>bufData := drop (length p) (bufData src)\<rparr>, ckLeft := ckLeft c - length p,
                 ckSigner := map_option (\<lambda>s. s\<lparr>sgHash := sgHash s @ p\<rparr>) (ckSigner c)\<rparr>
      in if bufData src = [] then
           ([], Some (truncation (buf_end src)), c1\<lparr>ckErr := Some (truncation (buf_end src))\<rparr>)
         else (p, None, c1))"

definition chunk_Read :: "sig_env \<Rightarrow> nat \<Rightarrow> nat \<Rightarrow> chunkReader \<Rightarrow> string \<times> read_error option \<times> chunkReader" where
  "chunk_Read env len avail c =
     (case ckErr c of
        Some x \<Rightarrow> ([], Some x, c)
      | None \<Rightarrow>
          if len = 0 then ([], None, c)
          else if ckLeft c = 0 then
            (case next_chunk env c of
               (Some x, c1) \<Rightarrow> ([], Some x, c1\<lparr>ckErr := Some x\<rparr>)
             | (None, c1) \<Rightarrow> chunk_data len avail c1)
          else chunk_data len avail c)"

section \<open>The payload\<close>

record payload =
  pyBody :: bufreader
  pyChunks :: "chunkReader option"
  pyLength :: int
  pyN :: int
  pySum :: "checksum option"
  pyErr :: "read_error option"

definition streamingBody :: "(string \<Rightarrow> string) \<Rightarrow> http_request \<Rightarrow> bool" where
  "streamingBody to_upper r =
     (list_ex (\<lambda>value. list_ex (\<lambda>encoding. EqualFold (TrimSpace encoding) ''aws-chunked'') (Split value CHR '',''))
        (Header_Values r ''Content-Encoding'') \<or>
      list_ex (\<lambda>value. HasPrefix (to_upper (TrimSpace value)) ''STREAMING-'') (Header_Values r ''X-Amz-Content-Sha256''))"

text \<open>The checksum headers, in the order in which the header map is visited; then the names in
  \<open>X-Amz-Trailer\<close>. The accumulator holds the last checksum and the number of names.\<close>

fun header_sums ::
    "sig_env \<Rightarrow> digests \<Rightarrow> (string \<times> string list) list \<Rightarrow> checksum option \<times> nat \<Rightarrow> (objectFailure, checksum option \<times> nat) result" where
  "header_sums env dg [] acc = Inr acc"
| "header_sums env dg ((key, values) # kvs) acc =
     (let name = seLower env key
      in if \<not> HasPrefix name ''x-amz-checksum-'' \<or> checksumParameters name then header_sums env dg kvs acc
         else case checksumAlgorithms dg name of
                None \<Rightarrow> Inl (UnsupportedChecksum name)
              | Some (h, n) \<Rightarrow>
                  let sum = \<lparr> smName = name, smHash = h, smSize = n, smData = [], smWant = None, smTrailing = False \<rparr>
                  in case sum_decode sum (Join values '','') of
                       None \<Rightarrow> Inl (InvalidChecksum name)
                     | Some want \<Rightarrow> header_sums env dg kvs (Some (sum\<lparr>smWant := Some want\<rparr>), Suc (snd acc)))"

fun trailer_sums ::
    "sig_env \<Rightarrow> digests \<Rightarrow> bool \<Rightarrow> string list \<Rightarrow> checksum option \<times> nat \<Rightarrow> (objectFailure, checksum option \<times> nat) result" where
  "trailer_sums env dg trailing [] acc = Inr acc"
| "trailer_sums env dg trailing (raw # raws) acc =
     (let name = seLower env (TrimSpace raw)
      in if name = [] then trailer_sums env dg trailing raws acc
         else if \<not> trailing then Inl TrailerWithoutStreaming
         else case checksumAlgorithms dg name of
                None \<Rightarrow> Inl (UnsupportedTrailer name)
              | Some (h, n) \<Rightarrow>
                  trailer_sums env dg trailing raws
                    (Some \<lparr> smName = name, smHash = h, smSize = n, smData = [], smWant = None, smTrailing = True \<rparr>, Suc (snd acc)))"

definition declaredChecksum ::
    "sig_env \<Rightarrow> digests \<Rightarrow> string list \<Rightarrow> http_request \<Rightarrow> bool \<Rightarrow> (objectFailure, checksum option) result" where
  "declaredChecksum env dg keys r trailing =
     result_bind (header_sums env dg (map (\<lambda>k. (k, rqHeader r k)) keys) (None, 0)) (\<lambda>acc.
     result_bind (trailer_sums env dg trailing (concat (map (\<lambda>v. Split v CHR '','') (Header_Values r ''X-Amz-Trailer''))) acc) (\<lambda>(sum, n).
       if n > 1 then Inl MultipleChecksums else Inr sum))"

text \<open>What the gateway's configuration and the standard library contribute.\<close>

record s3_config =
  scAccessKey :: string
  scSecretKey :: string
  scMaxUploadBytes :: int

definition new_chunks :: "bufreader \<Rightarrow> bool \<Rightarrow> bool \<Rightarrow> chunkReader" where
  "new_chunks body with_signatures trailing =
     \<lparr> ckSrc = body, ckSigned = with_signatures, ckSigner = None, ckTrailing = trailing, ckDeclared = [], ckEmptyOK = False,
       ckStarted = False, ckLeft = 0, ckOpen = False, ckSig = [], ckTrailers = [], ckErr = None \<rparr>"

definition payload_chunks ::
    "sig_env \<Rightarrow> (string \<Rightarrow> string) \<Rightarrow> s3_config \<Rightarrow> http_request \<Rightarrow> bufreader \<Rightarrow> (objectFailure, chunkReader option) result" where
  "payload_chunks env to_upper cfg r body =
     (let mode = TrimSpace (Header_Get r ''X-Amz-Content-Sha256'')
      in if mode = ''STREAMING-AWS4-HMAC-SHA256-PAYLOAD'' \<or> mode = ''STREAMING-AWS4-HMAC-SHA256-PAYLOAD-TRAILER'' then
           let c = new_chunks body True (mode = ''STREAMING-AWS4-HMAC-SHA256-PAYLOAD-TRAILER'')
           in if scAccessKey cfg \<noteq> [] \<or> scSecretKey cfg \<noteq> [] then
                (case streamingSigner env r (scSecretKey cfg) of
                   None \<Rightarrow> Inl AuthorizationRequired
                 | Some s \<Rightarrow> Inr (Some (c\<lparr>ckSigner := Some s\<rparr>)))
              else Inr (Some c)
         else if mode = ''STREAMING-UNSIGNED-PAYLOAD-TRAILER'' then Inr (Some (new_chunks body False True))
         else if streamingBody to_upper r then Inl StreamingVariant else Inr None)"

definition payload_length :: "sig_env \<Rightarrow> s3_config \<Rightarrow> http_request \<Rightarrow> chunkReader \<Rightarrow> (objectFailure, int \<times> chunkReader) result" where
  "payload_length env cfg r c =
     (let raw = Header_Get r ''X-Amz-Decoded-Content-Length''
      in if raw = [] then Inr (-1, c)
         else case ParseInt (TrimSpace raw) of
                None \<Rightarrow> Inl InvalidDecodedLength
              | Some n \<Rightarrow>
                  if n < 0 then Inl InvalidDecodedLength
                  else if scMaxUploadBytes cfg > 0 \<and> n > scMaxUploadBytes cfg then Inl EntityTooLarge
                  else Inr (n, c\<lparr>ckEmptyOK := (n = 0 \<and> (ckSigner c = None \<or>
                         containsHeader (splitSignedHeaders (seLower env) (auth_param (parseAuthHeader (Header_Get r ''Authorization'')) ''SignedHeaders''))
                           ''x-amz-decoded-content-length''))\<rparr>))"

definition newPayload ::
    "sig_env \<Rightarrow> digests \<Rightarrow> (string \<Rightarrow> string) \<Rightarrow> s3_config \<Rightarrow> string list \<Rightarrow> http_request \<Rightarrow> bufreader \<Rightarrow> (objectFailure, payload) result" where
  "newPayload env dg to_upper cfg keys r body =
     result_bind (payload_chunks env to_upper cfg r body) (\<lambda>chunks.
     result_bind (case chunks of None \<Rightarrow> Inr (-1, None) | Some c \<Rightarrow> result_bind (payload_length env cfg r c) (\<lambda>(n, c1). Inr (n, Some c1))) (\<lambda>(n, chunks1).
     result_bind (declaredChecksum env dg keys r (case chunks of None \<Rightarrow> False | Some c \<Rightarrow> ckTrailing c)) (\<lambda>sum.
       Inr \<lparr> pyBody = body,
             pyChunks = (case sum of
               Some s \<Rightarrow> if smTrailing s then map_option (\<lambda>c. c\<lparr>ckDeclared := smName s\<rparr>) chunks1 else chunks1
             | None \<Rightarrow> chunks1),
             pyLength = n, pyN = 0, pySum = sum, pyErr = None \<rparr>)))"

definition payload_finish :: "payload \<Rightarrow> read_error \<times> payload" where
  "payload_finish p =
     (if pyLength p \<ge> 0 \<and> pyN p \<noteq> pyLength p then (Failed DecodedLength, p)
      else case pySum p of
             None \<Rightarrow> (EOF, p)
           | Some s \<Rightarrow>
               let want = (if smTrailing s then
                             (case pyChunks p of
                                None \<Rightarrow> Inl MalformedTrailer
                              | Some c \<Rightarrow>
                                  (case row_of fst (ckTrailers c) (smName s) of
                                     None \<Rightarrow> Inl MalformedTrailer
                                   | Some (_, value) \<Rightarrow>
                                       (case sum_decode s value of None \<Rightarrow> Inl (InvalidTrailer (smName s)) | Some w \<Rightarrow> Inr w)))
                           else (case smWant s of None \<Rightarrow> Inr [] | Some w \<Rightarrow> Inr w))
               in case want of
                    Inl x \<Rightarrow> (Failed x, p)
                  | Inr w \<Rightarrow>
                      let p1 = p\<lparr>pySum := Some (s\<lparr>smWant := Some w\<rparr>)\<rparr>
                      in if smHash s (smData s) \<noteq> w then (Failed (BadDigest (smName s)), p1) else (EOF, p1))"

text \<open>A plain body delivers up to \<open>avail\<close> bytes of what is left.\<close>

definition body_Read :: "nat \<Rightarrow> nat \<Rightarrow> bufreader \<Rightarrow> string \<times> read_error option \<times> bufreader" where
  "body_Read len avail b =
     (let p = take (min len (max 1 avail)) (bufData b)
      in if len = 0 then ([], None, b)
         else if bufData b = [] then ([], Some (buf_end b), b)
         else (p, None, b\<lparr>bufData := drop (length p) (bufData b)\<rparr>))"

definition source_Read :: "sig_env \<Rightarrow> nat \<Rightarrow> nat \<Rightarrow> payload \<Rightarrow> string \<times> read_error option \<times> payload" where
  "source_Read env len avail p =
     (case pyChunks p of
        Some c \<Rightarrow> (case chunk_Read env len avail c of (b, e, c1) \<Rightarrow> (b, e, p\<lparr>pyChunks := Some c1\<rparr>))
      | None \<Rightarrow> (case body_Read len avail (pyBody p) of (b, e, src) \<Rightarrow> (b, e, p\<lparr>pyBody := src\<rparr>)))"

definition payload_Read :: "sig_env \<Rightarrow> nat \<Rightarrow> nat \<Rightarrow> payload \<Rightarrow> string \<times> read_error option \<times> payload" where
  "payload_Read env len avail p =
     (case pyErr p of
        Some x \<Rightarrow> ([], Some x, p)
      | None \<Rightarrow>
          (case source_Read env len avail p of (b, e, p0) \<Rightarrow>
             let p1 = p0\<lparr>pyN := pyN p0 + int (length b)\<rparr>
             in if pyLength p1 \<ge> 0 \<and> pyN p1 > pyLength p1
                then ([], Some (Failed DecodedLength), p1\<lparr>pyErr := Some (Failed DecodedLength)\<rparr>)
                else
                  let p2 = p1\<lparr>pySum := map_option (\<lambda>s. s\<lparr>smData := smData s @ b\<rparr>) (pySum p1)\<rparr>
                  in (case e of
                        None \<Rightarrow> (b, None, p2)
                      | Some EOF \<Rightarrow> (case payload_finish p2 of (x, p3) \<Rightarrow> (b, Some x, p3\<lparr>pyErr := Some x\<rparr>))
                      | Some x \<Rightarrow> (b, Some x, p2\<lparr>pyErr := Some x\<rparr>))))"

text \<open>The checksum a response echoes, and a caller that reads to the end. \<open>sched\<close> gives, for each read from
  the last one, the size of the caller's buffer and what the connection has ready.\<close>

definition checksum_header :: "payload \<Rightarrow> (string \<times> string) option" where
  "checksum_header p =
     (case pySum p of
        None \<Rightarrow> None
      | Some s \<Rightarrow> map_option (\<lambda>w. (smName s, b64_encode w)) (smWant s))"

fun read_all :: "sig_env \<Rightarrow> (nat \<Rightarrow> nat \<times> nat) \<Rightarrow> nat \<Rightarrow> payload \<Rightarrow> (string \<times> read_error \<times> payload) option" where
  "read_all env sched 0 p = None"
| "read_all env sched (Suc k) p =
     (case payload_Read env (fst (sched k)) (snd (sched k)) p of
        (b, Some x, p1) \<Rightarrow> Some (b, x, p1)
      | (b, None, p1) \<Rightarrow> map_option (\<lambda>(bs, r). (b @ bs, r)) (read_all env sched k p1))"

end
