(* ===== verification/S3_Chunks.thy ===== *)
theory S3_Chunks
  imports S3_Streaming
begin

text \<open>
  The decoder of aws-chunked bodies against its meaning: decoding in one go, reading in pieces of any size,
  the grammar of frames with their chained signatures, and the trailer section.
\<close>

section \<open>Decoding in one go\<close>

abbreviation pending :: "chunkReader \<Rightarrow> string" where
  "pending c \<equiv> bufData (ckSrc c)"

definition consume :: "nat \<Rightarrow> chunkReader \<Rightarrow> chunkReader" where
  "consume n c = (let d = take n (pending c) in
     c\<lparr>ckSrc := (ckSrc c)\<lparr>bufData := drop n (pending c)\<rparr>, ckLeft := ckLeft c - length d,
       ckSigner := map_option (\<lambda>s. s\<lparr>sgHash := sgHash s @ d\<rparr>) (ckSigner c)\<rparr>)"

lemma ReadSlice_line:
  assumes "ReadSlice b = (line, SliceLine, b')"
  shows "\<exists>u. line = u @ [LF] \<and> LF \<notin> set u \<and> length line \<le> chunkLineLimit \<and> bufData b = line @ bufData b' \<and> bufFail b' = bufFail b"
proof -
  let ?d = "bufData b"
  let ?n = "length (takeWhile (\<lambda>c. c \<noteq> LF) ?d)"
  have n: "?n < length ?d" "?n < chunkLineLimit" "line = take (Suc ?n) ?d" "b' = b\<lparr>bufData := drop (Suc ?n) ?d\<rparr>"
    using assms by (auto simp: ReadSlice_def Let_def split: if_splits)
  have t: "takeWhile (\<lambda>c. c \<noteq> LF) ?d = take ?n ?d" by (rule takeWhile_eq_take)
  have "?d ! ?n = LF" using nth_length_takeWhile [OF n(1)] by simp
  then have "line = take ?n ?d @ [LF]" using n(1,3) by (simp add: take_Suc_conv_app_nth)
  moreover have "LF \<notin> set (take ?n ?d)" using set_takeWhileD [of LF "\<lambda>c. c \<noteq> LF" ?d] by (auto simp flip: t)
  moreover have "?d = line @ bufData b'" using n(3,4) by simp
  moreover have "length line \<le> chunkLineLimit" "bufFail b' = bufFail b" using n(2,3,4) by simp_all
  ultimately show ?thesis by blast
qed

lemma close_chunk_pending: "close_chunk env c = (None, c1) \<Longrightarrow> pending c = [CR, LF] @ pending c1 \<and> ckLeft c1 = ckLeft c \<and> \<not> ckOpen c1"
proof -
  assume a: "close_chunk env c = (None, c1)"
  then have "take 2 (pending c) = [CR, LF]" "pending c1 = drop 2 (pending c)" "ckLeft c1 = ckLeft c" "\<not> ckOpen c1"
    by (auto simp: close_chunk_def check_chunk_def Let_def split: if_splits option.splits prod.splits bool.splits)
  then show ?thesis by (metis append_take_drop_id)
qed

lemma open_chunk_pending: "open_chunk env c = (None, c1) \<Longrightarrow> length (pending c1) < length (pending c) \<and> 0 < ckLeft c1 \<and> ckOpen c1"
  using ReadSlice_line [of "ckSrc c"]
  by (fastforce simp: open_chunk_def Let_def split: prod.splits slice_outcome.splits option.splits if_splits bool.splits)

lemma next_chunk_shrinks: "next_chunk env c = (None, c1) \<Longrightarrow> length (pending c1) < length (pending c) \<and> 0 < ckLeft c1 \<and> ckOpen c1"
  using close_chunk_pending [of env c] open_chunk_pending [of env]
  by (fastforce simp: next_chunk_def split: if_splits prod.splits option.splits)

function decode :: "sig_env \<Rightarrow> chunkReader \<Rightarrow> string \<times> read_error \<times> chunkReader" where
  "decode env c =
     (if ckLeft c = 0 then
        (case next_chunk env c of
           (Some x, c1) \<Rightarrow> ([], x, c1\<lparr>ckErr := Some x\<rparr>)
         | (None, c1) \<Rightarrow> decode env c1)
      else if length (pending c) < ckLeft c then
        let x = truncation (buf_end (ckSrc c)) in (pending c, x, (consume (length (pending c)) c)\<lparr>ckErr := Some x\<rparr>)
      else case decode env (consume (ckLeft c) c) of (bs, r) \<Rightarrow> (take (ckLeft c) (pending c) @ bs, r))"
  by pat_completeness auto

termination decode
  by (relation "measure (\<lambda>(env, c). length (pending c))") (auto simp: consume_def Let_def dest!: next_chunk_shrinks [OF sym])

declare decode.simps [simp del]

section \<open>Reading in pieces\<close>

lemma consume_consume: "n \<le> length (pending c) \<Longrightarrow> consume m (consume n c) = consume (n + m) c"
  by (cases c) (simp add: consume_def take_add option.map_comp comp_def add.commute [of m n])

lemma consume_fields [simp]:
  "pending (consume n c) = drop n (pending c)" "ckErr (consume n c) = ckErr c"
  "bufFail (ckSrc (consume n c)) = bufFail (ckSrc c)" "ckLeft (consume n c) = ckLeft c - min n (length (pending c))"
  by (simp_all add: consume_def Let_def min.commute)

lemma decode_consume:
  assumes "0 < n" "n \<le> ckLeft c" "n \<le> length (pending c)"
  shows "decode env c = (case decode env (consume n c) of (bs, r) \<Rightarrow> (take n (pending c) @ bs, r))"
proof (cases "n = ckLeft c")
  case True
  then show ?thesis using assms by (subst decode.simps) simp
next
  case False
  have l: "ckLeft (consume n c) = ckLeft c - n" using assms by simp
  have e: "buf_end (ckSrc (consume n c)) = buf_end (ckSrc c)" by (simp add: buf_end_def)
  have t: "take n (pending c) @ take (ckLeft c - n) (drop n (pending c)) = take (ckLeft c) (pending c)"
    using assms(2) by (simp flip: take_add)
  show ?thesis
    using assms False l t by (subst (1 2) decode.simps) (auto simp: consume_consume e Let_def split: prod.splits)
qed

lemma chunk_Read_decode:
  assumes "chunk_Read env len avail c = (b, e, c1)" "0 < len" "ckErr c = None"
  shows "case e of
      Some x \<Rightarrow> b = [] \<and> decode env c = ([], x, c1)
    | None \<Rightarrow> b \<noteq> [] \<and> ckErr c1 = None \<and> length (pending c1) < length (pending c) \<and>
        decode env c = (case decode env c1 of (bs, r) \<Rightarrow> (b @ bs, r))"
proof -
  have data: "case e of
      Some x \<Rightarrow> b = [] \<and> decode env c = ([], x, c1)
    | None \<Rightarrow> b \<noteq> [] \<and> ckErr c1 = ckErr c \<and> length (pending c1) < length (pending c) \<and>
        decode env c = (case decode env c1 of (bs, r) \<Rightarrow> (b @ bs, r))"
    if d: "chunk_data len avail c = (b, e, c1)" "0 < ckLeft c" for c
  proof (cases "pending c = []")
    case True
    then show ?thesis using d by (subst decode.simps) (auto simp: chunk_data_def consume_def Let_def)
  next
    case False
    define k where "k = min (min len (ckLeft c)) (max 1 avail)"
    let ?n = "min k (length (pending c))"
    have n: "0 < ?n" "?n \<le> ckLeft c" "?n \<le> length (pending c)" using False d(2) assms(2) by (auto simp: k_def)
    have t: "take k (pending c) = take ?n (pending c)" by (simp add: min_def)
    have "e = None" "b = take ?n (pending c)" "c1 = consume ?n c"
      using False d(1) unfolding chunk_data_def consume_def Let_def k_def [symmetric] t by auto
    then show ?thesis using decode_consume [OF n, of env] n by simp
  qed
  have nxt: "decode env c = decode env c'" if "ckLeft c = 0" "next_chunk env c = (None, c')" for c'
    using that by (subst decode.simps) simp
  have err: "ckErr c' = ckErr c" if "next_chunk env c = (None, c')" for c'
    using that by (auto simp: next_chunk_def close_chunk_def open_chunk_def check_chunk_def Let_def
      split: if_splits prod.splits option.splits slice_outcome.splits bool.splits)
  show ?thesis
  proof (cases "ckLeft c = 0")
    case False
    then show ?thesis using data [of c] assms by (simp add: chunk_Read_def split: option.splits)
  next
    case left: True
    show ?thesis
    proof (cases "next_chunk env c")
      case (Pair x c')
      show ?thesis
      proof (cases x)
        case None
        then show ?thesis
          using data [of c'] nxt [of c'] err [of c'] next_chunk_shrinks [of env c c'] Pair left assms
          by (auto simp: chunk_Read_def split: option.splits)
      next
        case (Some y)
        then show ?thesis using Pair left assms by (subst decode.simps) (auto simp: chunk_Read_def)
      qed
    qed
  qed
qed

text \<open>The source of a payload read to its end, and the result of the payload on it.\<close>

definition source_pending :: "payload \<Rightarrow> string" where
  "source_pending p = (case pyChunks p of None \<Rightarrow> bufData (pyBody p) | Some c \<Rightarrow> pending c)"

definition source_open :: "payload \<Rightarrow> bool" where
  "source_open p \<longleftrightarrow> pyErr p = None \<and> (\<forall>c. pyChunks p = Some c \<longrightarrow> ckErr c = None)"

definition source_decode :: "sig_env \<Rightarrow> payload \<Rightarrow> string \<times> read_error \<times> payload" where
  "source_decode env p =
     (case pyChunks p of
        Some c \<Rightarrow> (case decode env c of (bs, x, c1) \<Rightarrow> (bs, x, p\<lparr>pyChunks := Some c1\<rparr>))
      | None \<Rightarrow> (bufData (pyBody p), buf_end (pyBody p), p\<lparr>pyBody := (pyBody p)\<lparr>bufData := []\<rparr>\<rparr>))"

definition deliver :: "string \<Rightarrow> payload \<Rightarrow> payload" where
  "deliver b p = p\<lparr>pyN := pyN p + int (length b), pySum := map_option (\<lambda>s. s\<lparr>smData := smData s @ b\<rparr>) (pySum p)\<rparr>"

definition too_long :: "payload \<Rightarrow> string \<Rightarrow> bool" where
  "too_long p bs \<longleftrightarrow> pyLength p \<ge> 0 \<and> pyN p + int (length bs) > pyLength p"

definition payload_end :: "read_error \<Rightarrow> payload \<Rightarrow> read_error \<times> payload" where
  "payload_end x p = (case (if x = EOF then payload_finish p else (x, p)) of (y, q) \<Rightarrow> (y, q\<lparr>pyErr := Some y\<rparr>))"

lemma payload_Read_eq:
  assumes "pyErr p = None" "source_Read env len avail p = (b, e, p0)"
  shows "payload_Read env len avail p =
    (if too_long p0 b then ([], Some (Failed DecodedLength), p0\<lparr>pyN := pyN p0 + int (length b), pyErr := Some (Failed DecodedLength)\<rparr>)
     else case e of None \<Rightarrow> (b, None, deliver b p0) | Some x \<Rightarrow> (case payload_end x (deliver b p0) of (y, q) \<Rightarrow> (b, Some y, q)))"
  using assms
  by (auto simp: payload_Read_def too_long_def deliver_def payload_end_def Let_def split: option.splits read_error.splits prod.splits)

lemma source_Read_decode:
  assumes "source_Read env len avail p = (b, e, p0)" "0 < len" "source_open p"
  shows "case e of
      Some x \<Rightarrow> b = [] \<and> source_decode env p = ([], x, p0)
    | None \<Rightarrow> b \<noteq> [] \<and> source_open p0 \<and> length (source_pending p0) < length (source_pending p) \<and>
        source_decode env p = (case source_decode env p0 of (bs, r) \<Rightarrow> (b @ bs, r))"
proof (cases "pyChunks p")
  case None
  define n where "n = min len (max 1 avail)"
  have n: "0 < n" using assms(2) by (simp add: n_def)
  show ?thesis
  proof (cases "bufData (pyBody p) = []")
    case True
    then have "p\<lparr>pyBody := (pyBody p)\<lparr>bufData := []\<rparr>\<rparr> = p" by (cases p, cases "pyBody p") simp
    moreover have "b = []" "e = Some (buf_end (pyBody p))" "p0 = p"
      using True assms(1,2) None by (auto simp: source_Read_def body_Read_def Let_def)
    ultimately show ?thesis using None True by (simp add: source_decode_def)
  next
    case False
    let ?q = "p\<lparr>pyBody := (pyBody p)\<lparr>bufData := drop n (bufData (pyBody p))\<rparr>\<rparr>"
    have r: "b = take n (bufData (pyBody p))" "e = None" "p0 = ?q"
      using assms(1,2) None False unfolding source_Read_def body_Read_def Let_def n_def [symmetric]
      by (auto simp: min_def)
    then show ?thesis
      using None False n assms(3) by (simp add: source_decode_def source_open_def source_pending_def buf_end_def)
  qed
next
  case (Some c)
  obtain c1 where c1: "chunk_Read env len avail c = (b, e, c1)" "p0 = p\<lparr>pyChunks := Some c1\<rparr>"
    using assms(1) Some by (auto simp: source_Read_def split: prod.splits)
  have "ckErr c = None" using assms(3) Some by (simp add: source_open_def)
  from chunk_Read_decode [OF c1(1) assms(2) this] show ?thesis
    using Some c1(2) assms(3) by (cases e) (auto simp: source_decode_def source_open_def source_pending_def split: prod.splits)
qed

lemma source_Read_frame:
  "source_Read env len avail p = (b, e, p0) \<Longrightarrow>
   pyLength p0 = pyLength p \<and> pyN p0 = pyN p \<and> pySum p0 = pySum p \<and> pyErr p0 = pyErr p"
  by (auto simp: source_Read_def split: option.splits prod.splits)

lemma deliver_source [simp]:
  "source_decode env (deliver b p) = (case source_decode env p of (bs, x, q) \<Rightarrow> (bs, x, deliver b q))"
  "source_pending (deliver b p) = source_pending p" "source_open (deliver b p) = source_open p"
  "deliver c (deliver b p) = deliver (b @ c) p" "pyErr (deliver b p) = pyErr p"
  "too_long (deliver b p) bs = too_long p (b @ bs)" "deliver [] p = p"
  by (auto simp: source_decode_def source_pending_def source_open_def deliver_def too_long_def option.map_comp comp_def option.map_ident
      split: option.splits prod.splits)

lemma read_all_decode:
  assumes "\<forall>i. 0 < fst (sched i)" "source_open p" "length (source_pending p) < fuel" "source_decode env p = (bs, x, q)"
  shows "\<exists>bs' y p'. read_all env sched fuel p = Some (bs', y, p') \<and>
    (if too_long p bs then y = Failed DecodedLength else bs' = bs \<and> payload_end x (deliver bs q) = (y, p'))"
  using assms(2-)
proof (induction fuel arbitrary: p bs x q)
  case (Suc k)
  obtain b e p0 where r: "source_Read env (fst (sched k)) (snd (sched k)) p = (b, e, p0)" by (metis prod_cases3)
  note f = source_Read_frame [OF r]
  have o: "pyErr p = None" using Suc.prems(1) by (simp add: source_open_def)
  note rd = payload_Read_eq [OF o r]
  have pos: "0 < fst (sched k)" using assms(1) by simp
  note d = source_Read_decode [OF r pos Suc.prems(1)]
  have tl: "too_long p0 = too_long p" using f by (auto simp: too_long_def)
  show ?case
  proof (cases e)
    case (Some z)
    then have z: "b = []" "bs = []" "x = z" "q = p0" using d Suc.prems(3) by auto
    obtain y p' where y: "payload_end z p0 = (y, p')" by fastforce
    show ?thesis using rd z Some tl y by (auto split: prod.splits)
  next
    case None
    then have n: "b \<noteq> []" "source_open p0" "length (source_pending p0) < k"
      "source_decode env p = (case source_decode env p0 of (bs, r) \<Rightarrow> (b @ bs, r))" using d Suc.prems(2) by auto
    obtain bs0 q0 where q0: "source_decode env p0 = (bs0, x, q0)" "bs = b @ bs0" "q = q0"
      using n(4) Suc.prems(3) by (auto split: prod.splits)
    show ?thesis
    proof (cases "too_long p b")
      case True
      then have "too_long p bs" using q0(2) by (simp add: too_long_def)
      then show ?thesis using True rd tl by simp
    next
      case False
      have "source_decode env (deliver b p0) = (bs0, x, deliver b q0)" using q0(1) by simp
      from Suc.IH [OF _ _ this] n(2,3)
      obtain bs' y p' where ih: "read_all env sched k (deliver b p0) = Some (bs', y, p')"
        "if too_long p0 (b @ bs0) then y = Failed DecodedLength else bs' = bs0 \<and> payload_end x (deliver (b @ bs0) q0) = (y, p')"
        by (auto split: if_splits)
      then show ?thesis using False rd None tl q0(2,3) by auto
    qed
  qed
qed simp

section \<open>Frames and their signatures\<close>

text \<open>The line that opens a chunk of \<open>n\<close> bytes; \<open>g\<close> is the signature it presents.\<close>

definition chunk_line :: "bool \<Rightarrow> string \<Rightarrow> nat \<Rightarrow> string \<Rightarrow> bool" where
  "chunk_line with_signatures line n g \<longleftrightarrow>
     (\<exists>u. line = u @ [LF] \<and> LF \<notin> set u) \<and> length line \<le> chunkLineLimit \<and>
     (case Cut_or_all (TrimSuffix (TrimSuffix line [LF]) [CR]) CHR '';'' of (digits, ext) \<Rightarrow>
        parse_size digits = Some n \<and>
        (with_signatures \<longrightarrow> Cut_or_all ext CHR ''='' = (''chunk-signature'', g) \<and> isHexSHA256 g))"

type_synonym frame = "string \<times> string \<times> string"

definition frame_ok :: "bool \<Rightarrow> frame \<Rightarrow> bool" where
  "frame_ok with_signatures f \<longleftrightarrow> (case f of (line, d, g) \<Rightarrow> chunk_line with_signatures line (length d) g \<and> d \<noteq> [])"

definition frames :: "frame list \<Rightarrow> string" where
  "frames fs = concat (map (\<lambda>(line, d, g). line @ d @ [CR, LF]) fs)"

definition frame_data :: "frame list \<Rightarrow> string" where
  "frame_data fs = concat (map (\<lambda>(line, d, g). d) fs)"

definition chunk_sig :: "sig_env \<Rightarrow> chunkSigner \<Rightarrow> string \<Rightarrow> string" where
  "chunk_sig env s d = hex_lower (seHmac env (sgKey s)
     (string_to_sign s ''AWS4-HMAC-SHA256-PAYLOAD'' (emptySHA256 @ [LF] @ seSha env d)))"

definition trailer_sig :: "sig_env \<Rightarrow> chunkSigner \<Rightarrow> string \<Rightarrow> string" where
  "trailer_sig env s canonical = hex_lower (seHmac env (sgKey s) (string_to_sign s ''AWS4-HMAC-SHA256-TRAILER'' (seSha env canonical)))"

definition follow :: "string \<Rightarrow> chunkSigner \<Rightarrow> chunkSigner" where
  "follow g s = s\<lparr>sgPrev := g, sgHash := []\<rparr>"

fun chain :: "sig_env \<Rightarrow> chunkSigner \<Rightarrow> frame list \<Rightarrow> bool" where
  "chain env s [] = True"
| "chain env s ((line, d, g) # fs) = (g = chunk_sig env s d \<and> chain env (follow g s) fs)"

fun chain_end :: "chunkSigner \<Rightarrow> frame list \<Rightarrow> chunkSigner" where
  "chain_end s [] = s"
| "chain_end s ((line, d, g) # fs) = chain_end (follow g s) fs"

definition boundary :: "chunkReader \<Rightarrow> bool" where
  "boundary c \<longleftrightarrow> \<not> ckOpen c \<and> ckLeft c = 0 \<and> ckErr c = None \<and> (\<forall>s. ckSigner c = Some s \<longrightarrow> ckSigned c \<and> sgHash s = [])"

definition same_mode :: "chunkReader \<Rightarrow> chunkReader \<Rightarrow> bool" where
  "same_mode c c' \<longleftrightarrow> ckSigned c' = ckSigned c \<and> ckTrailing c' = ckTrailing c \<and> ckDeclared c' = ckDeclared c \<and> ckEmptyOK c' = ckEmptyOK c \<and>
     bufFail (ckSrc c') = bufFail (ckSrc c)"

lemma ReadSlice_iff:
  "ReadSlice b = (line, SliceLine, b') \<longleftrightarrow>
   (\<exists>u. line = u @ [LF] \<and> LF \<notin> set u) \<and> length line \<le> chunkLineLimit \<and> bufData b = line @ bufData b' \<and> b' = b\<lparr>bufData := bufData b'\<rparr>"
proof
  assume a: "ReadSlice b = (line, SliceLine, b')"
  have "b' = b\<lparr>bufData := bufData b'\<rparr>" using a by (auto simp: ReadSlice_def Let_def split: if_splits)
  with ReadSlice_line [OF a] show "(\<exists>u. line = u @ [LF] \<and> LF \<notin> set u) \<and> length line \<le> chunkLineLimit \<and> bufData b = line @ bufData b' \<and>
      b' = b\<lparr>bufData := bufData b'\<rparr>" by blast
next
  assume a: "(\<exists>u. line = u @ [LF] \<and> LF \<notin> set u) \<and> length line \<le> chunkLineLimit \<and> bufData b = line @ bufData b' \<and> b' = b\<lparr>bufData := bufData b'\<rparr>"
  then obtain u where u: "line = u @ [LF]" "LF \<notin> set u" by blast
  then have "takeWhile (\<lambda>c. c \<noteq> LF) (u @ LF # bufData b') = u" by (induction u arbitrary: line) auto
  then show "ReadSlice b = (line, SliceLine, b')" using a u(1) by (auto simp: ReadSlice_def Let_def)
qed

lemma check_chunk_ok:
  "check_chunk env c = (True, c1) \<longleftrightarrow>
   (\<forall>s. ckSigner c = Some s \<longrightarrow> ckSig c = chunk_sig env s (sgHash s)) \<and> c1 = c\<lparr>ckSigner := map_option (follow (ckSig c)) (ckSigner c)\<rparr>"
  by (cases "ckSigner c") (auto simp: check_chunk_def verifyChunk_def sg_verify_def chunk_sig_def follow_def Let_def)

lemma close_chunk_ok:
  "close_chunk env c = (None, c1) \<longleftrightarrow>
   (\<exists>rest. pending c = [CR, LF] @ rest \<and> (\<forall>s. ckSigner c = Some s \<longrightarrow> ckSig c = chunk_sig env s (sgHash s)) \<and>
      c1 = c\<lparr>ckSrc := (ckSrc c)\<lparr>bufData := rest\<rparr>, ckOpen := False, ckSigner := map_option (follow (ckSig c)) (ckSigner c)\<rparr>)"
proof -
  let ?c = "c\<lparr>ckSrc := (ckSrc c)\<lparr>bufData := drop 2 (pending c)\<rparr>\<rparr>"
  have t: "take 2 (pending c) = [CR, LF] \<longleftrightarrow> pending c = [CR, LF] @ drop 2 (pending c)"
    by (metis append_take_drop_id append_eq_conv_conj length_Cons list.size(3) numeral_2_eq_2)
  have "close_chunk env c = (None, c1) \<longleftrightarrow>
      take 2 (pending c) = [CR, LF] \<and> (\<exists>c2. check_chunk env ?c = (True, c2) \<and> c1 = c2\<lparr>ckOpen := False\<rparr>)"
    by (auto simp: close_chunk_def Let_def split: prod.splits bool.splits)
  also have "\<dots> \<longleftrightarrow> (\<exists>rest. pending c = [CR, LF] @ rest \<and> (\<forall>s. ckSigner c = Some s \<longrightarrow> ckSig c = chunk_sig env s (sgHash s)) \<and>
      c1 = c\<lparr>ckSrc := (ckSrc c)\<lparr>bufData := rest\<rparr>, ckOpen := False, ckSigner := map_option (follow (ckSig c)) (ckSigner c)\<rparr>)"
    unfolding check_chunk_ok t by auto
  finally show ?thesis .
qed

definition opened :: "chunkReader \<Rightarrow> string \<Rightarrow> string \<Rightarrow> chunkReader" where
  "opened c g rest = c\<lparr>ckSrc := (ckSrc c)\<lparr>bufData := rest\<rparr>, ckStarted := True, ckSig := (if ckSigned c then g else ckSig c)\<rparr>"

lemma open_chunk_line:
  assumes "chunk_line (ckSigned c) line n g" "pending c = line @ rest"
  shows "open_chunk env c =
    (if n = 0 then
       (case check_chunk env (opened c g rest) of
          (False, c4) \<Rightarrow> (Some (Failed ChunkSignature), c4)
        | (True, c4) \<Rightarrow> (case readTrailers env c4 of (x, c5) \<Rightarrow> (Some x, c5)))
     else (None, (opened c g rest)\<lparr>ckLeft := n, ckOpen := True\<rparr>))"
proof -
  have "ReadSlice (ckSrc c) = (line, SliceLine, (ckSrc c)\<lparr>bufData := rest\<rparr>)"
    using assms by (simp add: ReadSlice_iff chunk_line_def)
  then show ?thesis
    using assms(1) by (auto simp: open_chunk_def chunk_line_def opened_def Let_def split: prod.splits)
qed

lemma open_chunk_cases:
  assumes "open_chunk env c = (r, c1)" "r = None \<or> r = Some EOF"
  obtains (empty) "r = Some EOF" "\<not> ckStarted c" "pending c = []" "bufFail (ckSrc c) = None" "ckEmptyOK c" "c1 = c\<lparr>ckTrailers := []\<rparr>"
  | (line) line n g rest where "chunk_line (ckSigned c) line n g" "pending c = line @ rest"
proof (cases "ReadSlice (ckSrc c)")
  case (fields line outcome src)
  show ?thesis
  proof (cases outcome)
    case SliceLine
    obtain digits ext where d: "Cut_or_all (TrimSuffix (TrimSuffix line [LF]) [CR]) CHR '';'' = (digits, ext)" by fastforce
    obtain nm sig where x: "Cut_or_all ext CHR ''='' = (nm, sig)" by fastforce
    have "\<exists>n. parse_size digits = Some n \<and> (ckSigned c \<longrightarrow> nm = ''chunk-signature'' \<and> isHexSHA256 sig)"
      using assms fields SliceLine d x by (auto simp: open_chunk_def Let_def split: option.splits if_splits)
    then obtain n where "chunk_line (ckSigned c) line n sig"
      using fields SliceLine d x by (auto simp: chunk_line_def ReadSlice_iff)
    then show ?thesis using line [of line n sig "bufData src"] fields SliceLine by (simp add: ReadSlice_iff)
  next
    case (SliceEnd e)
    then have "src = (ckSrc c)\<lparr>bufData := []\<rparr>" "line = pending c" "e = buf_end (ckSrc c)"
      using fields by (auto simp: ReadSlice_def Let_def split: if_splits)
    moreover have "(ckSrc c)\<lparr>bufData := []\<rparr> = ckSrc c" if "pending c = []" using that by (cases "ckSrc c") simp
    ultimately show ?thesis
      using empty assms fields SliceEnd
      by (auto simp: open_chunk_def Let_def truncation_def buf_end_def split: if_splits read_error.splits option.splits)
  qed (use assms fields in \<open>auto simp: open_chunk_def Let_def\<close>)
qed

lemma decode_close:
  assumes "ckLeft c = 0" "ckOpen c"
  shows "decode env c = (case close_chunk env c of (Some x, c1) \<Rightarrow> ([], x, c1\<lparr>ckErr := Some x\<rparr>) | (None, c1) \<Rightarrow> decode env c1)"
proof (cases "close_chunk env c")
  case (Pair r c1)
  show ?thesis
  proof (cases r)
    case None
    then have "ckLeft c1 = 0" "\<not> ckOpen c1" using close_chunk_pending [of env c c1] Pair assms by auto
    then show ?thesis using Pair None assms by (subst (1 2) decode.simps) (simp add: next_chunk_def)
  next
    case (Some x)
    then show ?thesis using Pair assms by (subst decode.simps) (simp add: next_chunk_def)
  qed
qed

text \<open>The reader after the data of a chunk, before its closing line break.\<close>

definition read_chunk :: "chunkReader \<Rightarrow> string \<Rightarrow> string \<Rightarrow> string \<Rightarrow> chunkReader" where
  "read_chunk c g d rest = (opened c g rest)\<lparr>ckLeft := 0, ckOpen := True, ckSigner := map_option (\<lambda>s. s\<lparr>sgHash := d\<rparr>) (ckSigner c)\<rparr>"

lemma decode_line:
  assumes "boundary c" "chunk_line (ckSigned c) line (length d) g" "pending c = line @ d @ rest" "d \<noteq> []"
  shows "decode env c = (case decode env (read_chunk c g d rest) of (bs, r) \<Rightarrow> (d @ bs, r))"
proof -
  let ?c = "(opened c g (d @ rest))\<lparr>ckLeft := length d, ckOpen := True\<rparr>"
  have o: "open_chunk env c = (None, ?c)" using open_chunk_line [OF assms(2,3)] assms(4) by simp
  have h: "map_option (\<lambda>s. s\<lparr>sgHash := sgHash s @ d\<rparr>) (ckSigner c) = map_option (\<lambda>s. s\<lparr>sgHash := d\<rparr>) (ckSigner c)"
    using assms(1) by (cases "ckSigner c") (auto simp: boundary_def)
  have "decode env c = decode env ?c" using o assms(1) by (subst decode.simps) (simp add: next_chunk_def boundary_def)
  also have "\<dots> = (case decode env (consume (length d) ?c) of (bs, r) \<Rightarrow> (d @ bs, r))"
    using assms(4) by (subst decode.simps) (simp add: opened_def)
  also have "consume (length d) ?c = read_chunk c g d rest" by (simp add: consume_def read_chunk_def opened_def h)
  finally show ?thesis .
qed

lemma decode_short:
  assumes "boundary c" "chunk_line (ckSigned c) line n g" "pending c = line @ rest" "length rest < n"
  shows "fst (snd (decode env c)) \<noteq> EOF"
proof -
  let ?c = "(opened c g rest)\<lparr>ckLeft := n, ckOpen := True\<rparr>"
  have o: "open_chunk env c = (None, ?c)" using open_chunk_line [OF assms(2,3)] assms(4) by simp
  have "decode env c = decode env ?c" using o assms(1) by (subst decode.simps) (simp add: next_chunk_def boundary_def)
  also have "fst (snd (decode env ?c)) = truncation (buf_end (ckSrc ?c))" using assms(4) by (subst decode.simps) (simp add: opened_def Let_def)
  finally show ?thesis by (auto simp: truncation_def split: read_error.splits)
qed

definition next_boundary :: "chunkReader \<Rightarrow> string \<Rightarrow> string \<Rightarrow> chunkReader" where
  "next_boundary c g rest = (opened c g rest)\<lparr>ckSigner := map_option (follow g) (ckSigner c)\<rparr>"

lemma next_boundary_ok:
  "boundary c \<Longrightarrow> boundary (next_boundary c g rest)" "same_mode c (next_boundary c g rest)" "pending (next_boundary c g rest) = rest"
  "ckSigner (next_boundary c g rest) = map_option (follow g) (ckSigner c)" "ckStarted (next_boundary c g rest)"
  "ckSigned (next_boundary c g rest) = ckSigned c" "ckTrailers (next_boundary c g rest) = ckTrailers c"
  by (auto simp: boundary_def same_mode_def next_boundary_def opened_def follow_def)

lemma close_read_chunk:
  assumes "boundary c"
  shows "close_chunk env (read_chunk c g d rest0) = (None, c1) \<longleftrightarrow>
    (\<exists>rest. rest0 = [CR, LF] @ rest \<and> (\<forall>s. ckSigner c = Some s \<longrightarrow> g = chunk_sig env s d) \<and> c1 = next_boundary c g rest)"
proof -
  have s: "chunk_sig env (s\<lparr>sgHash := x\<rparr>) y = chunk_sig env s y" for s x y by (simp add: chunk_sig_def string_to_sign_def)
  show ?thesis
    using assms unfolding close_chunk_ok
    by (cases c; cases "ckSigner c") (auto simp: read_chunk_def opened_def next_boundary_def boundary_def follow_def s)
qed

lemma decode_frame:
  assumes "boundary c" "frame_ok (ckSigned c) (line, d, g)" "pending c = line @ d @ [CR, LF] @ rest"
    "\<forall>s. ckSigner c = Some s \<longrightarrow> g = chunk_sig env s d"
  shows "decode env c = (case decode env (next_boundary c g rest) of (bs, r) \<Rightarrow> (d @ bs, r))"
proof -
  have "close_chunk env (read_chunk c g d ([CR, LF] @ rest)) = (None, next_boundary c g rest)"
    using close_read_chunk [OF assms(1)] assms(4) by blast
  moreover have "ckLeft (read_chunk c g d ([CR, LF] @ rest)) = 0" "ckOpen (read_chunk c g d ([CR, LF] @ rest))"
    by (simp_all add: read_chunk_def)
  ultimately show ?thesis
    using decode_line [OF assms(1) _ assms(3), of g env] assms(2) decode_close by (auto simp: frame_ok_def)
qed

lemma decode_frame_sound:
  assumes "boundary c" "decode env c = (bs, EOF, c')" "chunk_line (ckSigned c) line n g" "pending c = line @ rest0" "0 < n"
  obtains d rest bs0 where "frame_ok (ckSigned c) (line, d, g)" "rest0 = d @ [CR, LF] @ rest" "bs = d @ bs0"
    "\<forall>s. ckSigner c = Some s \<longrightarrow> g = chunk_sig env s d" "decode env (next_boundary c g rest) = (bs0, EOF, c')"
proof -
  have "n \<le> length rest0" using decode_short [OF assms(1,3,4)] assms(2) by (metis fst_conv snd_conv not_le)
  then obtain d rest1 where d: "rest0 = d @ rest1" "length d = n" by (metis append_take_drop_id length_take min.absorb2)
  have l: "chunk_line (ckSigned c) line (length d) g" "pending c = line @ d @ rest1" "d \<noteq> []" using assms d by auto
  let ?c = "read_chunk c g d rest1"
  have opn: "ckLeft ?c = 0" "ckOpen ?c" by (simp_all add: read_chunk_def)
  obtain bs0 where b: "decode env ?c = (bs0, EOF, c')" "bs = d @ bs0"
    using decode_line [OF assms(1) l, of env] assms(2) by (auto split: prod.splits)
  obtain c1 where c1: "close_chunk env ?c = (None, c1)" "decode env c1 = (bs0, EOF, c')"
  proof (cases "close_chunk env ?c")
    case (Pair r c2)
    show ?thesis
    proof (cases r)
      case (Some x)
      then have "x = EOF" using b(1) Pair decode_close [OF opn, of env] by simp
      then show ?thesis
        using Pair Some by (auto simp: close_chunk_def truncation_def Let_def split: if_splits prod.splits bool.splits read_error.splits)
    qed (use that b(1) Pair decode_close [OF opn, of env] in simp)
  qed
  then show ?thesis using that [of d] close_read_chunk [OF assms(1)] b(2) d l by (auto simp: frame_ok_def)
qed

lemma decode_last:
  assumes "boundary c" "chunk_line (ckSigned c) line 0 g" "pending c = line @ rest"
  shows "decode env c = (bs, EOF, c') \<longleftrightarrow> bs = [] \<and> (\<forall>s. ckSigner c = Some s \<longrightarrow> g = chunk_sig env s []) \<and>
     (\<exists>c1. readTrailers env (next_boundary c g rest) = (EOF, c1) \<and> c' = c1\<lparr>ckErr := Some EOF\<rparr>)"
proof -
  have k: "check_chunk env (opened c g rest) = (True, c1) \<longleftrightarrow> (\<forall>s. ckSigner c = Some s \<longrightarrow> g = chunk_sig env s []) \<and> c1 = next_boundary c g rest" for c1
    using assms(1) unfolding check_chunk_ok
    by (cases "ckSigner c") (auto simp: opened_def next_boundary_def boundary_def)
  have "decode env c = (case open_chunk env c of (Some x, c1) \<Rightarrow> ([], x, c1\<lparr>ckErr := Some x\<rparr>) | (None, c1) \<Rightarrow> decode env c1)"
    using assms(1) by (subst decode.simps) (simp add: next_chunk_def boundary_def)
  note d = this open_chunk_line [OF assms(2,3), of env]
  show ?thesis
  proof (cases "\<forall>s. ckSigner c = Some s \<longrightarrow> g = chunk_sig env s []")
    case True
    then have "check_chunk env (opened c g rest) = (True, next_boundary c g rest)" using k by blast
    then show ?thesis using d True by (auto split: prod.splits)
  next
    case False
    then obtain c1 where "check_chunk env (opened c g rest) = (False, c1)" using k by (metis (full_types) surj_pair)
    then show ?thesis using d False by auto
  qed
qed

definition last_reader :: "chunkReader \<Rightarrow> frame list \<Rightarrow> string \<Rightarrow> chunkReader \<Rightarrow> bool" where
  "last_reader c fs tail c4 \<longleftrightarrow> boundary c4 \<and> same_mode c c4 \<and> pending c4 = tail \<and> ckSigner c4 = map_option (\<lambda>s. chain_end s fs) (ckSigner c)"

lemma last_reader_Cons:
  "last_reader (next_boundary c g rest) fs tail c4 \<Longrightarrow> last_reader c ((line, d, g) # fs) tail c4"
  using next_boundary_ok(2,4) [of c g rest] by (auto simp: last_reader_def same_mode_def option.map_comp comp_def)

text \<open>The end is reported exactly for a body framed and signed as a whole.\<close>

lemma decode_sound:
  assumes "boundary c" "decode env c = (bs, EOF, c')" "ckStarted c \<or> \<not> ckEmptyOK c \<or> pending c \<noteq> []"
  shows "\<exists>fs line g tail c4 c5. pending c = frames fs @ line @ tail \<and> list_all (frame_ok (ckSigned c)) fs \<and>
    chunk_line (ckSigned c) line 0 g \<and> bs = frame_data fs \<and>
    (\<forall>s. ckSigner c = Some s \<longrightarrow> chain env s (fs @ [(line, [], g)])) \<and>
    last_reader c (fs @ [(line, [], g)]) tail c4 \<and> readTrailers env c4 = (EOF, c5) \<and> c' = c5\<lparr>ckErr := Some EOF\<rparr>"
  using assms
proof (induction "length (pending c)" arbitrary: c bs rule: less_induct)
  case less
  have o: "\<exists>r c1. open_chunk env c = (r, c1) \<and> (r = None \<or> r = Some EOF)"
    using less.prems(1,2) by (subst (asm) decode.simps) (auto simp: next_chunk_def boundary_def split: prod.splits option.splits)
  then obtain line n g rest where l: "chunk_line (ckSigned c) line n g" "pending c = line @ rest"
    using open_chunk_cases [of env c] less.prems(3) by metis
  show ?case
  proof (cases "n = 0")
    case True
    have l0: "chunk_line (ckSigned c) line 0 g" using l(1) True by simp
    from decode_last [OF less.prems(1) l0 l(2), of env bs c'] less.prems(2)
    obtain c5 where c5: "bs = []" "\<forall>s. ckSigner c = Some s \<longrightarrow> g = chunk_sig env s []"
      "readTrailers env (next_boundary c g rest) = (EOF, c5)" "c' = c5\<lparr>ckErr := Some EOF\<rparr>" by blast
    have "last_reader c [(line, [], g)] rest (next_boundary c g rest)"
      using next_boundary_ok [of c g rest] less.prems(1) by (simp add: last_reader_def comp_def)
    then show ?thesis using c5 l0 l(2) by (intro exI [of _ "[]"] exI [of _ line] exI [of _ g] exI [of _ rest]) (auto simp: frames_def frame_data_def)
  next
    case False
    then have n: "0 < n" by simp
    obtain d rest1 bs0 where f: "frame_ok (ckSigned c) (line, d, g)" "rest = d @ [CR, LF] @ rest1" "bs = d @ bs0"
      "\<forall>s. ckSigner c = Some s \<longrightarrow> g = chunk_sig env s d" "decode env (next_boundary c g rest1) = (bs0, EOF, c')"
      by (rule decode_frame_sound [OF less.prems(1,2) l n])
    let ?c = "next_boundary c g rest1"
    note b = next_boundary_ok [of c g rest1]
    have lt: "length (pending ?c) < length (pending c)" using l(2) f(2) b(3) by simp
    obtain fs line' g' tail c4 c5 where ih: "rest1 = frames fs @ line' @ tail" "list_all (frame_ok (ckSigned c)) fs"
      "chunk_line (ckSigned c) line' 0 g'" "bs0 = frame_data fs"
      "\<forall>s. ckSigner ?c = Some s \<longrightarrow> chain env s (fs @ [(line', [], g')])"
      "last_reader ?c (fs @ [(line', [], g')]) tail c4" "readTrailers env c4 = (EOF, c5)" "c' = c5\<lparr>ckErr := Some EOF\<rparr>"
      using less.hyps [OF lt b(1) [OF less.prems(1)] f(5)] b(3,5,6) by auto
    have "last_reader c (((line, d, g) # fs) @ [(line', [], g')]) tail c4" using last_reader_Cons [OF ih(6)] by simp
    moreover have "\<forall>s. ckSigner c = Some s \<longrightarrow> chain env s (((line, d, g) # fs) @ [(line', [], g')])"
      using ih(5) b(4) f(4) by simp
    moreover have "pending c = frames ((line, d, g) # fs) @ line' @ tail" using l(2) f(2) ih(1) by (simp add: frames_def)
    moreover have "bs = frame_data ((line, d, g) # fs)" using f(3) ih(4) by (simp add: frame_data_def)
    moreover have "list_all (frame_ok (ckSigned c)) ((line, d, g) # fs)" using f(1) ih(2) by simp
    ultimately show ?thesis using ih(3,7,8) by blast
  qed
qed

lemma decode_complete:
  assumes "boundary c" "pending c = frames fs @ line @ tail" "list_all (frame_ok (ckSigned c)) fs" "chunk_line (ckSigned c) line 0 g"
    "\<forall>s. ckSigner c = Some s \<longrightarrow> chain env s (fs @ [(line, [], g)])"
  shows "\<exists>c4. last_reader c (fs @ [(line, [], g)]) tail c4 \<and>
    (\<forall>c5. readTrailers env c4 = (EOF, c5) \<longrightarrow> decode env c = (frame_data fs, EOF, c5\<lparr>ckErr := Some EOF\<rparr>))"
  using assms
proof (induction fs arbitrary: c)
  case Nil
  have p: "pending c = line @ tail" using Nil.prems(2) by (simp add: frames_def)
  have "last_reader c [(line, [], g)] tail (next_boundary c g tail)"
    using next_boundary_ok [of c g tail] Nil.prems(1) by (simp add: last_reader_def comp_def)
  then show ?case using decode_last [OF Nil.prems(1,4) p] Nil.prems(5) by (auto simp: frame_data_def)
next
  case (Cons f fs)
  obtain l d h where f: "f = (l, d, h)" by (metis prod_cases3)
  let ?rest = "frames fs @ line @ tail"
  note b = next_boundary_ok [of c h ?rest]
  have p: "pending c = l @ d @ [CR, LF] @ ?rest" using Cons.prems(2) f by (simp add: frames_def)
  have g: "\<forall>s. ckSigner c = Some s \<longrightarrow> h = chunk_sig env s d" using Cons.prems(5) f by simp
  have d: "decode env c = (case decode env (next_boundary c h ?rest) of (bs, r) \<Rightarrow> (d @ bs, r))"
    using decode_frame [OF Cons.prems(1) _ p g] Cons.prems(3) f by simp
  have "\<exists>c4. last_reader (next_boundary c h ?rest) (fs @ [(line, [], g)]) tail c4 \<and>
      (\<forall>c5. readTrailers env c4 = (EOF, c5) \<longrightarrow> decode env (next_boundary c h ?rest) = (frame_data fs, EOF, c5\<lparr>ckErr := Some EOF\<rparr>))"
    using Cons.IH [OF b(1) [OF Cons.prems(1)] b(3)] Cons.prems(3,4,5) b(4,6) f by auto
  then show ?case using d last_reader_Cons [of c h ?rest "fs @ [(line, [], g)]" tail _ l d] f by (fastforce simp: frame_data_def)
qed

section \<open>Trailers\<close>

definition canonical_trailers :: "(string \<times> string) list \<Rightarrow> string" where
  "canonical_trailers ts = concat (map (\<lambda>(n, v). n @ '':'' @ v @ [LF]) ts)"

definition trailer_field :: "sig_env \<Rightarrow> string \<Rightarrow> string \<Rightarrow> string \<Rightarrow> bool" where
  "trailer_field env line name value \<longleftrightarrow>
     (\<exists>n0 v0. Cut (TrimSpace line) CHR '':'' = Some (n0, v0) \<and> name = seLower env (TrimSpace n0) \<and> value = TrimSpace v0)"

abbreviation (input) signature_field :: string where
  "signature_field \<equiv> ''x-amz-trailer-signature''"

lemma ReadSlice_split:
  "ReadSlice b = (line, outcome, b') \<Longrightarrow> bufData b = line @ bufData b' \<and> b' = b\<lparr>bufData := bufData b'\<rparr> \<and> bufFail b' = bufFail b"
  by (auto simp: ReadSlice_def Let_def split: if_splits)

lemma check_trailer_ok:
  "check_trailer env c canonical v = (True, c1) \<longleftrightarrow>
   (\<forall>s. ckSigner c = Some s \<longrightarrow> v = trailer_sig env s canonical) \<and> c1 = c\<lparr>ckSigner := map_option (follow v) (ckSigner c)\<rparr>"
  by (cases "ckSigner c") (auto simp: check_trailer_def verifyTrailer_def sg_verify_def trailer_sig_def follow_def Let_def)

lemma trailer_line_cases:
  assumes "trailer_line env line (canonical, ver, c) = (None, canonical', ver', c')"
  obtains (blank) "canonical' = canonical" "ver' = ver" "c' = c"
  | (signature) v where "\<not> ver" "ver'" "canonical' = canonical" "trailer_field env line signature_field v"
      "\<forall>s. ckSigner c = Some s \<longrightarrow> v = trailer_sig env s canonical" "c' = c\<lparr>ckSigner := map_option (follow v) (ckSigner c)\<rparr>"
  | (field) v where "\<not> ver" "\<not> ver'" "trailer_field env line (ckDeclared c) v" "row_of fst (ckTrailers c) (ckDeclared c) = None"
      "canonical' = canonical @ ckDeclared c @ '':'' @ v @ [LF]" "c' = c\<lparr>ckTrailers := upsert fst (ckDeclared c, v) (ckTrailers c)\<rparr>"
proof (cases "TrimSpace line = []")
  case True
  then show ?thesis using assms blank by (simp add: trailer_line_def)
next
  case False
  then obtain n0 v0 where n: "Cut (TrimSpace line) CHR '':'' = Some (n0, v0)" "\<not> ver"
    using assms by (cases "Cut (TrimSpace line) CHR '':''") (auto simp: trailer_line_def Cut_or_all_def Let_def split: if_splits)
  have f: "trailer_field env line (seLower env (TrimSpace n0)) (TrimSpace v0)" using n by (simp add: trailer_field_def)
  show ?thesis
  proof (cases "seLower env (TrimSpace n0) = signature_field")
    case True
    have "check_trailer env c canonical (TrimSpace v0) = (True, c')" "ver'" "canonical' = canonical"
      using assms False n True by (auto simp: trailer_line_def Cut_or_all_def Let_def split: if_splits prod.splits bool.splits)
    then show ?thesis using signature [of "TrimSpace v0"] n(2) f True by (simp add: check_trailer_ok)
  next
    case no: False
    have "row_of fst (ckTrailers c) (ckDeclared c) = None"
      using assms False n no by (cases "row_of fst (ckTrailers c) (ckDeclared c)") (auto simp: trailer_line_def Cut_or_all_def Let_def split: if_splits)
    then show ?thesis
      using assms False n no field [of "TrimSpace v0"] f by (auto simp: trailer_line_def Cut_or_all_def Let_def split: if_splits)
  qed
qed

lemma trailer_line_errors: "trailer_line env line st = (Some x, st') \<Longrightarrow> x \<noteq> EOF"
  by (auto simp: trailer_line_def Let_def split: if_splits prod.splits bool.splits)

lemma trailer_line_frame:
  assumes "trailer_line env line (canonical, ver, c) = (x, canonical', ver', c')"
  shows "same_mode c c' \<and> ckSrc c' = ckSrc c"
  using assms
  by (auto simp: trailer_line_def check_trailer_def same_mode_def Let_def split: if_splits prod.splits bool.splits option.splits)

definition trailers_presented :: "sig_env \<Rightarrow> chunkReader \<Rightarrow> chunkReader \<Rightarrow> bool" where
  "trailers_presented env c c' \<longleftrightarrow>
     (\<forall>n v. (n, v) \<in> set (ckTrailers c') \<longrightarrow> (n, v) \<in> set (ckTrailers c) \<or>
        (n = ckDeclared c \<and> (\<exists>pre line post. pending c = pre @ line @ post \<and> trailer_field env line n v)))"

definition trailers_signed :: "sig_env \<Rightarrow> chunkReader \<Rightarrow> chunkReader \<Rightarrow> bool" where
  "trailers_signed env c c' \<longleftrightarrow>
     (\<exists>pre line post v. pending c = pre @ line @ post \<and> trailer_field env line signature_field v \<and>
        (\<forall>s. ckSigner c = Some s \<longrightarrow> v = trailer_sig env s (canonical_trailers (ckTrailers c'))))"

lemma trailer_step_sound:
  assumes "trailer_line env line (canonical, ver, c\<lparr>ckSrc := src\<rparr>) = (None, canonical', ver', c')"
    "ReadSlice (ckSrc c) = (line, outcome, src)" "canonical = canonical_trailers (ckTrailers c)"
  shows "canonical' = canonical_trailers (ckTrailers c')" "same_mode c c'" "pending c = line @ pending c'"
    "ver \<longrightarrow> ver' \<and> ckTrailers c' = ckTrailers c" "trailers_presented env c c'"
    "\<not> ver' \<longrightarrow> ckSigner c' = ckSigner c" "\<not> ver \<longrightarrow> ver' \<longrightarrow> trailers_signed env c c' \<and> ckTrailers c' = ckTrailers c"
proof -
  note sp = ReadSlice_split [OF assms(2)]
  have ln: "pending c = [] @ line @ bufData src" using sp by simp
  note fr = trailer_line_frame [OF assms(1)]
  show "same_mode c c'" using fr sp by (auto simp: same_mode_def)
  show "pending c = line @ pending c'" using fr sp by simp
  from assms(1) show "canonical' = canonical_trailers (ckTrailers c')" "ver \<longrightarrow> ver' \<and> ckTrailers c' = ckTrailers c" "trailers_presented env c c'"
    "\<not> ver' \<longrightarrow> ckSigner c' = ckSigner c" "\<not> ver \<longrightarrow> ver' \<longrightarrow> trailers_signed env c c' \<and> ckTrailers c' = ckTrailers c"
    using assms(3) ln
    by (cases rule: trailer_line_cases;
        auto simp: canonical_trailers_def upsert_fresh row_of_None trailers_presented_def trailers_signed_def; blast)+
qed

lemma trailers_presented_trans:
  assumes "trailers_presented env c c1" "trailers_presented env c1 c2" "same_mode c c1" "pending c = line @ pending c1"
  shows "trailers_presented env c c2"
  unfolding trailers_presented_def
proof (intro allI impI)
  fix n v assume "(n, v) \<in> set (ckTrailers c2)"
  then consider "(n, v) \<in> set (ckTrailers c1)"
    | pre l post where "n = ckDeclared c1" "pending c1 = pre @ l @ post" "trailer_field env l n v"
    using assms(2) unfolding trailers_presented_def by blast
  then show "(n, v) \<in> set (ckTrailers c) \<or> n = ckDeclared c \<and> (\<exists>pre line post. pending c = pre @ line @ post \<and> trailer_field env line n v)"
  proof cases
    case 1
    then show ?thesis using assms(1) unfolding trailers_presented_def by blast
  next
    case 2
    then have "pending c = (line @ pre) @ l @ post" "n = ckDeclared c" using assms(3,4) by (simp_all add: same_mode_def)
    then show ?thesis using 2(3) by blast
  qed
qed

lemma trailers_signed_later:
  assumes "trailers_signed env c1 c2" "pending c = line @ pending c1" "ckSigner c1 = ckSigner c"
  shows "trailers_signed env c c2"
proof -
  obtain pre l post v where t: "pending c1 = pre @ l @ post" "trailer_field env l signature_field v"
    "\<forall>s. ckSigner c1 = Some s \<longrightarrow> v = trailer_sig env s (canonical_trailers (ckTrailers c2))"
    using assms(1) unfolding trailers_signed_def by blast
  then have "pending c = (line @ pre) @ l @ post" using assms(2) by simp
  then show ?thesis using t(2,3) unfolding trailers_signed_def assms(3) by blast
qed

lemma trailer_loop_sound:
  assumes "trailer_loop env k (canonical, ver, c) = (EOF, c')" "canonical = canonical_trailers (ckTrailers c)"
  shows "bufFail (ckSrc c) = None \<and> trailers_presented env c c' \<and> (ver \<longrightarrow> ckTrailers c' = ckTrailers c) \<and>
    (ckSigned c \<and> ckTrailing c \<and> \<not> ver \<longrightarrow> trailers_signed env c c')"
  using assms
proof (induction k arbitrary: canonical ver c)
  case (Suc k)
  obtain line outcome src where rs: "ReadSlice (ckSrc c) = (line, outcome, src)" by (metis prod_cases3)
  obtain x canonical1 ver1 c1 where tl: "trailer_line env line (canonical, ver, c\<lparr>ckSrc := src\<rparr>) = (x, canonical1, ver1, c1)" by (metis prod_cases4)
  have x: "x = None" and out: "outcome = SliceLine \<and> trailer_loop env k (canonical1, ver1, c1) = (EOF, c') \<or>
      outcome = SliceEnd EOF \<and> c' = c1 \<and> \<not> (ckSigned c1 \<and> ckTrailing c1 \<and> \<not> ver1)"
    using Suc.prems(1) rs tl trailer_line_errors [of env line] by (auto simp: Let_def truncation_def split: slice_outcome.splits if_splits option.splits read_error.splits)
  note st = trailer_step_sound [OF tl [unfolded x] rs Suc.prems(2)]
  from out show ?case
  proof
    assume o: "outcome = SliceLine \<and> trailer_loop env k (canonical1, ver1, c1) = (EOF, c')"
    note ih = Suc.IH [OF conjunct2 [OF o] st(1)]
    have "trailers_presented env c c'" using trailers_presented_trans [OF st(5) _ st(2,3)] ih by blast
    moreover have "trailers_signed env c c'" if "ckSigned c" "ckTrailing c" "\<not> ver"
    proof (cases ver1)
      case True
      then have "trailers_signed env c c1" "ckTrailers c' = ckTrailers c1" using st(7) that ih by simp_all
      then show ?thesis by (simp add: trailers_signed_def)
    next
      case False
      then show ?thesis using trailers_signed_later [OF _ st(3)] st(2,6) that ih by (simp add: same_mode_def)
    qed
    ultimately show ?thesis using ih st(2,4) by (auto simp: same_mode_def)
  next
    assume o: "outcome = SliceEnd EOF \<and> c' = c1 \<and> \<not> (ckSigned c1 \<and> ckTrailing c1 \<and> \<not> ver1)"
    then have "bufFail (ckSrc c) = None" using rs by (auto simp: ReadSlice_def buf_end_def Let_def split: if_splits option.splits)
    then show ?thesis using o st by (auto simp: same_mode_def)
  qed
qed simp

end
