(* ===== verification/S3_Checksums.thy ===== *)
theory S3_Checksums
  imports S3_Streaming
begin

text \<open>
  The encodings and checksums of S3 bodies: base64 reads back what it writes, and the cyclic checksums
  notice every burst of altered bytes up to the width of their register.
\<close>

section \<open>Base64\<close>

definition printable :: "char \<Rightarrow> bool" where
  "printable c \<longleftrightarrow> 33 \<le> (of_char c :: nat) \<and> (of_char c :: nat) \<le> 126"

lemma b64_char_facts:
  assumes "n < 64"
  shows "b64_val (b64_char n) = Some n" "printable (b64_char n)" "b64_char n \<noteq> CHR ''=''" "b64_char n \<noteq> CHR '':''"
proof -
  consider "n < 26" | "26 \<le> n" "n < 52" | "52 \<le> n" "n < 62" | "n = 62" | "n = 63" using assms by linarith
  then have "b64_val (b64_char n) = Some n \<and> printable (b64_char n)"
    by cases (auto simp: b64_char_def b64_val_def printable_def of_char_of Let_def)
  then show v: "b64_val (b64_char n) = Some n" and "printable (b64_char n)" by simp_all
  have "b64_val (CHR ''='') = None" "b64_val (CHR '':'') = None" by (simp_all add: b64_val_def)
  then show "b64_char n \<noteq> CHR ''=''" "b64_char n \<noteq> CHR '':''" using v by auto
qed

lemma byte_parts:
  fixes a b c :: nat
  assumes "a < 256" "b < 256" "c < 256"
  shows "a div 4 < 64" "a mod 4 * 16 < 64" "a mod 4 * 16 + b div 16 < 64" "b mod 16 * 4 < 64" "b mod 16 * 4 + c div 64 < 64" "c mod 64 < 64"
    "a div 4 * 4 + a mod 4 * 16 div 16 = a" "a div 4 * 4 + (a mod 4 * 16 + b div 16) div 16 = a"
    "(a mod 4 * 16 + b div 16) mod 16 * 16 + b mod 16 * 4 div 4 = b"
    "(a mod 4 * 16 + b div 16) mod 16 * 16 + (b mod 16 * 4 + c div 64) div 4 = b"
    "(b mod 16 * 4 + c div 64) mod 4 * 64 + c mod 64 = c"
proof -
  have b: "b div 16 < 16" "c div 64 < 4" "a div 4 < 64" using assms by (intro less_mult_imp_div_less; simp)+
  have d: "(i * 16 + j) div 16 = i" "(i * 16 + j) mod 16 = j" if "j < 16" for i j :: nat using that by simp_all
  have e: "(i * 4 + j) div 4 = i" "(i * 4 + j) mod 4 = j" if "j < 4" for i j :: nat using that by simp_all
  have f: "i * 16 + j < 64" if "i < 4" "j < 16" for i j :: nat using that by simp
  have g: "i * 4 + j < 64" if "i < 16" "j < 4" for i j :: nat using that by simp
  show "a div 4 < 64" by (rule b)
  have m4: "a mod 4 < 4" and m16: "b mod 16 < 16" by (rule mod_less_divisor, simp)+
  have z: "i * 16 div 16 = i" "i * 4 div 4 = i" for i :: nat by simp_all
  show "a mod 4 * 16 < 64" using f [OF m4, of 0] by (simp only: add_0_right zero_less_numeral)
  show "a mod 4 * 16 + b div 16 < 64" by (rule f [OF m4 b(1)])
  show "b mod 16 * 4 < 64" using g [OF m16, of 0] by (simp only: add_0_right zero_less_numeral)
  show "b mod 16 * 4 + c div 64 < 64" by (rule g [OF m16 b(2)])
  show "c mod 64 < 64" by (rule mod_less_divisor) simp
  show "a div 4 * 4 + a mod 4 * 16 div 16 = a" by (simp only: z div_mult_mod_eq)
  show "a div 4 * 4 + (a mod 4 * 16 + b div 16) div 16 = a" by (simp only: d(1) [OF b(1)] div_mult_mod_eq)
  show "(a mod 4 * 16 + b div 16) mod 16 * 16 + b mod 16 * 4 div 4 = b" by (simp only: d(2) [OF b(1)] z div_mult_mod_eq)
  show "(a mod 4 * 16 + b div 16) mod 16 * 16 + (b mod 16 * 4 + c div 64) div 4 = b"
    by (simp only: d(2) [OF b(1)] e(1) [OF b(2)] div_mult_mod_eq)
  show "(b mod 16 * 4 + c div 64) mod 4 * 64 + c mod 64 = c" by (simp only: e(2) [OF b(2)] div_mult_mod_eq)
qed

lemmas char_parts = byte_parts [OF nat_of_char_less_256 nat_of_char_less_256 nat_of_char_less_256]

lemma char_divs:
  "(of_char x :: nat) div 16 div 16 = 0" "(of_char x :: nat) div 16 mod 16 = of_char x div 16"
  "(of_char x :: nat) div 64 div 4 = 0" "(of_char x :: nat) div 64 mod 4 = of_char x div 64"
proof -
  have "(of_char x :: nat) div 16 < 16" "(of_char x :: nat) div 64 < 4"
    using nat_of_char_less_256 [of x] by (intro less_mult_imp_div_less; simp)+
  then show "(of_char x :: nat) div 16 div 16 = 0" "(of_char x :: nat) div 16 mod 16 = of_char x div 16"
    "(of_char x :: nat) div 64 div 4 = 0" "(of_char x :: nat) div 64 mod 4 = of_char x div 64" by (simp_all only: div_less mod_less)
qed

lemma b64_quanta_encode: "b64_quanta (b64_encode s) = Some s"
proof (induction s rule: b64_encode.induct)
  case (4 x y z s)
  then show ?case
    by (simp add: char_parts char_divs b64_char_facts Let_def)
next
  case (2 x)
  then show ?case
    by (simp add: char_parts char_divs b64_char_facts Let_def)
next
  case (3 x y)
  then show ?case
    by (simp add: char_parts char_divs b64_char_facts Let_def)
qed simp

lemma b64_encode_printable: "list_all (\<lambda>c. printable c \<and> c \<noteq> CHR '':'') (b64_encode s)"
proof (induction s rule: b64_encode.induct)
  case (4 x y z s)
  then show ?case
    by (simp add: char_parts char_divs b64_char_facts Let_def)
next
  case (2 x)
  then show ?case
    by (simp add: char_parts char_divs b64_char_facts Let_def) (simp add: printable_def)
next
  case (3 x y)
  then show ?case
    by (simp add: char_parts char_divs b64_char_facts Let_def) (simp add: printable_def)
qed simp

lemma b64_decode_encode: "b64_decode (b64_encode s) = Some s"
proof -
  have n: "\<not> printable (CHR 0x0D)" "\<not> printable (CHR 0x0A)" by (simp_all add: printable_def)
  have "\<forall>c \<in> set (b64_encode s). printable c" using b64_encode_printable [of s] unfolding list_all_iff by blast
  then have "\<forall>c \<in> set (b64_encode s). c \<noteq> CHR 0x0D \<and> c \<noteq> CHR 0x0A" using n by metis
  then have "filter (\<lambda>c. c \<noteq> CHR 0x0D \<and> c \<noteq> CHR 0x0A) (b64_encode s) = b64_encode s" by (simp only: filter_id_conv)
  then show ?thesis by (simp add: b64_decode_def b64_quanta_encode)
qed

section \<open>Cyclic checksums\<close>

lemma xor_cancel:
  fixes a b c :: "'w::len word"
  shows "a XOR c = b XOR c \<longleftrightarrow> a = b"
proof
  assume "a XOR c = b XOR c"
  then have "(a XOR c) XOR c = (b XOR c) XOR c" by simp
  then show "a = b" by (simp add: xor.assoc)
qed simp

lemma crc_shift_inj:
  fixes x y :: "'w::len word"
  assumes "bit poly (LENGTH('w) - 1)" "crc_shift poly x = crc_shift poly y"
  shows "x = y"
proof -
  let ?m = "LENGTH('w) - 1"
  have top: "bit (crc_shift poly z) ?m = bit z 0" for z :: "'w word"
    using assms(1) by (auto simp: crc_shift_def bit_xor_iff bit_drop_bit_eq dest: bit_imp_le_length)
  have b0: "bit x 0 = bit y 0" using top [of x] top [of y] assms(2) by simp
  then have d: "drop_bit 1 x = drop_bit 1 y"
    using assms(2) by (simp add: crc_shift_def xor_cancel split: if_splits)
  show ?thesis
  proof (rule bit_eqI)
    fix n show "bit x n = bit y n"
    proof (cases n)
      case (Suc k)
      have "bit (drop_bit 1 x) k = bit (drop_bit 1 y) k" using d by simp
      then show ?thesis using Suc by (simp add: bit_drop_bit_eq)
    qed (use b0 in simp)
  qed
qed

lemma crc_shift_xor: "crc_shift poly (x XOR y) = crc_shift poly x XOR crc_shift poly y"
  by (auto simp: crc_shift_def bit_xor_iff drop_bit_xor intro!: bit_eqI)

definition crc_step :: "'w::len word \<Rightarrow> 'w word \<Rightarrow> 'w word \<Rightarrow> 'w word" where
  "crc_step poly x e = (crc_shift poly ^^ 8) (x XOR e)"

lemma crc_step_xor: "crc_step poly x e XOR crc_step poly y d = crc_step poly (x XOR y) (e XOR d)"
proof -
  have "(crc_shift poly ^^ n) a XOR (crc_shift poly ^^ n) b = (crc_shift poly ^^ n) (a XOR b)" for n a b
    by (induction n) (simp_all flip: crc_shift_xor)
  then show ?thesis by (simp add: crc_step_def ac_simps)
qed

lemma crc_step_inj:
  fixes x y :: "'w::len word"
  assumes "bit poly (LENGTH('w) - 1)" "crc_step poly x e = crc_step poly y e"
  shows "x = y"
proof -
  have "inj (crc_shift poly ^^ 8)" using crc_shift_inj [OF assms(1)] by (intro inj_fn injI)
  then have "x XOR e = y XOR e" using assms(2) by (simp add: crc_step_def inj_eq)
  then show ?thesis by (simp only: xor_cancel)
qed

text \<open>A run from a state to zero determines the state when it is at most as long as the register.\<close>

fun little_endian :: "'w::len word list \<Rightarrow> 'w word" where
  "little_endian [] = 0"
| "little_endian (e # es) = e XOR push_bit 8 (little_endian es)"

definition byte_word :: "'w::len word \<Rightarrow> bool" where
  "byte_word e \<longleftrightarrow> (\<forall>n \<ge> 8. \<not> bit e n)"

lemma little_endian_bits: "\<forall>e \<in> set es. byte_word e \<Longrightarrow> 8 * length es \<le> n \<Longrightarrow> \<not> bit (little_endian es) n"
  by (induction es arbitrary: n) (auto simp: byte_word_def bit_xor_iff bit_push_bit_iff)

lemma crc_shift_back:
  fixes y z :: "'w::len word"
  assumes "bit poly (LENGTH('w) - 1)" "crc_shift poly z = y" "\<not> bit y (LENGTH('w) - 1)"
  shows "z = push_bit 1 y"
proof -
  define p where "p = push_bit 1 y"
  have p: "bit p n \<longleftrightarrow> 1 \<le> n \<and> n < LENGTH('w) \<and> bit y (n - 1)" for n unfolding p_def bit_push_bit_iff by simp
  have "\<not> bit y n" if "\<not> Suc n < LENGTH('w)" for n
    using that assms(3) bit_imp_le_length [of y n] by (cases "n = LENGTH('w) - 1") auto
  then have "bit (drop_bit 1 p) n = bit y n" for n
    using p [of "Suc n"] by (cases "Suc n < LENGTH('w)") (simp_all add: bit_drop_bit_eq)
  then have "drop_bit 1 p = y" by (intro bit_eqI) blast
  moreover have "\<not> bit p 0" using p [of 0] by simp
  ultimately have "crc_shift poly p = y" by (simp add: crc_shift_def)
  then show ?thesis using crc_shift_inj [OF assms(1)] assms(2) unfolding p_def by metis
qed

lemma crc_shifts_back:
  fixes y z :: "'w::len word"
  assumes "bit poly (LENGTH('w) - 1)" "(crc_shift poly ^^ k) z = y" "\<forall>n \<ge> LENGTH('w) - k. \<not> bit y n" "k \<le> LENGTH('w)"
  shows "z = push_bit k y"
  using assms(2-)
proof (induction k arbitrary: y)
  case (Suc k)
  have y: "crc_shift poly ((crc_shift poly ^^ k) z) = y" using Suc.prems(1) by simp
  have "\<not> bit y (LENGTH('w) - 1)" using Suc.prems(2,3) by auto
  from crc_shift_back [OF assms(1) y this] have b: "(crc_shift poly ^^ k) z = push_bit 1 y" .
  have "\<forall>n \<ge> LENGTH('w) - k. \<not> bit (push_bit 1 y) n" using Suc.prems(2,3) unfolding bit_push_bit_iff by auto
  from Suc.IH [OF b this] show ?case using Suc.prems(3) by (simp add: push_bit_push_bit)
qed simp

lemma crc_run_zero:
  fixes s :: "'w::len word"
  assumes "bit poly (LENGTH('w) - 1)" "foldl (crc_step poly) s es = 0" "\<forall>e \<in> set es. byte_word e" "8 * length es \<le> LENGTH('w)"
  shows "s = little_endian es"
  using assms(2-)
proof (induction es arbitrary: s)
  case (Cons e es)
  have "crc_step poly s e = little_endian es" using Cons by simp
  then have "s XOR e = push_bit 8 (little_endian es)"
    using little_endian_bits [of es] Cons.prems(2,3) by (intro crc_shifts_back [OF assms(1)]) (auto simp: crc_step_def)
  then have "(s XOR e) XOR e = push_bit 8 (little_endian es) XOR e" by simp
  then show ?case by (simp add: xor.assoc xor.commute)
qed simp

lemma little_endian_zero:
  fixes es :: "'w::len word list"
  assumes "little_endian es = 0" "\<forall>e \<in> set es. byte_word e" "8 * length es \<le> LENGTH('w)"
  shows "\<forall>e \<in> set es. e = 0"
  using assms
proof (induction es)
  case (Cons e es)
  let ?l = "little_endian es"
  have x: "bit e n \<longleftrightarrow> bit (push_bit 8 ?l) n" for n
    using arg_cong [OF Cons.prems(1), of "\<lambda>w. bit w n"] by (simp add: bit_xor_iff)
  have e0: "e = 0" using x Cons.prems(2) by (auto simp: bit_eq_iff bit_push_bit_iff byte_word_def)
  have "bit ?l n = False" for n
    using x [of "n + 8"] e0 little_endian_bits [of es n] Cons.prems(2,3) bit_imp_le_length [of ?l n]
    by (cases "n < LENGTH('w) - 8") (auto simp: bit_push_bit_iff)
  then have "?l = 0" by (simp add: bit_eq_iff)
  then show ?case using Cons e0 by simp
qed simp

lemma crc_byte_step: "crc_byte poly x c = crc_step poly x (word_of_nat (of_char c))"
  by (simp add: crc_byte_def crc_step_def)

lemma byte_word_char: "byte_word (word_of_nat (of_char c) :: 'w::len word)"
proof -
  have "\<not> bit (of_char c :: nat) n" if "8 \<le> n" for n
  proof -
    have "(of_char c :: nat) < 2 ^ 8" using nat_of_char_less_256 [of c] by simp
    then have "(of_char c :: nat) < 2 ^ n" using that by (metis less_le_trans one_le_numeral power_increasing)
    then show ?thesis by (simp add: bit_iff_odd)
  qed
  then show ?thesis by (simp add: byte_word_def bit_of_nat_iff)
qed

lemma byte_word_xor: "byte_word d \<Longrightarrow> byte_word e \<Longrightarrow> byte_word (d XOR e)"
  by (simp add: byte_word_def bit_xor_iff)

lemma crc_diff:
  assumes "length x = length y"
  shows "foldl (crc_byte poly) s x XOR foldl (crc_byte poly) t y =
    foldl (crc_step poly) (s XOR t) (map2 (\<lambda>c d. word_of_nat (of_char c) XOR word_of_nat (of_char d)) x y)"
  using assms by (induction x y arbitrary: s t rule: list_induct2) (simp_all add: crc_byte_step crc_step_xor)

lemma crc_burst:
  fixes s :: "'w::len word"
  assumes "bit poly (LENGTH('w) - 1)" "length x = length y" "8 \<le> LENGTH('w)" "8 * length x \<le> LENGTH('w)"
    "foldl (crc_byte poly) s x = foldl (crc_byte poly) s y"
  shows "x = y"
proof -
  let ?w = "\<lambda>c. word_of_nat (of_char c) :: 'w word"
  let ?es = "map2 (\<lambda>c d. ?w c XOR ?w d) x y"
  have "foldl (crc_step poly) 0 ?es = 0" using crc_diff [OF assms(2), of poly s s] assms(5) by simp
  moreover have b: "\<forall>e \<in> set ?es. byte_word e" by (auto intro!: byte_word_xor byte_word_char)
  moreover have l: "8 * length ?es \<le> LENGTH('w)" using assms(2,4) by simp
  ultimately have "little_endian ?es = 0" using crc_run_zero [OF assms(1)] by metis
  then have z: "\<forall>e \<in> set ?es. e = 0" using little_endian_zero b l by blast
  have "x ! i = y ! i" if i: "i < length x" for i
  proof -
    have "?es ! i \<in> set ?es" using i assms(2) by (intro nth_mem) simp
    then have "?w (x ! i) XOR ?w (y ! i) = 0" using z i assms(2) by (metis (no_types, lifting) length_map length_zip min.idem nth_map nth_zip case_prod_conv)
    then have "?w (x ! i) = ?w (y ! i)" using xor_cancel [of "?w (x ! i)" "?w (y ! i)" "?w (y ! i)"] by simp
    moreover have "unat (?w c) = of_char c" for c
    proof -
      have "(of_char c :: nat) < 256" by (rule nat_of_char_less_256)
      moreover have "(256::nat) \<le> 2 ^ LENGTH('w)" using power_increasing [OF assms(3), of "2::nat"] by simp
      ultimately have "(of_char c :: nat) < 2 ^ LENGTH('w)" by (rule less_le_trans)
      then show ?thesis by (simp add: unat_of_nat)
    qed
    ultimately show ?thesis by (metis of_char_eq_iff)
  qed
  then show ?thesis using assms(2) by (simp add: nth_equalityI)
qed

lemma big_endian_inj: "big_endian k m = big_endian k n \<Longrightarrow> m < 256 ^ k \<Longrightarrow> n < 256 ^ k \<Longrightarrow> m = n"
proof (induction k arbitrary: m n)
  case (Suc k)
  have "big_endian k (m div 256) = big_endian k (n div 256)" "(char_of (m mod 256) :: char) = char_of (n mod 256)" using Suc.prems(1) by auto
  moreover have "m div 256 < 256 ^ k" "n div 256 < 256 ^ k" using Suc.prems(2,3) by (auto simp: less_mult_imp_div_less mult.commute)
  moreover have "m mod 256 = n mod 256" using calculation(2) by (metis char_of_mod_256 mod_mod_trivial of_char_of)
  ultimately show ?case using Suc.IH by (metis div_mult_mod_eq)
qed simp

lemma crc_update_burst:
  fixes poly :: "'w::len word"
  assumes "bit poly (LENGTH('w) - 1)" "length x = length y" "8 \<le> LENGTH('w)" "8 * length x \<le> LENGTH('w)"
    "crc_update poly (u @ x @ v) = crc_update poly (u @ y @ v)"
  shows "x = y"
proof -
  let ?s = "foldl (crc_byte poly) (NOT 0) u"
  have undo: "foldl (crc_byte poly) a v = foldl (crc_byte poly) b v \<Longrightarrow> a = b" for a b
    by (induction v arbitrary: a b) (auto simp: crc_byte_step dest: crc_step_inj [OF assms(1)])
  have "foldl (crc_byte poly) (foldl (crc_byte poly) ?s x) v = foldl (crc_byte poly) (foldl (crc_byte poly) ?s y) v"
    using assms(5) unfolding crc_update_def by (metis bit.double_compl foldl_append)
  from crc_burst [OF assms(1-4) undo [OF this]] show ?thesis .
qed

lemma poly_bits: "bit (0xEDB88320 :: 32 word) 31" "bit (0x82F63B78 :: 32 word) 31" "bit (0x9A6C9329AC4BC9B5 :: 64 word) 63"
  by code_simp+



end
