(* ===== verification/S3_Streaming_Properties.thy ===== *)
theory S3_Streaming_Properties
  imports S3_Chunks S3_Checksums
begin

text \<open>
  What the decoder of S3 bodies guarantees: reading in pieces of any size gives what decoding in one go
  gives; the end of a signed body is reported only for a body framed and signed chunk by chunk with the
  chained signatures; what a client frames is delivered unchanged; the declared length and checksum hold
  of the bytes delivered; and the cyclic checksums notice every altered byte.
\<close>

section \<open>Payloads of requests\<close>

definition sum_ok :: "digests \<Rightarrow> checksum \<Rightarrow> bool" where
  "sum_ok dg s \<longleftrightarrow> checksumAlgorithms dg (smName s) = Some (smHash s, smSize s) \<and> smData s = [] \<and> (smTrailing s \<longleftrightarrow> smWant s = None)"

lemma header_sums_ok:
  assumes "header_sums env dg kvs acc = Inr (r, n)" "\<forall>s. fst acc = Some s \<longrightarrow> sum_ok dg s \<and> \<not> smTrailing s"
  shows "\<forall>s. r = Some s \<longrightarrow> sum_ok dg s \<and> \<not> smTrailing s"
  using assms
proof (induction kvs arbitrary: acc)
  case (Cons kv kvs)
  obtain acc1 where "header_sums env dg kvs acc1 = Inr (r, n)" "\<forall>s. fst acc1 = Some s \<longrightarrow> sum_ok dg s \<and> \<not> smTrailing s"
    using Cons.prems by (cases kv; cases acc) (auto simp: sum_ok_def Let_def split: if_splits option.splits)
  then show ?case by (rule Cons.IH)
qed simp

lemma trailer_sums_ok:
  assumes "trailer_sums env dg trailing raws acc = Inr (r, n)" "\<forall>s. fst acc = Some s \<longrightarrow> sum_ok dg s \<and> (smTrailing s \<longrightarrow> trailing)"
  shows "\<forall>s. r = Some s \<longrightarrow> sum_ok dg s \<and> (smTrailing s \<longrightarrow> trailing)"
  using assms
proof (induction raws arbitrary: acc)
  case (Cons raw raws)
  obtain acc1 where "trailer_sums env dg trailing raws acc1 = Inr (r, n)" "\<forall>s. fst acc1 = Some s \<longrightarrow> sum_ok dg s \<and> (smTrailing s \<longrightarrow> trailing)"
    using Cons.prems by (cases acc) (auto simp: sum_ok_def Let_def split: if_splits option.splits)
  then show ?case by (rule Cons.IH)
qed simp

lemma declaredChecksum_ok:
  assumes "declaredChecksum env dg keys r trailing = Inr (Some s)"
  shows "sum_ok dg s \<and> (smTrailing s \<longrightarrow> trailing)"
proof -
  define raws where "raws = concat (map (\<lambda>v. Split v CHR '','') (Header_Values r ''X-Amz-Trailer''))"
  obtain acc where h: "header_sums env dg (map (\<lambda>k. (k, rqHeader r k)) keys) (None, 0) = Inr acc"
    and t: "result_bind (trailer_sums env dg trailing raws acc) (\<lambda>(sum, n). if n > 1 then Inl MultipleChecksums else Inr sum) = Inr (Some s)"
    using assms unfolding declaredChecksum_def result_bind_Inr raws_def by blast
  obtain n where t1: "trailer_sums env dg trailing raws acc = Inr (Some s, n)" using t by (auto simp: result_bind_Inr split: if_splits)
  obtain a m where acc: "acc = (a, m)" by fastforce
  have "\<forall>s. a = Some s \<longrightarrow> sum_ok dg s \<and> \<not> smTrailing s" by (rule header_sums_ok [OF h [unfolded acc]]) simp
  then have "\<forall>s. fst acc = Some s \<longrightarrow> sum_ok dg s \<and> (smTrailing s \<longrightarrow> trailing)" by (simp add: acc)
  from trailer_sums_ok [OF t1 this] show ?thesis by simp
qed

definition fresh_chunks :: "bufreader \<Rightarrow> chunkReader \<Rightarrow> bool" where
  "fresh_chunks body c \<longleftrightarrow> boundary c \<and> ckSrc c = body \<and> ckTrailers c = [] \<and> \<not> ckStarted c"

lemma payload_chunks_fresh:
  assumes "payload_chunks env to_upper cfg r body = Inr (Some c)"
  shows "fresh_chunks body c \<and> \<not> ckEmptyOK c \<and> ckDeclared c = []"
  using assms
  by (auto simp: payload_chunks_def streamingSigner_def new_chunks_def fresh_chunks_def boundary_def Let_def
      split: if_splits option.splits)

lemma payload_length_fresh:
  assumes "payload_length env cfg r c = Inr (n, c1)" "fresh_chunks body c" "\<not> ckEmptyOK c"
  shows "fresh_chunks body c1 \<and> (ckEmptyOK c1 \<longrightarrow> n = 0) \<and> ckTrailing c1 = ckTrailing c \<and> ckDeclared c1 = ckDeclared c"
  using assms by (auto simp: payload_length_def fresh_chunks_def boundary_def Let_def split: if_splits option.splits)

lemma newPayload_fresh:
  assumes "newPayload env dg to_upper cfg keys r body = Inr p"
  shows "pyBody p = body" "pyErr p = None" "pyN p = 0" "\<forall>s. pySum p = Some s \<longrightarrow> sum_ok dg s \<and> (smTrailing s \<longrightarrow> pyChunks p \<noteq> None)"
    "pyChunks p = None \<longrightarrow> pyLength p = -1"
    "\<forall>c. pyChunks p = Some c \<longrightarrow> fresh_chunks body c \<and> (ckEmptyOK c \<longrightarrow> pyLength p = 0) \<and>
       (\<forall>s. pySum p = Some s \<longrightarrow> smTrailing s \<longrightarrow> ckDeclared c = smName s \<and> ckTrailing c)"
proof -
  obtain chunks where n1: "payload_chunks env to_upper cfg r body = Inr chunks"
    using assms by (cases "payload_chunks env to_upper cfg r body") (simp_all add: newPayload_def)
  define len where
    "len = (case chunks of None \<Rightarrow> Inr (-1, None) | Some c \<Rightarrow> result_bind (payload_length env cfg r c) (\<lambda>(n, c1). Inr (n, Some c1)))"
  obtain n chunks1 where n2: "len = Inr (n, chunks1)"
    using assms n1 by (cases len) (auto simp: newPayload_def len_def [symmetric])
  obtain sm where n3: "declaredChecksum env dg keys r (case chunks of None \<Rightarrow> False | Some c \<Rightarrow> ckTrailing c) = Inr sm"
    using assms n1 n2 by (cases "declaredChecksum env dg keys r (case chunks of None \<Rightarrow> False | Some c \<Rightarrow> ckTrailing c)")
      (simp_all add: newPayload_def len_def [symmetric])
  have n4: "p = \<lparr> pyBody = body, pyChunks = (case sm of
               Some s \<Rightarrow> if smTrailing s then map_option (\<lambda>c. c\<lparr>ckDeclared := smName s\<rparr>) chunks1 else chunks1 | None \<Rightarrow> chunks1),
           pyLength = n, pyN = 0, pySum = sm, pyErr = None \<rparr>"
    using assms n1 n2 n3 by (simp add: newPayload_def len_def [symmetric])
  note n = n1 n2 [unfolded len_def] n3 n4
  have c: "fresh_chunks body c \<and> \<not> ckEmptyOK c" if "chunks = Some c" for c using payload_chunks_fresh n(1) that by blast
  have c1: "\<exists>c. chunks = Some c \<and> fresh_chunks body c1 \<and> (ckEmptyOK c1 \<longrightarrow> n = 0) \<and> ckTrailing c1 = ckTrailing c" if "chunks1 = Some c1" for c1
    using n(2) that c payload_length_fresh [of env cfg r _ n c1 body] by (auto simp: result_bind_Inr split: option.splits)
  have none: "chunks1 = None \<longleftrightarrow> chunks = None" "chunks = None \<longrightarrow> n = -1" using n(2) by (auto simp: result_bind_Inr split: option.splits)
  show "pyBody p = body" "pyErr p = None" "pyN p = 0" using n(4) by simp_all
  have sm: "sum_ok dg s \<and> (smTrailing s \<longrightarrow> (\<exists>c. chunks = Some c \<and> ckTrailing c))" if "sm = Some s" for s
    using declaredChecksum_ok [of env dg keys r _ s] n(3) that by (auto split: option.splits)
  show "\<forall>s. pySum p = Some s \<longrightarrow> sum_ok dg s \<and> (smTrailing s \<longrightarrow> pyChunks p \<noteq> None)" using sm n(4) none by auto
  show "pyChunks p = None \<longrightarrow> pyLength p = -1" using n(4) none by (auto split: option.splits if_splits)
  have f: "fresh_chunks body (c\<lparr>ckDeclared := x\<rparr>) = fresh_chunks body c" for c x by (simp add: fresh_chunks_def boundary_def)
  show "\<forall>c. pyChunks p = Some c \<longrightarrow> fresh_chunks body c \<and> (ckEmptyOK c \<longrightarrow> pyLength p = 0) \<and>
       (\<forall>s. pySum p = Some s \<longrightarrow> smTrailing s \<longrightarrow> ckDeclared c = smName s \<and> ckTrailing c)"
  proof (intro allI impI)
    fix c assume "pyChunks p = Some c"
    then obtain c2 where c2: "chunks1 = Some c2" "c = (case sm of Some s \<Rightarrow> if smTrailing s then c2\<lparr>ckDeclared := smName s\<rparr> else c2 | None \<Rightarrow> c2)"
      using n(4) by (auto split: option.splits if_splits)
    obtain c3 where c3: "chunks = Some c3" "fresh_chunks body c2" "ckEmptyOK c2 \<longrightarrow> n = 0" "ckTrailing c2 = ckTrailing c3" using c1 [OF c2(1)] by blast
    have "ckTrailing c2" if "sm = Some s" "smTrailing s" for s using sm [OF that(1)] that(2) c3(1,4) by auto
    then show "fresh_chunks body c \<and> (ckEmptyOK c \<longrightarrow> pyLength p = 0) \<and> (\<forall>s. pySum p = Some s \<longrightarrow> smTrailing s \<longrightarrow> ckDeclared c = smName s \<and> ckTrailing c)"
      using c2(2) c3(2,3) n(4) f by (cases sm) auto
  qed
qed

lemma newPayload_open:
  assumes "newPayload env dg to_upper cfg keys r body = Inr p"
  shows "source_open p" "source_pending p = bufData body"
  using newPayload_fresh [OF assms] by (auto simp: source_open_def source_pending_def fresh_chunks_def boundary_def split: option.splits)


lemma payload_end_chunks:
  "payload_end EOF (deliver bs q) = (EOF, p') \<Longrightarrow> q = p\<lparr>pyChunks := Some c\<rparr> \<Longrightarrow> pyChunks p' = Some c"
  by (auto simp: payload_end_def payload_finish_def deliver_def Let_def split: if_splits prod.splits option.splits sum.splits)

lemma decode_empty:
  assumes "boundary c" "decode env c = (bs, EOF, c')" "pending c = []"
  shows "bs = [] \<and> bufFail (ckSrc c) = None"
proof -
  have "decode env c = (case open_chunk env c of (Some x, c1) \<Rightarrow> ([], x, c1\<lparr>ckErr := Some x\<rparr>) | (None, c1) \<Rightarrow> decode env c1)"
    using assms(1) by (subst decode.simps) (simp add: next_chunk_def boundary_def)
  then show ?thesis
    using assms(2,3)
    by (auto simp: open_chunk_def ReadSlice_def buf_end_def truncation_def Let_def split: if_splits option.splits)
qed

lemma read_all_eof:
  assumes "newPayload env dg to_upper cfg keys r body = Inr p" "\<forall>i. 0 < fst (sched i)" "length (bufData body) < fuel"
    "read_all env sched fuel p = Some (bs, EOF, p')"
  shows "\<exists>q. source_decode env p = (bs, EOF, q) \<and> \<not> too_long p bs \<and> payload_end EOF (deliver bs q) = (EOF, p')"
proof -
  obtain bs0 x q where d: "source_decode env p = (bs0, x, q)" by (metis prod_cases3)
  have l: "length (source_pending p) < fuel" using newPayload_open [OF assms(1)] assms(3) by simp
  from read_all_decode [OF assms(2) newPayload_open(1) [OF assms(1)] l d] assms(4)
  have "\<not> too_long p bs0" "bs = bs0" "payload_end x (deliver bs0 q) = (EOF, p')" by (auto split: if_splits)
  moreover from this(3) have "x = EOF" by (auto simp: payload_end_def split: if_splits)
  ultimately show ?thesis using d by simp
qed


lemma payload_end_verified:
  assumes "payload_end EOF p = (EOF, p')"
  shows "0 \<le> pyLength p \<longrightarrow> pyN p = pyLength p"
    "\<forall>s. pySum p = Some s \<longrightarrow> (\<exists>w. smHash s (smData s) = w \<and> checksum_header p' = Some (smName s, b64_encode w) \<and>
       (if smTrailing s then \<exists>c v. pyChunks p = Some c \<and> (smName s, v) \<in> set (ckTrailers c) \<and> sum_decode s v = Some w
        else smWant s = Some w \<or> smWant s = None \<and> w = []))"
proof -
  obtain q where q: "payload_finish p = (EOF, q)" "p' = q\<lparr>pyErr := Some EOF\<rparr>"
    using assms by (auto simp: payload_end_def split: prod.splits)
  show "0 \<le> pyLength p \<longrightarrow> pyN p = pyLength p" using q(1) by (auto simp: payload_finish_def split: if_splits)
  have "checksum_header p' = checksum_header q" using q(2) by (simp add: checksum_header_def)
  then show "\<forall>s. pySum p = Some s \<longrightarrow> (\<exists>w. smHash s (smData s) = w \<and> checksum_header p' = Some (smName s, b64_encode w) \<and>
       (if smTrailing s then \<exists>c v. pyChunks p = Some c \<and> (smName s, v) \<in> set (ckTrailers c) \<and> sum_decode s v = Some w
        else smWant s = Some w \<or> smWant s = None \<and> w = []))"
    using q(1) row_of_SomeD [of fst]
    by (fastforce simp: payload_finish_def checksum_header_def Let_def split: if_splits option.splits sum.splits)
qed

lemma decode_trailers:
  assumes "boundary c" "decode env c = (bs, EOF, c')" "ckTrailers c = []" "(n, v) \<in> set (ckTrailers c')"
  shows "n = ckDeclared c \<and> (\<exists>pre line post. pending c = pre @ line @ post \<and> trailer_field env line n v)"
proof (cases "ckStarted c \<or> \<not> ckEmptyOK c \<or> pending c \<noteq> []")
  case True
  obtain fs line g tail c4 c5 where d: "pending c = frames fs @ line @ tail" "last_reader c (fs @ [(line, [], g)]) tail c4"
      "readTrailers env c4 = (EOF, c5)" "c' = c5\<lparr>ckErr := Some EOF\<rparr>"
    using decode_sound [OF assms(1,2) True] by blast
  have "trailers_presented env (c4\<lparr>ckTrailers := []\<rparr>) c5"
    using trailer_loop_sound [OF d(3) [unfolded readTrailers_def]] by (simp add: canonical_trailers_def)
  then have "n = ckDeclared c4" "\<exists>pre l post. tail = pre @ l @ post \<and> trailer_field env l n v"
    using assms(4) d(2,4) by (auto simp: trailers_presented_def last_reader_def)
  then obtain pre l post where "tail = pre @ l @ post" "trailer_field env l n v" "n = ckDeclared c"
    using d(2) by (auto simp: last_reader_def same_mode_def)
  moreover from this(1) have "pending c = (frames fs @ line @ pre) @ l @ post" using d(1) by simp
  ultimately show ?thesis by blast
next
  case False
  have "decode env c = (case open_chunk env c of (Some x, c1) \<Rightarrow> ([], x, c1\<lparr>ckErr := Some x\<rparr>) | (None, c1) \<Rightarrow> decode env c1)"
    using assms(1) by (subst decode.simps) (simp add: next_chunk_def boundary_def)
  then have "ckTrailers c' = []"
    using assms(2) False by (auto simp: open_chunk_def ReadSlice_def buf_end_def truncation_def Let_def split: if_splits option.splits)
  then show ?thesis using assms(4) by simp
qed

text \<open>C39: What a successful read has checked. The number of bytes delivered is the declared decoded length; the
  declared checksum is the checksum of exactly these bytes, computed by the algorithm its header names, with the value
  taken from the header or from a trailer line of the body, and it is the value the response echoes; a body that is not
  chunked is delivered as it is.\<close>

theorem payload_verified:
  assumes "newPayload env dg to_upper cfg keys r body = Inr p" "\<forall>i. 0 < fst (sched i)" "length (bufData body) < fuel"
    "read_all env sched fuel p = Some (bs, EOF, p')"
  shows "(0 \<le> pyLength p \<longrightarrow> int (length bs) = pyLength p) \<and> (pyChunks p = None \<longrightarrow> bs = bufData body \<and> bufFail body = None) \<and>
    (\<forall>s. pySum p = Some s \<longrightarrow> (\<exists>h n w. checksumAlgorithms dg (smName s) = Some (h, n) \<and> h bs = w \<and>
       checksum_header p' = Some (smName s, b64_encode w) \<and>
       (if smTrailing s then \<exists>pre line post v. bufData body = pre @ line @ post \<and> trailer_field env line (smName s) v \<and> sum_decode s v = Some w
        else smWant s = Some w)))"
proof -
  obtain q where q: "source_decode env p = (bs, EOF, q)" "payload_end EOF (deliver bs q) = (EOF, p')"
    using read_all_eof [OF assms] by blast
  note f = newPayload_fresh [OF assms(1)]
  have fr: "pyLength q = pyLength p" "pyN q = 0" "pySum q = pySum p" using q(1) f(3) by (auto simp: source_decode_def split: option.splits prod.splits)
  note v = payload_end_verified [OF q(2)]
  have "0 \<le> pyLength p \<longrightarrow> int (length bs) = pyLength p" using v(1) fr by (simp add: deliver_def)
  moreover have "pyChunks p = None \<longrightarrow> bs = bufData body \<and> bufFail body = None"
    using q(1) f(1) by (auto simp: source_decode_def buf_end_def split: option.splits)
  moreover have "\<exists>h n w. checksumAlgorithms dg (smName s) = Some (h, n) \<and> h bs = w \<and> checksum_header p' = Some (smName s, b64_encode w) \<and>
       (if smTrailing s then \<exists>pre line post v. bufData body = pre @ line @ post \<and> trailer_field env line (smName s) v \<and> sum_decode s v = Some w
        else smWant s = Some w)" if s: "pySum p = Some s" for s
  proof -
    have o: "sum_ok dg s" "smTrailing s \<longrightarrow> pyChunks p \<noteq> None" using f(4) s by auto
    let ?s = "s\<lparr>smData := bs\<rparr>"
    have dq: "pySum (deliver bs q) = Some ?s" "pyChunks (deliver bs q) = pyChunks q" using fr(3) s o(1) by (simp_all add: deliver_def sum_ok_def)
    have sd: "sum_decode ?s x = sum_decode s x" for x by (simp add: sum_decode_def split: option.split)
    obtain w where w: "smHash s bs = w" "checksum_header p' = Some (smName s, b64_encode w)"
       "if smTrailing s then \<exists>c v. pyChunks q = Some c \<and> (smName s, v) \<in> set (ckTrailers c) \<and> sum_decode s v = Some w
        else smWant s = Some w \<or> smWant s = None \<and> w = []" using v(2) dq sd by (auto split: if_splits)
    have "\<exists>pre line post v. bufData body = pre @ line @ post \<and> trailer_field env line (smName s) v \<and> sum_decode s v = Some w" if t: "smTrailing s"
    proof -
      obtain c where c: "pyChunks p = Some c" using o(2) t by blast
      then have fc: "boundary c" "ckSrc c = body" "ckTrailers c = []" using f(6) by (auto simp: fresh_chunks_def)
      obtain c' where c': "decode env c = (bs, EOF, c')" "q = p\<lparr>pyChunks := Some c'\<rparr>"
        using q(1) c by (auto simp: source_decode_def split: prod.splits)
      then obtain v where v: "(smName s, v) \<in> set (ckTrailers c')" "sum_decode s v = Some w" using w(3) t by auto
      show ?thesis using decode_trailers [OF fc(1) c'(1) fc(3) v(1)] v(2) fc(2) by blast
    qed
    then show ?thesis using w o(1) by (auto simp: sum_ok_def)
  qed
  ultimately show ?thesis by blast
qed

section \<open>What clients send\<close>

lemma strip_front_stop:
  assumes "\<forall>sp \<in> set sps. sp \<noteq> [] \<and> hd sp \<noteq> hd s" "s \<noteq> []"
  shows "strip_front n sps s = s"
proof (cases n)
  case (Suc k)
  have "\<not> prefix sp s" if "sp \<in> set sps" for sp using assms that by (cases sp; cases s) auto
  then have "find (\<lambda>sp. prefix sp s) sps = None" by (auto simp: find_None_iff)
  then show ?thesis using Suc by simp
qed simp

lemma space_ends:
  "\<forall>sp \<in> set go_spaces. sp \<noteq> [] \<and> \<not> printable (hd sp)" "\<forall>sp \<in> set (map rev go_spaces). sp \<noteq> [] \<and> \<not> printable (hd sp)"
  by (simp_all add: go_spaces_def printable_def)

lemma TrimSpace_printable:
  assumes "s \<noteq> []" "printable (hd s)" "printable (last s)"
  shows "TrimSpace s = s" "TrimSpace (s @ [CR, LF]) = s"
proof -
  have f: "strip_front n go_spaces (s @ t) = s @ t" for n t
    using space_ends(1) assms by (intro strip_front_stop) auto
  have r: "strip_front n (map rev go_spaces) (rev s) = rev s" for n
    using space_ends(2) assms by (intro strip_front_stop) (auto simp: hd_rev)
  show "TrimSpace s = s" using f [of _ "[]"] r by (simp add: TrimSpace_def Let_def)
  have c: "strip_front (Suc n) (map rev go_spaces) (LF # t) = strip_front n (map rev go_spaces) t"
    "strip_front (Suc n) (map rev go_spaces) (CR # t) = strip_front n (map rev go_spaces) t" for n t
    by (simp_all add: go_spaces_def)
  show "TrimSpace (s @ [CR, LF]) = s" using f [of _ "[CR, LF]"] r c by (simp add: TrimSpace_def Let_def)
qed

lemma unhex_hex_digit: "n < 16 \<Longrightarrow> unhex (hex_digit n) = Some n"
  by (auto simp: unhex_def hex_digit_def of_char_of Let_def)

lemma FormatHex_value: "hex_size (FormatHex n) = n" "list_all (\<lambda>c. unhex c \<noteq> None) (FormatHex n)"
proof (induction n rule: FormatHex.induct)
  case (1 n)
  {
    case 1
    then show ?case using "1.IH"(1) by (subst FormatHex.simps) (auto simp: hex_size_def unhex_hex_digit)
  next
    case 2
    then show ?case using "1.IH"(2) by (subst FormatHex.simps) (auto simp: unhex_hex_digit)
  }
qed

lemma FormatHex_length: "n < 16 ^ k \<Longrightarrow> 0 < k \<Longrightarrow> length (FormatHex n) \<le> k"
proof (induction n arbitrary: k rule: FormatHex.induct)
  case (1 n)
  show ?case
  proof (cases "n < 16")
    case False
    then have "k \<noteq> 1" using "1.prems" by auto
    then obtain j where j: "k = Suc j" "0 < j" using "1.prems" by (cases k) auto
    then have "n div 16 < 16 ^ j" using "1.prems" by (simp add: less_mult_imp_div_less mult.commute)
    then show ?thesis using "1.IH" [OF False, of j] j False by (subst FormatHex.simps) simp
  qed (use "1.prems" in \<open>subst FormatHex.simps, simp\<close>)
qed

lemma parse_size_FormatHex: "n < 2 ^ 63 \<Longrightarrow> parse_size (FormatHex n) = Some n"
  using FormatHex_value [of n] FormatHex_nonempty [of n] FormatHex_length [of n 16] by (simp add: parse_size_def not_less)

definition chunk_header :: "bool \<Rightarrow> nat \<Rightarrow> string \<Rightarrow> string" where
  "chunk_header with_signatures n g = FormatHex n @ (if with_signatures then '';chunk-signature='' @ g else []) @ [CR, LF]"

lemma hex_not_special:
  assumes "list_all (\<lambda>c. unhex c \<noteq> None) s"
  shows "CHR '';'' \<notin> set s" "CHR ''='' \<notin> set s" "LF \<notin> set s" "CR \<notin> set s"
  using assms by (auto simp: list_all_iff unhex_def Let_def)

lemma lower_hex_unhex: "is_lower_hex c \<Longrightarrow> unhex c \<noteq> None"
  by (auto simp: is_lower_hex_def is_digit_def unhex_def Let_def)

lemma Cut_or_all_append: "c \<notin> set u \<Longrightarrow> Cut_or_all (u @ c # v) c = (u, v)"
  by (induction u) (auto simp: Cut_or_all_def Cut_def)

lemma Cut_or_all_none: "c \<notin> set u \<Longrightarrow> Cut_or_all u c = (u, [])"
  by (simp add: Cut_or_all_def Cut_def)

lemma chunk_header_line:
  assumes "n < 2 ^ 63" "with_signatures \<longrightarrow> isHexSHA256 g"
  shows "chunk_line with_signatures (chunk_header with_signatures n g) n g"
proof -
  let ?x = "if with_signatures then '';chunk-signature='' @ g else []"
  let ?u = "FormatHex n @ ?x"
  note h = hex_not_special [OF FormatHex_value(2) [of n]]
  have hg: "list_all (\<lambda>c. unhex c \<noteq> None) g" "length g = 64" if "with_signatures"
    using assms(2) that lower_hex_unhex unfolding isHexSHA256_def list_all_iff by (auto split: if_splits)
  have g: "CR \<notin> set g" "LF \<notin> set g" "length g = 64" if "with_signatures"
    using hex_not_special [OF hg(1) [OF that]] hg(2) [OF that] by simp_all
  have l: "length (FormatHex n) \<le> 16" using FormatHex_length [of n 16] assms(1) by simp
  have t: "TrimSuffix (TrimSuffix (?u @ [CR, LF]) [LF]) [CR] = ?u"
    by (simp add: TrimSuffix_def HasSuffix_def suffix_def butlast_append)
  have c: "Cut_or_all ?u CHR '';'' = (FormatHex n, if with_signatures then ''chunk-signature='' @ g else [])"
    using Cut_or_all_append [OF h(1), of "''chunk-signature='' @ g"] Cut_or_all_none [OF h(1)] by simp
  have e: "Cut_or_all (''chunk-signature='' @ g) CHR ''='' = (''chunk-signature'', g)"
    using Cut_or_all_append [of "CHR ''=''" "''chunk-signature''" g] by simp
  have "chunk_header with_signatures n g = ?u @ [CR, LF]" by (simp add: chunk_header_def)
  moreover have "\<exists>u. ?u @ [CR, LF] = u @ [LF] \<and> LF \<notin> set u" using h g by (intro exI [of _ "?u @ [CR]"]) auto
  moreover have "length (?u @ [CR, LF]) \<le> chunkLineLimit" using l g by simp
  ultimately show ?thesis
    unfolding chunk_line_def using t c e assms parse_size_FormatHex [OF assms(1)] by auto
qed

text \<open>The body a client sends for the pieces \<open>ds\<close>: framed, signed in a chain when there is a signer, with the announced
  trailer \<open>tr\<close> and, for a signed body with trailers, their signature.\<close>

fun sign_frames :: "sig_env \<Rightarrow> chunkSigner option \<Rightarrow> string list \<Rightarrow> frame list" where
  "sign_frames env so [] = []"
| "sign_frames env so (d # ds) =
     (let g = (case so of None \<Rightarrow> [] | Some s \<Rightarrow> chunk_sig env s d)
      in (chunk_header (so \<noteq> None) (length d) g, d, g) # sign_frames env (map_option (follow g) so) ds)"

definition last_sig :: "sig_env \<Rightarrow> chunkSigner option \<Rightarrow> string list \<Rightarrow> string" where
  "last_sig env so ds = (case so of None \<Rightarrow> [] | Some s \<Rightarrow> chunk_sig env (chain_end s (sign_frames env so ds)) [])"

definition trailer_lines :: "sig_env \<Rightarrow> chunkSigner option \<Rightarrow> bool \<Rightarrow> (string \<times> string) option \<Rightarrow> string" where
  "trailer_lines env so trailing tr =
     (case tr of None \<Rightarrow> [] | Some (n, v) \<Rightarrow> n @ '':'' @ v @ [CR, LF]) @
     (case so of
        None \<Rightarrow> []
      | Some s \<Rightarrow> if trailing then signature_field @ '':'' @ trailer_sig env s (canonical_trailers (case tr of None \<Rightarrow> [] | Some t \<Rightarrow> [t])) @ [CR, LF]
                  else []) @ [CR, LF]"

definition encode_stream :: "sig_env \<Rightarrow> chunkSigner option \<Rightarrow> bool \<Rightarrow> (string \<times> string) option \<Rightarrow> string list \<Rightarrow> string" where
  "encode_stream env so trailing tr ds =
     (let fs = sign_frames env so ds; g = last_sig env so ds; l = chunk_header (so \<noteq> None) 0 g
      in frames fs @ l @ trailer_lines env (map_option (\<lambda>s. chain_end s (fs @ [(l, [], g)])) so) trailing tr)"

lemma hex_lower_SHA256: "length d = 32 \<Longrightarrow> isHexSHA256 (hex_lower d)"
proof -
  have "list_all is_lower_hex (hex_lower d)" "length (hex_lower d) = 2 * length d"
    by (induction d) (auto simp: hex_lower_def intro!: hex_digit_lower less_mult_imp_div_less)
  then show "length d = 32 \<Longrightarrow> isHexSHA256 (hex_lower d)" by (simp add: isHexSHA256_def)
qed

lemma sign_frames_ok:
  assumes "\<forall>k m. length (seHmac env k m) = 32" "\<forall>d \<in> set ds. d \<noteq> [] \<and> length d < 2 ^ 63"
  shows "list_all (frame_ok (so \<noteq> None)) (sign_frames env so ds)" "frame_data (sign_frames env so ds) = concat ds"
    "\<forall>s. so = Some s \<longrightarrow> chain env s (sign_frames env so ds)"
  using assms(2)
proof (induction ds arbitrary: so)
  case (Cons d ds)
  have h: "isHexSHA256 (chunk_sig env s d)" for s using assms(1) by (simp add: chunk_sig_def hex_lower_SHA256)
  {
    case 1
    then show ?case using Cons.IH(1) [of "map_option (follow (case so of None \<Rightarrow> [] | Some s \<Rightarrow> chunk_sig env s d)) so"] h
      by (auto simp: frame_ok_def Let_def intro!: chunk_header_line split: option.splits)
  next
    case 2
    then show ?case using Cons.IH(2) [of "map_option (follow (case so of None \<Rightarrow> [] | Some s \<Rightarrow> chunk_sig env s d)) so"]
      by (simp add: frame_data_def Let_def)
  next
    case 3
    then show ?case using Cons.IH(3) by (auto simp: Let_def)
  }
qed (simp_all add: frame_data_def)

lemma chain_append: "chain env s (fs @ gs) \<longleftrightarrow> chain env s fs \<and> chain env (chain_end s fs) gs"
  by (induction fs arbitrary: s) auto

lemma chain_end_prev: "chunk_sig env (s\<lparr>sgHash := x\<rparr>) d = chunk_sig env s d"
  by (simp add: chunk_sig_def string_to_sign_def)

lemma trailer_loop_line:
  assumes "pending c = l @ [CR, LF] @ rest" "LF \<notin> set l" "length l \<le> 4000"
  shows "trailer_loop env (Suc k) (canonical, ver, c) =
    (case trailer_line env (l @ [CR, LF]) (canonical, ver, c\<lparr>ckSrc := (ckSrc c)\<lparr>bufData := rest\<rparr>\<rparr>) of
       (Some x, _, _, c2) \<Rightarrow> (x, c2) | (None, st) \<Rightarrow> trailer_loop env k st)"
proof -
  have "ReadSlice (ckSrc c) = (l @ [CR, LF], SliceLine, (ckSrc c)\<lparr>bufData := rest\<rparr>)"
    using assms by (auto simp: ReadSlice_iff intro!: exI [of _ "l @ [CR]"])
  then show ?thesis by simp
qed

lemma trailer_loop_end:
  assumes "pending c = [CR, LF]" "bufFail (ckSrc c) = None" "ckSigned c \<and> ckTrailing c \<longrightarrow> ver"
  shows "\<exists>c1. trailer_loop env (Suc (Suc k)) (canonical, ver, c) = (EOF, c1) \<and> ckTrailers c1 = ckTrailers c"
proof -
  have b: "TrimSpace [CR, LF] = []" "TrimSpace [] = []" by (simp_all add: TrimSpace_def go_spaces_def)
  have e: "ReadSlice ((ckSrc c)\<lparr>bufData := []\<rparr>) = ([], SliceEnd EOF, (ckSrc c)\<lparr>bufData := []\<rparr>)"
    using assms(2) by (simp add: ReadSlice_def buf_end_def)
  show ?thesis
    using trailer_loop_line [of c "[]" "[]" env "Suc k" canonical ver] assms(1,3) b e by (simp add: trailer_line_def Let_def)
qed

definition field_text :: "string \<Rightarrow> bool" where
  "field_text s \<longleftrightarrow> s \<noteq> [] \<and> list_all printable s \<and> CHR '':'' \<notin> set s \<and> length s \<le> 200"

lemma field_line:
  assumes "field_text n" "field_text v"
  shows "TrimSpace (n @ '':'' @ v @ [CR, LF]) = n @ '':'' @ v" "Cut (n @ '':'' @ v) CHR '':'' = Some (n, v)"
    "TrimSpace n = n" "TrimSpace v = v" "LF \<notin> set (n @ '':'' @ v)" "length (n @ '':'' @ v) \<le> 4000"
proof -
  have p: "printable (hd n)" "printable (last n)" "printable (hd v)" "printable (last v)" "n \<noteq> []" "v \<noteq> []"
    using assms by (auto simp: field_text_def list_all_iff)
  show "TrimSpace (n @ '':'' @ v @ [CR, LF]) = n @ '':'' @ v" using TrimSpace_printable(2) [of "n @ '':'' @ v"] p by simp
  show "TrimSpace n = n" "TrimSpace v = v" using TrimSpace_printable(1) p by blast+
  have "CHR '':'' \<notin> set n" using assms(1) by (simp add: field_text_def)
  then show "Cut (n @ '':'' @ v) CHR '':'' = Some (n, v)" by (induction n) (auto simp: Cut_def)
  show "LF \<notin> set (n @ '':'' @ v)" "length (n @ '':'' @ v) \<le> 4000" using assms by (auto simp: field_text_def list_all_iff printable_def)
qed

lemma trailer_line_declared:
  assumes "field_text n" "field_text v" "seLower env n = n" "n = ckDeclared c" "n \<noteq> signature_field" "ckTrailers c = []"
  shows "trailer_line env (n @ '':'' @ v @ [CR, LF]) ([], False, c) = (None, canonical_trailers [(n, v)], False, c\<lparr>ckTrailers := [(n, v)]\<rparr>)"
  using field_line [OF assms(1,2)] assms
  by (simp add: trailer_line_def Cut_or_all_def canonical_trailers_def field_text_def Let_def)

lemma lower_hex_printable: "is_lower_hex x \<Longrightarrow> printable x" "is_lower_hex x \<Longrightarrow> x \<noteq> CHR '':''"
  by (auto simp: is_lower_hex_def is_digit_def printable_def)

lemma trailer_line_signature:
  assumes "n = signature_field" "\<forall>k m. length (seHmac env k m) = 32" "seLower env n = n" "ckSigned c" "ckTrailing c" "ckSigner c = Some s"
    "v = trailer_sig env s canonical"
  shows "trailer_line env (n @ '':'' @ v @ [CR, LF]) (canonical, False, c) = (None, canonical, True, c\<lparr>ckSigner := Some (follow v s)\<rparr>)"
proof -
  have h: "isHexSHA256 v" using assms(2,7) by (simp add: trailer_sig_def hex_lower_SHA256)
  have f: "field_text n" using assms(1) by (simp add: field_text_def printable_def)
  have v: "length v = 64" "\<forall>x \<in> set v. is_lower_hex x" using h by (simp_all add: isHexSHA256_def list_all_iff split: if_splits)
  have "v \<noteq> []" using v(1) by auto
  moreover have "\<forall>x \<in> set v. printable x" "CHR '':'' \<notin> set v" using v(2) lower_hex_printable by blast+
  ultimately have "field_text v" using v(1) by (simp add: field_text_def list_all_iff)
  note fl = field_line [OF f this]
  have "check_trailer env c canonical v = (True, c\<lparr>ckSigner := Some (follow v s)\<rparr>)" using assms(6,7) by (simp add: check_trailer_ok)
  then show ?thesis
    using fl assms(1) [symmetric] assms(3-6) h f unfolding trailer_line_def by (simp add: Cut_or_all_def Let_def field_text_def)
qed

lemma readTrailers_lines:
  assumes "\<forall>k m. length (seHmac env k m) = 32" "seLower env signature_field = signature_field" "bufFail (ckSrc c) = None"
    "pending c = trailer_lines env (ckSigner c) (ckTrailing c) tr" "ckSigned c \<longleftrightarrow> ckSigner c \<noteq> None"
    "\<forall>n v. tr = Some (n, v) \<longrightarrow> field_text n \<and> field_text v \<and> seLower env n = n \<and> n = ckDeclared c \<and> n \<noteq> signature_field"
  shows "\<exists>c1. readTrailers env c = (EOF, c1) \<and> ckTrailers c1 = (case tr of None \<Rightarrow> [] | Some t \<Rightarrow> [t])"
proof -
  define ts where "ts = (case tr of None \<Rightarrow> [] | Some t \<Rightarrow> [t])"
  define rest' where "rest' = (case ckSigner c of None \<Rightarrow> [] | Some s \<Rightarrow> if ckTrailing c
      then signature_field @ '':'' @ trailer_sig env s (canonical_trailers ts) @ [CR, LF] else []) @ [CR, LF]"
  define c1 where "c1 = c\<lparr>ckSrc := (ckSrc c)\<lparr>bufData := rest'\<rparr>, ckTrailers := ts\<rparr>"
  have first: "\<exists>k. 3 \<le> k \<and> readTrailers env c = trailer_loop env k (canonical_trailers ts, False, c1)"
  proof (cases tr)
    case None
    have "pending c = rest'" using assms(4) None unfolding trailer_lines_def rest'_def ts_def by simp
    then have "(ckSrc c)\<lparr>bufData := rest'\<rparr> = ckSrc c" by (cases "ckSrc c") simp
    then have "c\<lparr>ckTrailers := []\<rparr> = c1" using None unfolding c1_def ts_def by (cases c) simp
    then show ?thesis using None by (intro exI [of _ 32]) (simp add: readTrailers_def canonical_trailers_def ts_def)
  next
    case (Some nv)
    obtain n v where nv: "nv = (n, v)" by fastforce
    have t: "field_text n" "field_text v" "seLower env n = n" "n = ckDeclared c" "n \<noteq> signature_field" using assms(6) Some nv by auto
    note fl = field_line [OF t(1,2)]
    have p: "pending (c\<lparr>ckTrailers := []\<rparr>) = (n @ '':'' @ v) @ [CR, LF] @ rest'"
      using assms(4) Some nv unfolding trailer_lines_def rest'_def ts_def by simp
    let ?c = "c\<lparr>ckTrailers := [], ckSrc := (ckSrc c)\<lparr>bufData := rest'\<rparr>\<rparr>"
    have "trailer_line env ((n @ '':'' @ v) @ [CR, LF]) ([], False, ?c) = (None, canonical_trailers [(n, v)], False, ?c\<lparr>ckTrailers := [(n, v)]\<rparr>)"
      using trailer_line_declared [of n v env ?c] t by simp
    moreover have "?c\<lparr>ckTrailers := [(n, v)]\<rparr> = c1" by (simp add: c1_def ts_def Some nv)
    ultimately have "trailer_loop env (Suc 31) ([], False, c\<lparr>ckTrailers := []\<rparr>) = trailer_loop env 31 (canonical_trailers [(n, v)], False, c1)"
      using trailer_loop_line [OF p fl(5,6), of env 31 "[]" False] by simp
    then show ?thesis by (intro exI [of _ 31]) (simp add: readTrailers_def ts_def Some nv)
  qed
  then obtain k where k: "3 \<le> k" "readTrailers env c = trailer_loop env k (canonical_trailers ts, False, c1)" by blast
  have c1: "ckTrailers c1 = ts" "ckSigned c1 = ckSigned c" "ckTrailing c1 = ckTrailing c" "ckSigner c1 = ckSigner c" "pending c1 = rest'"
    "bufFail (ckSrc c1) = None" using assms(3) by (simp_all add: c1_def)
  obtain j where j: "k = Suc (Suc (Suc j))" using k(1) by (metis add_Suc le_Suc_ex numeral_3_eq_3 plus_nat.add_0)
  show ?thesis
  proof (cases "ckSigned c \<and> ckTrailing c")
    case False
    have "pending c1 = [CR, LF]" using False assms(5) c1(5) by (auto simp: rest'_def split: option.splits)
    from trailer_loop_end [OF this c1(6), of False env "Suc j"] show ?thesis using False c1 k(2) j by (simp add: ts_def)
  next
    case True
    then obtain s where s: "ckSigner c = Some s" using assms(5) by blast
    define v where "v = trailer_sig env s (canonical_trailers ts)"
    define n where "n = signature_field"
    have p: "pending c1 = (n @ '':'' @ v) @ [CR, LF] @ [CR, LF]" using True s c1(5) by (simp add: rest'_def v_def n_def)
    have "isHexSHA256 v" using assms(1) by (simp add: v_def trailer_sig_def hex_lower_SHA256)
    then have w: "length v = 64" "\<forall>x \<in> set v. is_lower_hex x" by (simp_all add: isHexSHA256_def list_all_iff split: if_splits)
    have "LF \<notin> set (n @ '':'' @ v)" "length (n @ '':'' @ v) \<le> 4000"
      using w lower_hex_printable(1) [of LF] by (auto simp: n_def printable_def)
    note tl = trailer_loop_line [OF p this, of env "Suc (Suc j)" "canonical_trailers ts" False]
    let ?c = "c1\<lparr>ckSrc := (ckSrc c1)\<lparr>bufData := [CR, LF]\<rparr>\<rparr>"
    let ?d = "?c\<lparr>ckSigner := Some (follow v s)\<rparr>"
    have "trailer_line env (n @ '':'' @ v @ [CR, LF]) (canonical_trailers ts, False, ?c) = (None, canonical_trailers ts, True, ?d)"
      using True s c1 assms(2) by (intro trailer_line_signature [OF n_def assms(1)]) (simp_all add: v_def n_def)
    then have "readTrailers env c = trailer_loop env (Suc (Suc j)) (canonical_trailers ts, True, ?d)" using tl k(2) j by simp
    then show ?thesis using trailer_loop_end [of ?d True env j "canonical_trailers ts"] c1(1,6) by (simp add: ts_def)
  qed
qed

lemma checksum_field:
  assumes "checksumAlgorithms dg name = Some (h, n)" "length w = n"
  shows "field_text name" "field_text (b64_encode w)" "name \<noteq> signature_field"
proof -
  have nm: "name \<in> {''x-amz-checksum-crc32'', ''x-amz-checksum-crc32c'', ''x-amz-checksum-crc64nvme'', ''x-amz-checksum-sha1'', ''x-amz-checksum-sha256''}"
    and sz: "n \<in> {4, 8, 20, 32}" using assms(1) by (auto simp: checksumAlgorithms_def split: if_splits)
  show "field_text name" using nm by (auto simp: field_text_def printable_def)
  show "name \<noteq> signature_field" using nm by auto
  have l: "length (b64_encode s) \<le> 4 * length s \<and> length s \<le> length (b64_encode s)" for s
    by (induction s rule: b64_encode.induct) (force simp: Let_def)+
  have "CHR '':'' \<notin> set (b64_encode w)" "list_all printable (b64_encode w)" using b64_encode_printable [of w] by (auto simp: list_all_iff)
  then show "field_text (b64_encode w)" using l [of w] sz assms(2) by (auto simp: field_text_def)
qed

lemma checksum_lower: "checksumAlgorithms dg name = Some (h, n) \<Longrightarrow> ToLower name = name"
  by (auto simp: checksumAlgorithms_def ToLower_def lower_char_def split: if_splits)

lemma signature_lower: "ToLower signature_field = signature_field"
  by (simp add: ToLower_def lower_char_def)

lemma sum_decode_encode:
  assumes "checksumAlgorithms dg (smName s) = Some (h, smSize s)" "length w = smSize s"
  shows "sum_decode s (b64_encode w) = Some w"
proof -
  have "field_text (b64_encode w)" using checksum_field [OF assms] by simp
  then have "TrimSpace (b64_encode w) = b64_encode w" by (intro TrimSpace_printable) (auto simp: field_text_def list_all_iff)
  then show ?thesis using assms(2) by (simp add: sum_decode_def b64_decode_encode)
qed

lemma payload_end_ok:
  assumes "pyLength p < 0 \<or> pyN p = pyLength p"
    "\<forall>s. pySum p = Some s \<longrightarrow> (if smTrailing s then \<exists>c v. pyChunks p = Some c \<and> row_of fst (ckTrailers c) (smName s) = Some (smName s, v) \<and>
        sum_decode s v = Some (smHash s (smData s)) else smWant s = Some (smHash s (smData s)))"
  shows "\<exists>p'. payload_end EOF p = (EOF, p')"
  using assms by (cases "pySum p") (auto simp: payload_end_def payload_finish_def Let_def split: if_splits option.splits)

lemma payload_end_declared:
  assumes "\<forall>s. pySum p = Some s \<longrightarrow> checksumAlgorithms dg (smName s) = Some (smHash s, smSize s) \<and> smData s = [] \<and>
      length (smHash s bs) = smSize s \<and> (\<not> smTrailing s \<longrightarrow> smWant s = Some (smHash s bs))"
    "\<forall>s. pySum p = Some s \<longrightarrow> smTrailing s \<longrightarrow> ckTrailers c = [(smName s, b64_encode (smHash s bs))]"
    "pyLength p = -1 \<or> pyLength p = int (length bs)" "pyN p = 0"
  shows "\<exists>p'. payload_end EOF (deliver bs (p\<lparr>pyChunks := Some c\<rparr>)) = (EOF, p')"
proof (rule payload_end_ok, goal_cases)
  case 1
  then show ?case using assms(3,4) by (auto simp: deliver_def)
next
  case 2
  show ?case
  proof (intro allI impI)
    fix s assume "pySum (deliver bs (p\<lparr>pyChunks := Some c\<rparr>)) = Some s"
    then obtain s0 where s0: "pySum p = Some s0" "s = s0\<lparr>smData := bs\<rparr>" using assms(1) by (auto simp: deliver_def)
    have "sum_decode s (b64_encode (smHash s0 bs)) = Some (smHash s0 bs)"
      using sum_decode_encode [of dg s "smHash s0"] assms(1) s0 by simp
    then show "if smTrailing s then \<exists>c' v. pyChunks (deliver bs (p\<lparr>pyChunks := Some c\<rparr>)) = Some c' \<and>
        row_of fst (ckTrailers c') (smName s) = Some (smName s, v) \<and> sum_decode s v = Some (smHash s (smData s))
      else smWant s = Some (smHash s (smData s))"
      using s0 assms(1,2) by (auto simp: deliver_def)
  qed
qed

lemma stream_delivered:
  assumes "newPayload env dg to_upper cfg keys r \<lparr> bufData = encode_stream env so trailing tr ds, bufFail = None \<rparr> = Inr p"
    "pyChunks p = Some c" "ckSigner c = so" "ckSigned c \<longleftrightarrow> so \<noteq> None" "ckTrailing c = trailing"
    "tr = (case pySum p of None \<Rightarrow> None | Some s \<Rightarrow> if smTrailing s then Some (smName s, b64_encode (smHash s (concat ds))) else None)"
    "\<forall>s. pySum p = Some s \<longrightarrow> length (smHash s (concat ds)) = smSize s \<and> (\<not> smTrailing s \<longrightarrow> smWant s = Some (smHash s (concat ds)))"
    "pyLength p = -1 \<or> pyLength p = int (length (concat ds))"
    "\<forall>d \<in> set ds. d \<noteq> [] \<and> length d < 2 ^ 63" "\<forall>k m. length (seHmac env k m) = 32" "\<forall>n. ToLower n = n \<longrightarrow> seLower env n = n"
    "\<forall>i. 0 < fst (sched i)" "length (encode_stream env so trailing tr ds) < fuel"
  shows "\<exists>p'. read_all env sched fuel p = Some (concat ds, EOF, p')"
proof -
  define body where "body = \<lparr> bufData = encode_stream env so trailing tr ds, bufFail = None :: string option \<rparr>"
  note np = assms(1) [folded body_def]
  note f = newPayload_fresh [OF np]
  have fc: "boundary c" "ckSrc c = body" "\<forall>s. pySum p = Some s \<longrightarrow> smTrailing s \<longrightarrow> ckDeclared c = smName s"
    using f(6) assms(2) by (auto simp: fresh_chunks_def)
  define fs g l where "fs = sign_frames env so ds" and "g = last_sig env so ds" and "l = chunk_header (so \<noteq> None) 0 g"
  note fo = sign_frames_ok [OF assms(10,9), of so, folded fs_def]
  have gl: "chunk_line (ckSigned c) l 0 g" unfolding l_def assms(4) g_def
    by (rule chunk_header_line) (auto simp: last_sig_def chunk_sig_def hex_lower_SHA256 assms(10))
  have ch: "\<forall>s. ckSigner c = Some s \<longrightarrow> chain env s (fs @ [(l, [], g)])"
    using fo(3) assms(3) by (auto simp: chain_append g_def last_sig_def fs_def)
  let ?tail = "trailer_lines env (map_option (\<lambda>s. chain_end s (fs @ [(l, [], g)])) so) trailing tr"
  have pc: "pending c = frames fs @ l @ ?tail"
    using fc(2) by (simp add: body_def encode_stream_def Let_def fs_def g_def l_def)
  obtain c4 where c4: "last_reader c (fs @ [(l, [], g)]) ?tail c4"
    "\<forall>c5. readTrailers env c4 = (EOF, c5) \<longrightarrow> decode env c = (frame_data fs, EOF, c5\<lparr>ckErr := Some EOF\<rparr>)"
    using decode_complete [OF fc(1) pc _ gl ch] fo(1) assms(4) by auto
  have sm: "checksumAlgorithms dg (smName s) = Some (smHash s, smSize s)" "smData s = []" "length (smHash s (concat ds)) = smSize s"
    "\<not> smTrailing s \<longrightarrow> smWant s = Some (smHash s (concat ds))" if "pySum p = Some s" for s
    using f(4) assms(7) that by (simp_all add: sum_ok_def)
  have dc: "ckDeclared c4 = ckDeclared c" using c4(1) by (simp add: last_reader_def same_mode_def)
  have tf: "\<forall>n v. tr = Some (n, v) \<longrightarrow> field_text n \<and> field_text v \<and> seLower env n = n \<and> n = ckDeclared c4 \<and> n \<noteq> signature_field"
  proof (intro allI impI)
    fix n v assume "tr = Some (n, v)"
    then obtain s where s: "pySum p = Some s" "smTrailing s" "n = smName s" "v = b64_encode (smHash s (concat ds))"
      using assms(6) by (auto split: option.splits if_splits)
    note cf = checksum_field [OF sm(1,3) [OF s(1)]]
    have "seLower env n = n" using assms(11) checksum_lower [OF sm(1) [OF s(1)]] s(3) by simp
    then show "field_text n \<and> field_text v \<and> seLower env n = n \<and> n = ckDeclared c4 \<and> n \<noteq> signature_field"
      using cf s fc(3) dc by simp
  qed
  have low: "seLower env signature_field = signature_field" using assms(11) signature_lower by blast
  obtain c5 where c5: "readTrailers env c4 = (EOF, c5)" "ckTrailers c5 = (case tr of None \<Rightarrow> [] | Some t \<Rightarrow> [t])"
    using readTrailers_lines [OF assms(10) low _ _ _ tf] c4(1) assms(3-5) fc(2) by (auto simp: last_reader_def same_mode_def body_def)
  define q where "q = p\<lparr>pyChunks := Some (c5\<lparr>ckErr := Some EOF\<rparr>)\<rparr>"
  have sd: "source_decode env p = (concat ds, EOF, q)"
    using c4(2) c5(1) assms(2) fo(2) by (simp add: source_decode_def q_def)
  obtain p' where p': "payload_end EOF (deliver (concat ds) q) = (EOF, p')"
    using payload_end_declared [of p dg "concat ds" "c5\<lparr>ckErr := Some EOF\<rparr>"] sm assms(6,8) f(3) c5(2) unfolding q_def by auto
  have "\<not> too_long p (concat ds)" using assms(8) f(3) by (auto simp: too_long_def)
  moreover have "length (source_pending p) < fuel" using newPayload_open(2) [OF np] assms(13) by (simp add: body_def)
  ultimately show ?thesis using read_all_decode [OF assms(12) newPayload_open(1) [OF np] _ sd] p' by auto
qed

text \<open>C37: What a client frames arrives. Take any accepted request and any division of the data into non-empty pieces; if
  the body is these pieces framed, signed from the signature of the request when the request is signed, with the
  announced checksum as trailer and the trailers signed where the request says so, and the declared length and checksum
  are those of the data, then reading delivers exactly the data and succeeds, however the bytes arrive.\<close>

theorem stream_roundtrip:
  assumes "newPayload env dg to_upper cfg keys r \<lparr> bufData = encode_stream env so trailing tr ds, bufFail = None \<rparr> = Inr p"
    "pyChunks p = Some c" "ckSigner c = so" "ckSigned c \<longleftrightarrow> so \<noteq> None" "ckTrailing c = trailing"
    "tr = (case pySum p of None \<Rightarrow> None | Some s \<Rightarrow> if smTrailing s then Some (smName s, b64_encode (smHash s (concat ds))) else None)"
    "\<forall>s. pySum p = Some s \<longrightarrow> length (smHash s (concat ds)) = smSize s \<and> (\<not> smTrailing s \<longrightarrow> smWant s = Some (smHash s (concat ds)))"
    "pyLength p = -1 \<or> pyLength p = int (length (concat ds))"
    "\<forall>d \<in> set ds. d \<noteq> [] \<and> length d < 2 ^ 63" "\<forall>k m. length (seHmac env k m) = 32" "\<forall>n. ToLower n = n \<longrightarrow> seLower env n = n"
    "\<forall>i. 0 < fst (sched i)" "length (encode_stream env so trailing tr ds) < fuel"
  shows "\<exists>p'. read_all env sched fuel p = Some (concat ds, EOF, p')"
  using assms by (rule stream_delivered)

section \<open>A signed upload with a trailing checksum\<close>

definition demo_sign :: sig_env where
  "demo_sign = \<lparr> seSha = (\<lambda>_. ''digest''), seHmac = (\<lambda>_ _. replicate 32 (CHR ''s'')), seLower = ToLower, seParse = (\<lambda>_. Some 5), seNow = 7 \<rparr>"

definition demo_digests :: digests where
  "demo_digests = \<lparr> dgSha1 = id, dgSha256 = id \<rparr>"

definition demo_config :: s3_config where
  "demo_config = \<lparr> scAccessKey = ''AK'', scSecretKey = ''SK'', scMaxUploadBytes = 0 \<rparr>"

definition demo_upload :: http_request where
  "demo_upload = \<lparr> rqMethod = ''PUT'', rqEscapedPath = ''/b/k'', rqQuery = [], rqHost = ''h'', rqContentLength = 0,
     rqHeader = (\<lambda>k. if k = ''X-Amz-Content-Sha256'' then [''STREAMING-AWS4-HMAC-SHA256-PAYLOAD-TRAILER'']
        else if k = ''X-Amz-Decoded-Content-Length'' then [''3'']
        else if k = ''X-Amz-Trailer'' then [''x-amz-checksum-crc32'']
        else if k = ''X-Amz-Date'' then [''20260102T000000Z'']
        else if k = ''Authorization'' then [''AWS4-HMAC-SHA256 Credential=AK/20260102/r/s3/aws4_request, SignedHeaders=host, Signature=00''] else []) \<rparr>"

definition demo_signer :: chunkSigner where
  "demo_signer = \<lparr> sgKey = replicate 32 (CHR ''s''), sgAmzDate = ''20260102T000000Z'', sgScope = ''20260102/r/s3/aws4_request'',
     sgPrev = ''00'', sgHash = [] \<rparr>"

definition demo_sum :: checksum where
  "demo_sum = \<lparr> smName = ''x-amz-checksum-crc32'', smHash = crc32_sum 0xEDB88320, smSize = 4, smData = [], smWant = None, smTrailing = True \<rparr>"

definition demo_chunks :: "bufreader \<Rightarrow> chunkReader" where
  "demo_chunks body = (new_chunks body True True)\<lparr>ckSigner := Some demo_signer, ckDeclared := ''x-amz-checksum-crc32''\<rparr>"

definition demo_payload :: "bufreader \<Rightarrow> payload" where
  "demo_payload body = \<lparr> pyBody = body, pyChunks = Some (demo_chunks body), pyLength = 3, pyN = 0, pySum = Some demo_sum, pyErr = None \<rparr>"

lemma demo_headers:
  "TrimSpace (Header_Get demo_upload ''X-Amz-Content-Sha256'') = ''STREAMING-AWS4-HMAC-SHA256-PAYLOAD-TRAILER''"
  "streamingSigner demo_sign demo_upload ''SK'' = Some demo_signer"
  "Header_Get demo_upload ''X-Amz-Decoded-Content-Length'' = ''3''" "ParseInt (TrimSpace ''3'') = Some 3"
  "concat (map (\<lambda>v. Split v CHR '','') (Header_Values demo_upload ''X-Amz-Trailer'')) = [''x-amz-checksum-crc32'']"
  "seLower demo_sign (TrimSpace ''x-amz-checksum-crc32'') = ''x-amz-checksum-crc32''"
  "HasPrefix (seLower demo_sign ''X-Amz-Trailer'') ''x-amz-checksum-'' = False"
  by code_simp+

lemma demo_accepted: "newPayload demo_sign demo_digests id demo_config [''X-Amz-Trailer''] demo_upload body = Inr (demo_payload body)"
proof -
  have c: "payload_chunks demo_sign id demo_config demo_upload body = Inr (Some ((new_chunks body True True)\<lparr>ckSigner := Some demo_signer\<rparr>))"
    using demo_headers(1,2) by (simp add: payload_chunks_def demo_config_def Let_def)
  have l: "payload_length demo_sign demo_config demo_upload ((new_chunks body True True)\<lparr>ckSigner := Some demo_signer\<rparr>) =
      Inr (3, (new_chunks body True True)\<lparr>ckSigner := Some demo_signer\<rparr>)"
    using demo_headers(3,4) by (simp add: payload_length_def demo_config_def new_chunks_def Let_def)
  have d: "declaredChecksum demo_sign demo_digests [''X-Amz-Trailer''] demo_upload True = Inr (Some demo_sum)"
    using demo_headers(5-7) by (simp add: declaredChecksum_def demo_sum_def checksumAlgorithms_def Let_def)
  show ?thesis unfolding newPayload_def c
    using l d by (simp add: demo_payload_def demo_chunks_def demo_sum_def new_chunks_def)
qed

definition demo_pieces :: "string list" where
  "demo_pieces = [''ab'', ''c'']"

definition demo_body :: bufreader where
  "demo_body = \<lparr> bufData = encode_stream demo_sign (Some demo_signer) True
     (Some (''x-amz-checksum-crc32'', b64_encode (crc32_sum 0xEDB88320 ''abc''))) demo_pieces, bufFail = None \<rparr>"

lemma big_endian_length: "length (big_endian k n) = k"
  by (induction k n rule: big_endian.induct) simp_all

lemma crc32_length: "length (crc32_sum poly s) = 4"
  by (simp only: crc32_sum_def big_endian_length)

lemma demo_pieces_hyps:
  "pyChunks (demo_payload body) = Some (demo_chunks body)" "ckSigner (demo_chunks body) = Some demo_signer"
  "ckSigned (demo_chunks body) \<longleftrightarrow> Some demo_signer \<noteq> None" "ckTrailing (demo_chunks body) = True"
  "Some (''x-amz-checksum-crc32'', b64_encode (crc32_sum 0xEDB88320 ''abc'')) = (case pySum (demo_payload body) of None \<Rightarrow> None
     | Some s \<Rightarrow> if smTrailing s then Some (smName s, b64_encode (smHash s (concat demo_pieces))) else None)"
  "\<forall>s. pySum (demo_payload body) = Some s \<longrightarrow> length (smHash s (concat demo_pieces)) = smSize s \<and>
     (\<not> smTrailing s \<longrightarrow> smWant s = Some (smHash s (concat demo_pieces)))"
  "pyLength (demo_payload body) = -1 \<or> pyLength (demo_payload body) = int (length (concat demo_pieces))"
  "\<forall>d \<in> set demo_pieces. d \<noteq> [] \<and> length d < 2 ^ 63" "\<forall>k m. length (seHmac demo_sign k m) = 32" "\<forall>n. ToLower n = n \<longrightarrow> seLower demo_sign n = n"
  by (simp_all add: demo_payload_def demo_chunks_def new_chunks_def demo_sum_def demo_pieces_def demo_sign_def crc32_length)

theorem stream_roundtrip_witness:
  "\<exists>p'. read_all demo_sign (\<lambda>i. (2, i)) (Suc (length (bufData demo_body))) (demo_payload demo_body) = Some (''abc'', EOF, p')"
  using stream_roundtrip [OF demo_accepted demo_pieces_hyps, of "\<lambda>i. (2, i)" "Suc (length (bufData demo_body))"]
  by (simp add: demo_body_def demo_pieces_def)

lemma demo_reads:
  "\<exists>p'. read_all demo_sign (\<lambda>i. (2, i)) (Suc (length (bufData demo_body))) (demo_payload demo_body) = Some (''abc'', EOF, p')"
  using stream_delivered [OF demo_accepted demo_pieces_hyps, of "\<lambda>i. (2, i)" "Suc (length (bufData demo_body))"]
  by (simp add: demo_body_def demo_pieces_def)



theorem payload_verified_witness:
  "\<exists>p'. read_all demo_sign (\<lambda>i. (2, i)) (Suc (length (bufData demo_body))) (demo_payload demo_body) = Some (''abc'', EOF, p') \<and>
     checksum_header p' = Some (''x-amz-checksum-crc32'', b64_encode (crc32_sum 0xEDB88320 ''abc''))"
proof -
  obtain p' where r: "read_all demo_sign (\<lambda>i. (2, i)) (Suc (length (bufData demo_body))) (demo_payload demo_body) = Some (''abc'', EOF, p')"
    using demo_reads by blast
  have "pySum (demo_payload demo_body) = Some demo_sum" by (simp add: demo_payload_def)
  then have "checksum_header p' = Some (''x-amz-checksum-crc32'', b64_encode (crc32_sum 0xEDB88320 ''abc''))"
    using payload_verified [OF demo_accepted _ _ r] by (auto simp: demo_sum_def checksumAlgorithms_def)
  then show ?thesis using r by blast
qed

end
