(* ===== verification/Spec2Isabelle.thy ===== *)
theory Spec2Isabelle
  imports Store_Properties Sync_Properties Dav_Locks Sftp_Wire S3_Access S3_Listing Breaker Multipart_Properties Cluster_Properties S3_Streaming_Properties
begin

text \<open>
  Birak is a distributed file server: every node keeps a directory, an SQLite index of it, and a repair queue; nodes
  read each other's changes over HTTP and apply them; clients reach the directory through S3, WebDAV, SFTP and a web
  page. This development models the parts of it whose meaning lies in the code itself: the order of states, the
  index and its queue, the exchange between nodes, the naming rules, the request bodies, the upload store, the locks, and
  the limit on deletions.

  \<^bold>\<open>Conventions.\<close> A Go string is a \<^typ>\<open>string\<close> of bytes, an \<open>int64\<close> an \<^typ>\<open>int\<close> reduced with \<open>wrap64\<close> where the source computes
  and overflow is possible, a function with an error result returns \<open>Inl\<close> the error or \<open>Inr\<close> the value, an operation on
  shared state takes the state and returns it. A table, map or directory is the list of its rows with a key (\<open>row_of\<close>,
  \<open>upsert\<close>, \<open>delete_key\<close>). What the environment contributes (the outcome of a database statement, a reply, a clock, what a
  file system keeps) is an argument. Parameters stand for SHA-1, SHA-256, MD5, HMAC, Unicode folding and normalisation,
  letter case and date parsing; theorems that rely on them name what they rely on. A JSON body is the value it
  encodes, with its size.

  \<^bold>\<open>Theories and sources\<close> (under src/internal).
  \<^item> \<open>Birak_Prelude\<close>: Go and SQL primitives, the result type, generic lemmas. \<open>Go_Paths\<close>: \<open>path.Clean\<close> and its relatives.
  \<^item> \<open>Clocks\<close> (store/clock.go, \<open>CompareState\<close> in store/store.go): logical clocks that continue as decimal numbers beyond 64 bits,
    and the order of states.
  \<^item> \<open>Names\<close> (store/names.go), \<open>Store\<close>, \<open>Repair_Queue\<close> (store/store.go, store/conflicts.go), \<open>Store_Local\<close> (intents.go, integrity.go,
    partials.go): the index. \<open>Store_Machine\<close> makes every call, failure and restart a step; \<open>Store_Properties\<close> has what holds of
    every reachable store.
  \<^item> \<open>Namespace_Rules\<close> (gateway/gateway.go, \<open>ShouldIgnore\<close> in watcher/watcher.go): which names clients may reach and where they lead.
  \<^item> \<open>Sync_Rules\<close>, \<open>Sync_Stream\<close> (syncer/syncer.go, syncer/readiness.go): validation of what peers send, conflict resolution, one
    poll, the manifest comparison, admission; \<open>Sync_Properties\<close> states what they guarantee against any peer.
  \<^item> \<open>Peer_Server\<close> (server/server.go, fileops/mtime.go): the endpoints peers call. \<open>Cluster_Properties\<close> puts a poller and a server
    together.
  \<^item> \<open>Breaker\<close> (watcher/breaker.go): deletions inferred from absence.
  \<^item> \<open>Dav_Locks\<close> (gateway/webdav/locks.go), \<open>Sftp_Wire\<close> (gateway/sftp/protocol.go), \<open>S3_Access\<close> (gateway/s3/sigv4.go, conditions.go, names
    of handlers.go), \<open>S3_Listing\<close> (listing.go, \<open>paginate\<close>).
  \<^item> \<open>S3_Streaming\<close> (gateway/s3/streaming.go): request bodies. \<open>S3_Chunks\<close> relates the reader to the grammar of frames, \<open>S3_Checksums\<close>
    treats base64 and the CRCs, \<open>S3_Streaming_Properties\<close> states what a successful read means.
  \<^item> \<open>Multipart\<close>, \<open>Multipart_Properties\<close> (multipart/multipart.go, completion.go, fileops/conditional.go): the upload store.

  \<^bold>\<open>What is shown.\<close> All nodes order states by one linear order, and nodes that saw the same states agree (C1, C6); clocks
  advance correctly across the 64-bit boundary (C2). Every store reachable by calls, failures and restarts satisfies the
  store invariant, reserves each spelling once, reopens with everything, and fences damaged files (C7 to C11); the queue
  never regresses, keeps its cap and loses no newer state (C12 to C14). A poll never skips unrecorded work, polling and comparing with a
  real server end with everything held or queued, and a fresh node serves only then (C3 to C5, C18, C19). Names from clients and
  peers stay inside the directory (C15, C17, C35); strangers learn nothing (C34). Locks exclude (C20, C21), packets, listings and
  deletions obey their bounds (C23, C26, C27), S3 requests need a matching signature (C24). Multipart completion publishes exactly the
  listed parts and can be repeated (C28 to C32). Bodies are delivered exactly when framing, signatures, length and checksum agree (C36 to
  C40). C16, C22, C25 and C33 prove deviations of the code from what it means to do.

  \<^bold>\<open>Interfaces.\<close> \<open>keyed_table\<close> (laws of a table; interpreted on the rows of the store), \<open>paged_query\<close> (reading a table page by page;
  interpreted on changes, manifest, live names, staged parts and uploads), \<open>last_writer_wins\<close> (interpreted on
  \<open>CompareState\<close>), \<open>wire_codec\<close> (interpreted on the two integer formats of SFTP).

  \<^bold>\<open>Bounds and fuel.\<close> Loops over an environment that may answer for ever carry fuel and return \<open>None\<close> when it is used up:
  \<open>reconcileOnce\<close> and \<open>poll_peer\<close> (one request per row of the peer and one or two more suffice, C4 and C5; a page budget
  bounds the comparison with any peer, C18), \<open>read_all\<close> (one read per byte of the body and one more, C38). Other fuel is the
  length of the string at hand or a constant of the source, as the 32 trailer lines. The theorems on two nodes assume an unlimited
  repair queue and pages within the size budget; C13 is about the limit.

  \<^bold>\<open>Not modelled.\<close> The apply half of the syncer (downloads, partial files, namespace repairs on disk), the scanning and commit half
  of the watcher, and fileops apart from times and conditional publication: they order calls of the operating system,
  and a statement on them would be one about a model of the file system rather than about this code. The
  HTTP, XML and HTML of the gateways, the SSH sessions of SFTP, configuration files, metrics, logging and start-up: I/O and presentation
  around the parts above. Concurrency is modelled where the code gives up its locks between steps (multipart staging, the
  repair queue); elsewhere a locked operation is one step.
\<close>

end
